(* ===== verification/Miner_Prelude.thy ===== *)
theory Miner_Prelude
  imports Main "HOL-Library.Word"
begin

text \<open>
  Shared vocabulary of the development: bytes and byte slices, the result type of fallible Go
  functions with its sequencing operator, wrap-around of Go's fixed-width signed integers,
  little-endian encoding (package \<^verbatim>\<open>encoding/binary\<close>), the contract of an encoder/decoder pair
  as a locale, and the list lemmas the components share.
\<close>

unbundle bit_operations_syntax

named_theorems res_simps \<open>unfolding of sequenced fallible computations\<close>
named_theorems int_wrap \<open>in-range facts about fixed-width signed integers\<close>
named_theorems le_simps \<open>little-endian encoding\<close>

type_synonym byte = "8 word"
type_synonym bytes = "byte list"
type_synonym u16 = "16 word"
type_synonym u32 = "32 word"
type_synonym u64 = "64 word"

section \<open>Fallible computations\<close>

text \<open>
  A Go function returning \<^verbatim>\<open>(T, error)\<close> is a function into \<open>'e + 'a\<close>: \<open>Inl\<close> is a non-nil
  error (or a run-time panic, which has a constructor of its own in the error types), \<open>Inr\<close>
  the normal result. \<open>rbind\<close> is the \<^verbatim>\<open>if err != nil { return err }\<close> idiom and \<open>rguard\<close> a check
  that fails with an error.
\<close>

definition rbind :: "('e + 'a) \<Rightarrow> ('a \<Rightarrow> 'e + 'b) \<Rightarrow> 'e + 'b" where
  "rbind m f = (case m of Inl e \<Rightarrow> Inl e | Inr x \<Rightarrow> f x)"

definition rguard :: "bool \<Rightarrow> 'e \<Rightarrow> 'e + unit" where
  "rguard b e = (if b then Inr () else Inl e)"

definition is_ok :: "('e + 'a) \<Rightarrow> bool" where
  "is_ok r = (case r of Inl _ \<Rightarrow> False | Inr _ \<Rightarrow> True)"

text \<open>\<^verbatim>\<open>for i := k; i > 0; i-- { ... }\<close> over a state, leaving on the first error.\<close>

primrec rloop :: "nat \<Rightarrow> ('s \<Rightarrow> 'e + 's) \<Rightarrow> 's \<Rightarrow> 'e + 's" where
  "rloop 0 f s = Inr s"
| "rloop (Suc k) f s = rbind (f s) (rloop k f)"

text \<open>\<^verbatim>\<open>for _, x := range xs { ... }\<close> over a state, leaving on the first error.\<close>

primrec rfold :: "('s \<Rightarrow> 'x \<Rightarrow> 'e + 's) \<Rightarrow> 's \<Rightarrow> 'x list \<Rightarrow> 'e + 's" where
  "rfold f s [] = Inr s"
| "rfold f s (x # xs) = rbind (f s x) (\<lambda>s. rfold f s xs)"

section \<open>Fixed-width signed integers\<close>

text \<open>
  Go's \<^verbatim>\<open>int32\<close> and \<^verbatim>\<open>int64\<close> wrap around. They are modelled by \<open>int\<close>, with the conversion
  written at each operation that can leave the range.
\<close>

definition i32 :: "int \<Rightarrow> int" where
  "i32 x = (x + 2147483648) mod 4294967296 - 2147483648"

definition i64 :: "int \<Rightarrow> int" where
  "i64 x = (x + 9223372036854775808) mod 18446744073709551616 - 9223372036854775808"

section \<open>Little-endian encoding\<close>

primrec put_le :: "nat \<Rightarrow> nat \<Rightarrow> bytes" where
  "put_le 0 n = []"
| "put_le (Suc k) n = of_nat (n mod 256) # put_le k (n div 256)"

primrec le_val :: "bytes \<Rightarrow> nat" where
  "le_val [] = 0"
| "le_val (b # bs) = unat b + 256 * le_val bs"

section \<open>Encoder/decoder contract\<close>

text \<open>
  What a client relies on when a value is written with \<open>enc\<close> and read back with \<open>dec\<close>: every
  admissible value is read back, and what the decoder accepts in canonical form is what the
  encoder writes.
\<close>

locale codec =
  fixes valid :: "'a \<Rightarrow> bool"
    and enc :: "'a \<Rightarrow> 'b"
    and canonical :: "'b \<Rightarrow> bool"
    and dec :: "'b \<Rightarrow> 'e + 'a"
  assumes dec_enc: "valid x \<Longrightarrow> dec (enc x) = Inr x"
    and enc_canonical: "valid x \<Longrightarrow> canonical (enc x)"
    and enc_dec: "canonical b \<Longrightarrow> dec b = Inr x \<Longrightarrow> valid x \<and> enc x = b"
begin

lemma enc_inj: "valid x \<Longrightarrow> valid y \<Longrightarrow> enc x = enc y \<Longrightarrow> x = y"
  by (metis dec_enc sum.inject(2))

lemma dec_inj: "canonical b \<Longrightarrow> canonical c \<Longrightarrow> dec b = Inr x \<Longrightarrow> dec c = Inr x \<Longrightarrow> b = c"
  by (metis enc_dec)

lemma dec_enc_iff: "canonical b \<Longrightarrow> dec b = Inr x \<longleftrightarrow> valid x \<and> enc x = b"
  using dec_enc enc_dec by blast

end

section \<open>Cache contract\<close>

text \<open>
  A cache may forget entries at any time, but answers only with what was put in. The parameter
  \<open>'r\<close> of the insertion carries whatever its eviction depends on (randomness, iteration order).
\<close>

locale cache_contract =
  fixes empty :: 'c
    and lookup :: "'c \<Rightarrow> 'k \<Rightarrow> 'v option"
    and add :: "'r \<Rightarrow> 'k \<Rightarrow> 'v \<Rightarrow> 'c \<Rightarrow> 'c"
    and del :: "'k \<Rightarrow> 'c \<Rightarrow> 'c"
  assumes lookup_empty: "lookup empty k = None"
    and lookup_add: "lookup (add r k v c) k' = Some w \<Longrightarrow> k' = k \<and> w = v \<or> lookup c k' = Some w"
    and lookup_del: "lookup (del k c) k' = Some w \<Longrightarrow> lookup c k' = Some w"
begin

definition sound :: "('k \<Rightarrow> 'v \<Rightarrow> bool) \<Rightarrow> 'c \<Rightarrow> bool" where
  "sound good c \<longleftrightarrow> (\<forall>k v. lookup c k = Some v \<longrightarrow> good k v)"

lemma sound_empty: "sound good empty"
  by (simp add: sound_def lookup_empty)

lemma sound_add: "sound good c \<Longrightarrow> good k v \<Longrightarrow> sound good (add r k v c)"
  unfolding sound_def using lookup_add by blast

lemma sound_del: "sound good c \<Longrightarrow> sound good (del k c)"
  unfolding sound_def using lookup_del by blast

lemma soundD: "sound good c \<Longrightarrow> lookup c k = Some v \<Longrightarrow> good k v"
  by (simp add: sound_def)

text \<open>A history of insertions of good entries and deletions leads to a sound cache.\<close>

lemma sound_history:
  assumes "\<And>op c. op \<in> set ops \<Longrightarrow>
    (\<exists>r k v. good k v \<and> step op c = add r k v c) \<or> (\<exists>k. step op c = del k c) \<or> step op c = c"
    and "sound good c"
  shows "sound good (fold step ops c)"
  using assms
proof (induction ops arbitrary: c)
  case (Cons op ops)
  have "sound good (step op c)"
    using Cons.prems(1) [of op c] Cons.prems(2) sound_add sound_del by (auto split: if_splits)
  then show ?case using Cons by simp
qed simp

end

section \<open>Checked accumulation contract\<close>

text \<open>
  A running total that is checked at every addition: an addition succeeds only with a non-negative
  summand and a total within the bound, and then it is exact. The client's loop over a list is then
  exact as a whole.
\<close>

locale checked_sum =
  fixes val :: "'a \<Rightarrow> int"
    and bound :: int
    and ok :: "'b \<Rightarrow> bool"
    and w :: "'b \<Rightarrow> int"
    and add :: "'a \<Rightarrow> 'b \<Rightarrow> 'e + 'a"
  assumes add_exact: "0 \<le> val a \<Longrightarrow> val a \<le> bound \<Longrightarrow> ok b \<Longrightarrow> add a b = Inr c \<Longrightarrow>
      0 \<le> w b \<and> val c = val a + w b \<and> val c \<le> bound"
    and add_total: "0 \<le> val a \<Longrightarrow> ok b \<Longrightarrow> 0 \<le> w b \<Longrightarrow> val a + w b \<le> bound \<Longrightarrow> \<exists>c. add a b = Inr c"
begin

lemma rfold_exact:
  assumes "0 \<le> val a" "val a \<le> bound" "list_all ok bs" "rfold add a bs = Inr c"
  shows "list_all (\<lambda>b. 0 \<le> w b) bs \<and> val c = val a + sum_list (map w bs) \<and> val c \<le> bound"
  using assms
proof (induction bs arbitrary: a)
  case (Cons b bs)
  then obtain d where d: "add a b = Inr d" "rfold add d bs = Inr c"
    by (auto simp: rbind_def split: sum.splits)
  moreover have "0 \<le> w b \<and> val d = val a + w b \<and> val d \<le> bound" using Cons.prems d(1) by (intro add_exact) auto
  ultimately show ?case using Cons.IH [of d] Cons.prems by auto
qed simp

lemma rfold_total:
  assumes "0 \<le> val a" "list_all ok bs" "list_all (\<lambda>b. 0 \<le> w b) bs" "val a + sum_list (map w bs) \<le> bound"
  shows "\<exists>c. rfold add a bs = Inr c"
  using assms
proof (induction bs arbitrary: a)
  case (Cons b bs)
  have n: "0 \<le> sum_list (map w bs)" using Cons.prems(3) by (intro sum_list_nonneg) (auto simp: list_all_iff)
  then obtain d where d: "add a b = Inr d" using Cons.prems add_total [of a b] by auto
  moreover have "val d = val a + w b" using Cons.prems n d add_exact [of a b d] by auto
  ultimately show ?case using Cons.IH [of d] Cons.prems by (auto simp: rbind_def)
qed simp

end

section \<open>Lemmas\<close>

lemma rbind_Inl [simp, res_simps]: "rbind (Inl e) f = Inl e"
  by (simp add: rbind_def)

lemma rbind_Inr [simp, res_simps]: "rbind (Inr x) f = f x"
  by (simp add: rbind_def)

lemma rbind_eq_Inr [res_simps]: "rbind m f = Inr y \<longleftrightarrow> (\<exists>x. m = Inr x \<and> f x = Inr y)"
  by (cases m) simp_all

lemma rbind_eq_Inl: "rbind m f = Inl e \<longleftrightarrow> m = Inl e \<or> (\<exists>x. m = Inr x \<and> f x = Inl e)"
  by (cases m) simp_all

lemma rbind_InrE:
  assumes "rbind m f = Inr y"
  obtains x where "m = Inr x" and "f x = Inr y"
  using assms by (auto simp: rbind_eq_Inr)

lemma rbind_assoc: "rbind (rbind m f) g = rbind m (\<lambda>x. rbind (f x) g)"
  by (cases m) simp_all

lemma rbind_cong [fundef_cong]:
  "m = m' \<Longrightarrow> (\<And>x. m' = Inr x \<Longrightarrow> f x = f' x) \<Longrightarrow> rbind m f = rbind m' f'"
  by (cases m') simp_all

lemma rfold_append: "rfold f s (xs @ ys) = rbind (rfold f s xs) (\<lambda>s. rfold f s ys)"
  by (induction xs arbitrary: s) (simp_all add: rbind_assoc)

lemma rfold_invariant:
  assumes "rfold f s xs = Inr t" "P s" "\<And>s x t. x \<in> set xs \<Longrightarrow> P s \<Longrightarrow> f s x = Inr t \<Longrightarrow> P t"
  shows "P t"
  using assms by (induction xs arbitrary: s) (auto simp: rbind_eq_Inr)

lemma rguard_eq_Inr [simp, res_simps]: "rguard b e = Inr u \<longleftrightarrow> b"
  by (simp add: rguard_def)

lemma rguard_eq_Inl [simp, res_simps]: "rguard b e = Inl e' \<longleftrightarrow> \<not> b \<and> e' = e"
  by (auto simp: rguard_def)

lemma rguard_True [simp]: "rguard True e = Inr ()"
  by (simp add: rguard_def)

lemma rguard_False [simp]: "rguard False e = Inl e"
  by (simp add: rguard_def)

lemma is_ok_simps [simp]: "is_ok (Inr x)" "\<not> is_ok (Inl e)"
  by (simp_all add: is_ok_def)

lemma is_ok_iff: "is_ok r \<longleftrightarrow> (\<exists>x. r = Inr x)"
  by (cases r) simp_all

lemma i32_id [int_wrap]: "- 2147483648 \<le> x \<Longrightarrow> x < 2147483648 \<Longrightarrow> i32 x = x"
  by (simp add: i32_def)

lemma i64_id [int_wrap]:
  "- 9223372036854775808 \<le> x \<Longrightarrow> x < 9223372036854775808 \<Longrightarrow> i64 x = x"
  by (simp add: i64_def)

lemma i32_range: "- 2147483648 \<le> i32 x" "i32 x < 2147483648"
  by (simp_all add: i32_def)

lemma i64_range: "- 9223372036854775808 \<le> i64 x" "i64 x < 9223372036854775808"
  by (simp_all add: i64_def)

lemma i64_min: "i64 9223372036854775808 = - 9223372036854775808"
  by (simp add: i64_def)

lemma unat_less_of_nat: "i < of_nat n \<Longrightarrow> unat (i :: 'a :: len word) < n"
proof -
  assume "i < of_nat n"
  then have "unat i < unat (of_nat n :: 'a word)" by (simp add: word_less_nat_alt)
  also have "\<dots> \<le> n" by (simp add: unat_of_nat)
  finally show ?thesis .
qed

lemma unat_byte_less [simp]: "unat (b :: byte) < 256"
  using unsigned_less [of b] by simp

lemma length_put_le [simp, le_simps]: "length (put_le k n) = k"
  by (induction k arbitrary: n) simp_all

lemma le_val_put_le [le_simps]: "le_val (put_le k n) = n mod 256 ^ k"
proof (induction k arbitrary: n)
  case 0
  then show ?case by simp
next
  case (Suc k)
  have "unat (of_nat (n mod 256) :: byte) = n mod 256"
    by (simp add: unat_of_nat)
  with Suc show ?case
    by (simp add: mod_mult2_eq mult.commute)
qed

lemma le_val_bound: "le_val bs < 256 ^ length bs"
proof (induction bs)
  case Nil
  then show ?case by simp
next
  case (Cons b bs)
  have "unat b + 256 * le_val bs < 256 * (le_val bs + 1)" by simp
  also have "\<dots> \<le> 256 * 256 ^ length bs"
    using Cons.IH by (intro mult_left_mono) simp_all
  finally show ?case by simp
qed

lemma put_le_le_val [le_simps]: "put_le (length bs) (le_val bs) = bs"
proof (induction bs)
  case Nil
  then show ?case by simp
next
  case (Cons b bs)
  have b: "unat b < 256" by simp
  with Cons show ?case by (simp add: word_nat_cases)
qed

lemma le_val_inj: "length xs = length ys \<Longrightarrow> le_val xs = le_val ys \<Longrightarrow> xs = ys"
  by (metis put_le_le_val)

lemma le_val_append: "le_val (xs @ ys) = le_val xs + 256 ^ length xs * le_val ys"
  by (induction xs) (simp_all add: algebra_simps)

lemma le_val_zeros [simp]: "le_val (replicate n 0) = 0"
  by (induction n) simp_all

lemma put_le_codec:
  "codec (\<lambda>n. n < 256 ^ k) (put_le k) (\<lambda>b. length b = k)
     (\<lambda>b. if length b = k then Inr (le_val b) else Inl ())"
proof
  fix n :: nat
  assume "n < 256 ^ k"
  then show "(if length (put_le k n) = k then Inr (le_val (put_le k n)) else Inl ()) = Inr n"
    by (simp add: le_val_put_le)
next
  fix b :: bytes and n
  assume "length b = k" and "(if length b = k then Inr (le_val b) else Inl ()) = Inr n"
  then show "n < 256 ^ k \<and> put_le k n = b"
    using le_val_bound [of b] put_le_le_val [of b] by auto
qed simp

interpretation le16: codec "\<lambda>n. n < 256 ^ 2" "put_le 2" "\<lambda>b. length b = 2"
    "\<lambda>b. if length b = 2 then Inr (le_val b) else Inl ()"
  by (rule put_le_codec)

interpretation le32: codec "\<lambda>n. n < 256 ^ 4" "put_le 4" "\<lambda>b. length b = 4"
    "\<lambda>b. if length b = 4 then Inr (le_val b) else Inl ()"
  by (rule put_le_codec)

interpretation le64: codec "\<lambda>n. n < 256 ^ 8" "put_le 8" "\<lambda>b. length b = 8"
    "\<lambda>b. if length b = 8 then Inr (le_val b) else Inl ()"
  by (rule put_le_codec)

end
