(* ===== verification/Script_Error.thy ===== *)
theory Script_Error
  imports Miner_Prelude
begin

text \<open>
  The errors of package \<^verbatim>\<open>txscript\<close> (\<^verbatim>\<open>src/txscript/error.go\<close>), one constructor per error
  variable of the source. \<open>ErrorText\<close> is an error built in place with \<^verbatim>\<open>fmt.Errorf\<close> or
  \<^verbatim>\<open>errors.New\<close>; it keeps the constant part of the message. \<open>GoPanic\<close> is a run-time panic
  (an index or slice bound out of range), so a model function that returns it stands for code
  that would crash the goroutine.
\<close>

datatype (plugins only: code) script_error =
    ErrStackShortScript
  | ErrStackLongScript
  | ErrStackUnderflow
  | ErrStackInvalidArgs
  | ErrStackOpDisabled
  | ErrStackVerifyFailed
  | ErrStackNumberTooBig
  | ErrStackInvalidOpcode
  | ErrStackReservedOpcode
  | ErrTooManyOperations
  | ErrStackEarlyReturn
  | ErrStackNoIf
  | ErrStackMissingEndif
  | ErrStackTooManyPubKeys
  | ErrStackTooManyOperations
  | ErrStackElementTooBig
  | ErrStackUnknownAddress
  | ErrStackScriptFailed
  | ErrStackScriptUnfinished
  | ErrStackEmptyStack
  | ErrStackP2SHNonPushOnly
  | ErrStackInvalidParseType
  | ErrStackInvalidAddrOffset
  | ErrStackInvalidIndex
  | ErrStackNonPushOnly
  | ErrStackOverflow
  | ErrStackInvalidLowSSignature
  | ErrStackInvalidPubKey
  | ErrStackCleanStack
  | ErrStackMinimalData
  | ErrWitnessProgramEmpty
  | ErrWitnessProgramMismatch
  | ErrWitnessPubKeyType
  | ErrWitnessProgramLength
  | ErrWitnessExtProgramLength
  | ErrDiscourageUpgradableWitnessProgram
  | ErrInvalidFlags
  | ErrWitnessUnexpected
  | ErrWitnessMalleated
  | ErrWitnessLength
  | ErrWitnessProgramFormat
  | ErrUnsupportedAddress
  | ErrBadNumRequired
  | ErrNullFail
  | ErrInvalidBindingScript
  | ErrBindingUnexpected
  | ErrFrozenPeriod
  | ErrPoolingType
  | ErrScriptTooBig
  | ErrWitnessExtProgUnknown
  | ErrNeedMoreSignature
  | ErrScriptNotCanonical
  | ErrorText string
  | GoPanic

type_synonym 'a res = "script_error + 'a"

text \<open>Limits and constants of \<^verbatim>\<open>src/txscript/common.go\<close>.\<close>

abbreviation (input) LockTimeThreshold :: nat where "LockTimeThreshold \<equiv> 500000000"
abbreviation (input) ScriptDiscourageUpgradableNops :: u32 where "ScriptDiscourageUpgradableNops \<equiv> 1"
abbreviation (input) SigHashAll :: u32 where "SigHashAll \<equiv> 0x1"
abbreviation (input) SigHashNone :: u32 where "SigHashNone \<equiv> 0x2"
abbreviation (input) SigHashSingle :: u32 where "SigHashSingle \<equiv> 0x3"
abbreviation (input) SigHashAnyOneCanPay :: u32 where "SigHashAnyOneCanPay \<equiv> 0x80"
abbreviation (input) sigHashMask :: u32 where "sigHashMask \<equiv> 0x1f"
abbreviation (input) maxStackSize :: int where "maxStackSize \<equiv> 1000"
abbreviation (input) maxScriptSize :: nat where "maxScriptSize \<equiv> 10000"
abbreviation (input) MaxOpsPerScript :: nat where "MaxOpsPerScript \<equiv> 201"
abbreviation (input) MaxPubKeysPerMultiSig :: nat where "MaxPubKeysPerMultiSig \<equiv> 20"
abbreviation (input) MaxScriptElementSize :: nat where "MaxScriptElementSize \<equiv> 520"
abbreviation (input) maxInt32 :: int where "maxInt32 \<equiv> 2147483647"
abbreviation (input) minInt32 :: int where "minInt32 \<equiv> - 2147483648"
abbreviation (input) defaultScriptNumLen :: nat where "defaultScriptNumLen \<equiv> 4"
abbreviation (input) MaxDataCarrierSize :: nat where "MaxDataCarrierSize \<equiv> 80"
abbreviation (input) WitnessV0ScriptHashDataSize :: nat where "WitnessV0ScriptHashDataSize \<equiv> 32"
abbreviation (input) WitnessV0PoCPubKeyHashDataSize :: nat where "WitnessV0PoCPubKeyHashDataSize \<equiv> 20"
abbreviation (input) WitnessV0FrozenPeriodDataSize :: nat where "WitnessV0FrozenPeriodDataSize \<equiv> 8"
abbreviation (input) WitnessV0PoolTypeDataSize :: nat where "WitnessV0PoolTypeDataSize \<equiv> 2"
abbreviation (input) WitnessV0GovernFlagDateSize :: nat where "WitnessV0GovernFlagDateSize \<equiv> 4"

end
