(* ===== verification/Script_Num.thy ===== *)
theory Script_Num
  imports Script_Error
begin

text \<open>
  Script numbers, \<^verbatim>\<open>src/txscript/scriptnum.go\<close>: integers stored on the stacks as little-endian
  sign-magnitude byte arrays. \<open>scriptNum\<close> is Go's \<^verbatim>\<open>int64\<close>; \<open>num_Bytes\<close> serialises
  (\<^verbatim>\<open>Bytes\<close>), \<open>makeScriptNum\<close> parses with the length limit and the optional minimality check.
\<close>

section \<open>Model\<close>

type_synonym scriptNum = int

definition checkMinimalDataEncoding :: "bytes \<Rightarrow> unit res" where
  "checkMinimalDataEncoding v =
     (if length v = 0 then Inr ()
      else if v ! (length v - 1) AND 0x7f = 0 \<and>
              (length v = 1 \<or> v ! (length v - 2) AND 0x80 = 0)
      then Inl ErrStackMinimalData
      else Inr ())"

text \<open>The loop \<^verbatim>\<open>for n > 0 { result = append(result, byte(n&0xff)); n >>= 8 }\<close>.\<close>

function le_loop :: "int \<Rightarrow> bytes" where
  "le_loop n = (if n > 0 then word_of_int (n mod 256) # le_loop (n div 256) else [])"
  by pat_completeness auto
termination
  by (relation "measure nat") auto

definition num_Bytes :: "scriptNum \<Rightarrow> bytes res" where
  "num_Bytes n =
     (if n = 0 then Inr []
      else let isNegative = n < 0;
               m = (if isNegative then i64 (- n) else n);
               result = le_loop m
           in if result = [] then Inl GoPanic
              else if last result AND 0x80 \<noteq> 0
              then Inr (result @ [if isNegative then 0x80 else 0x00])
              else if isNegative
              then Inr (butlast result @ [last result OR 0x80])
              else Inr result)"

definition num_Int32 :: "scriptNum \<Rightarrow> int" where
  "num_Int32 n = (if n > maxInt32 then maxInt32 else if n < minInt32 then minInt32 else i32 n)"

text \<open>The loop \<^verbatim>\<open>for i, val := range v { result |= int64(val) << uint8(8*i) }\<close>.\<close>

primrec le_or :: "nat \<Rightarrow> u64 \<Rightarrow> bytes \<Rightarrow> u64" where
  "le_or i r [] = r"
| "le_or i r (b # bs) = le_or (Suc i) (r OR push_bit ((8 * i) mod 256) (ucast b)) bs"

definition makeScriptNum :: "bytes \<Rightarrow> bool \<Rightarrow> nat \<Rightarrow> scriptNum res" where
  "makeScriptNum v requireMinimal scriptNumLen =
     (if length v > scriptNumLen then Inl ErrStackNumberTooBig
      else rbind (if requireMinimal then checkMinimalDataEncoding v else Inr ()) (\<lambda>_.
        if length v = 0 then Inr 0
        else let result = le_or 0 0 v
             in if v ! (length v - 1) AND 0x80 \<noteq> 0
                then Inr (sint (- (result AND NOT (push_bit ((8 * (length v - 1)) mod 256) 0x80))))
                else Inr (sint result)))"

declare le_loop.simps [simp del]

section \<open>Sign-magnitude reading of a byte array\<close>

text \<open>The value a non-empty byte array of at most eight bytes denotes.\<close>

definition magnitude :: "bytes \<Rightarrow> nat" where
  "magnitude v = le_val (butlast v) + 256 ^ (length v - 1) * (unat (last v) mod 128)"

definition sm_val :: "bytes \<Rightarrow> int" where
  "sm_val v = (if v = [] then 0
               else if unat (last v) \<ge> 128 then - int (magnitude v) else int (magnitude v))"

text \<open>The minimal encoding: the magnitude bytes \<open>xs\<close> (no leading zero) with the sign attached.\<close>

definition sm_enc :: "bool \<Rightarrow> bytes \<Rightarrow> bytes" where
  "sm_enc neg xs =
     (if unat (last xs) \<ge> 128 then xs @ [if neg then 0x80 else 0x00]
      else if neg then butlast xs @ [last xs OR 0x80] else xs)"

section \<open>Bits of a byte\<close>

lemma bit7_iff: "bit (b :: byte) 7 \<longleftrightarrow> unat b \<ge> 128"
proof -
  have "bit b 7 \<longleftrightarrow> bit (unat b) 7"
    by (simp add: bit_unsigned_iff)
  also have "\<dots> \<longleftrightarrow> odd (unat b div 128)"
    by (simp add: bit_iff_odd)
  finally have "bit b 7 \<longleftrightarrow> odd (unat b div 128)" .
  moreover have "odd (unat b div 128) \<longleftrightarrow> unat b div 128 \<noteq> 0"
  proof -
    have "unat b div 128 = 0 \<or> unat b div 128 = 1"
      using unat_byte_less [of b] by linarith
    then show ?thesis by auto
  qed
  ultimately show ?thesis by (simp add: div_eq_0_iff not_less)
qed

lemma and_0x80_eq_0: "(b :: byte) AND 0x80 = 0 \<longleftrightarrow> unat b < 128"
proof -
  have "(0x80 :: byte) = 2 ^ 7" by simp
  then have "b AND 0x80 = 0 \<longleftrightarrow> \<not> bit b 7"
    by (metis and_exp_eq_0_iff_not_bit)
  then show ?thesis by (auto simp: bit7_iff)
qed

lemma byte_mod_128: "unat (b :: byte) mod 128 = (if unat b \<ge> 128 then unat b - 128 else unat b)"
proof (cases "unat b \<ge> 128")
  case True
  then obtain d where d: "unat b = 128 + d" using le_Suc_ex by blast
  then have "d < 128" using unat_byte_less [of b] by linarith
  with d show ?thesis by simp
next
  case False
  then show ?thesis by simp
qed

lemma unat_and_0x7f: "unat ((b :: byte) AND 0x7f) = unat b mod 128"
proof -
  have "mask 7 = (0x7f :: byte)" by (simp add: mask_eq_exp_minus_1)
  then have "b AND 0x7f = take_bit 7 b"
    by (simp only: take_bit_eq_mask)
  then have "unat (b AND 0x7f) = take_bit 7 (unat b)"
    by (simp only: unsigned_take_bit_eq)
  then show ?thesis by (simp add: take_bit_eq_mod)
qed

lemma and_0x7f_eq_0: "(b :: byte) AND 0x7f = 0 \<longleftrightarrow> unat b mod 128 = 0"
  using unat_and_0x7f [of b] by (auto simp: unat_eq_0)

lemma unat_or_0x80: "unat b < 128 \<Longrightarrow> unat ((b :: byte) OR 0x80) = unat b + 128"
proof -
  assume b: "unat b < 128"
  have "b AND 0x80 = 0" using b by (simp add: and_0x80_eq_0)
  then have "b OR 0x80 = b + 0x80"
    using word_plus_and_or [of b "0x80"] by simp
  moreover have "unat (b + 0x80) = unat b + 128"
    using b by (subst unat_add_lem [THEN iffD1]) simp_all
  ultimately show ?thesis by simp
qed

section \<open>The decoding loop\<close>

lemma unat_ucast_byte: "unat (ucast (b :: byte) :: u64) = unat b"
proof -
  have "unat b < 2 ^ LENGTH(64)"
    by (rule less_trans [OF unat_byte_less]) simp
  then show ?thesis by (simp add: unsigned_ucast_eq take_bit_eq_mod)
qed

lemma unat_push_bit_byte:
  assumes "i < 8"
  shows "unat (push_bit (8 * i) (ucast (b :: byte)) :: u64) = 256 ^ i * unat b"
proof -
  have "unat b * 256 ^ i < 256 * 256 ^ i" by simp
  also have "(256 :: nat) * 256 ^ i = 256 ^ Suc i" by simp
  also have "(256 :: nat) ^ Suc i \<le> 256 ^ 8" using assms by (intro power_increasing) auto
  finally have lt: "unat b * 256 ^ i < 2 ^ 64" by simp
  have "(2 :: nat) ^ (8 * i) = 256 ^ i" by (simp add: power_mult)
  then have "push_bit (8 * i) (unat b) = unat b * 256 ^ i" by (simp add: push_bit_eq_mult)
  moreover have "unat (push_bit (8 * i) (ucast b :: u64)) = take_bit 64 (push_bit (8 * i) (unat b))"
    by (simp only: unsigned_push_bit_eq unat_ucast_byte) simp
  ultimately have "unat (push_bit (8 * i) (ucast b :: u64)) = take_bit 64 (unat b * 256 ^ i)"
    by (simp only:)
  with lt show ?thesis by (simp add: take_bit_eq_mod mult.commute)
qed

lemma or_disjoint_add:
  fixes r x :: u64
  assumes "unat r < 2 ^ k" and "\<And>n. n < k \<Longrightarrow> \<not> bit x n"
  shows "r OR x = r + x"
proof -
  have "\<not> bit r n" if "k \<le> n" for n
  proof -
    have "unat r < 2 ^ n"
      by (rule less_le_trans [OF assms(1)]) (use that in simp)
    then have "\<not> bit (unat r) n" by (simp add: bit_iff_odd)
    then show ?thesis by (auto simp: bit_unsigned_iff bit_imp_le_length)
  qed
  then have "\<not> bit r n \<or> \<not> bit x n" for n
    using assms(2) by (cases "n < k") auto
  then show ?thesis by (simp add: disjunctive_add)
qed

lemma unat_le_or:
  "unat r < 256 ^ i \<Longrightarrow> i + length bs \<le> 8 \<Longrightarrow>
     unat (le_or i r bs) = unat r + 256 ^ i * le_val bs"
proof (induction bs arbitrary: i r)
  case Nil
  then show ?case by simp
next
  case (Cons b bs)
  define x where "x = (push_bit (8 * i) (ucast b) :: u64)"
  have i: "i < 8" using Cons.prems by simp
  have ux: "unat x = 256 ^ i * unat b" by (simp add: x_def unat_push_bit_byte i)
  have "r OR x = r + x"
    using Cons.prems(1)
    by (intro or_disjoint_add [where k = "8 * i"]) (auto simp: x_def power_mult bit_push_bit_iff)
  moreover have sum: "unat r + unat x < 256 ^ Suc i"
  proof -
    have "unat r + unat x < 256 ^ i * (1 + unat b)" using Cons.prems(1) ux by simp
    also have "\<dots> \<le> 256 ^ i * 256" using unat_byte_less [of b] by (intro mult_left_mono) linarith+
    finally show ?thesis by simp
  qed
  moreover have "(256 :: nat) ^ Suc i \<le> 2 ^ 64"
  proof -
    have "(256 :: nat) ^ Suc i \<le> 256 ^ 8" using i by (intro power_increasing) auto
    then show ?thesis by simp
  qed
  ultimately have u: "unat (r OR x) = unat r + unat x"
    by (simp add: unat_add_lem [THEN iffD1])
  have "unat (le_or (Suc i) (r OR x) bs) = unat (r OR x) + 256 ^ Suc i * le_val bs"
    using Cons.prems sum u by (intro Cons.IH) simp_all
  moreover have "le_or i r (b # bs) = le_or (Suc i) (r OR x) bs"
    using i by (simp add: x_def)
  ultimately show ?case using u ux by (simp add: algebra_simps)
qed

lemma unat_le_or_0: "length v \<le> 8 \<Longrightarrow> unat (le_or 0 0 v) = le_val v"
  using unat_le_or [of 0 0 v] by simp

lemma le_val_snoc: "v \<noteq> [] \<Longrightarrow> le_val v = le_val (butlast v) + 256 ^ (length v - 1) * unat (last v)"
  using le_val_append [of "butlast v" "[last v]"] by simp

lemma le_val_butlast: "v \<noteq> [] \<Longrightarrow> le_val (butlast v) < 256 ^ (length v - 1)"
  using le_val_bound [of "butlast v"] by simp

lemma magnitude_bound: "v \<noteq> [] \<Longrightarrow> magnitude v < 128 * 256 ^ (length v - 1)"
proof -
  assume v: "v \<noteq> []"
  have "magnitude v < 256 ^ (length v - 1) * (1 + unat (last v) mod 128)"
    using le_val_butlast [OF v] by (simp add: magnitude_def)
  also have "\<dots> \<le> 256 ^ (length v - 1) * 128"
    by (intro mult_left_mono) (simp_all add: Suc_leI)
  finally show ?thesis by simp
qed

lemma magnitude_lt_2p63: "v \<noteq> [] \<Longrightarrow> length v \<le> 8 \<Longrightarrow> magnitude v < 2 ^ 63"
proof -
  assume v: "v \<noteq> []" "length v \<le> 8"
  have "(256 :: nat) ^ (length v - 1) \<le> 256 ^ 7" using v by (intro power_increasing) auto
  with magnitude_bound [OF v(1)] show ?thesis by simp
qed

lemma le_val_magnitude:
  assumes "v \<noteq> []"
  shows "le_val v = magnitude v + (if unat (last v) \<ge> 128 then 128 * 256 ^ (length v - 1) else 0)"
proof (cases "unat (last v) \<ge> 128")
  case True
  then have "unat (last v) div 128 = 1"
    using unat_byte_less [of "last v"] by linarith
  then obtain m where m: "unat (last v) = 128 + m" "unat (last v) mod 128 = m"
    using div_mult_mod_eq [of "unat (last v)" 128] by simp
  show ?thesis
    using True unfolding magnitude_def le_val_snoc [OF assms] m(2)
    by (simp add: m(1) algebra_simps)
next
  case False
  then show ?thesis by (simp add: magnitude_def le_val_snoc [OF assms])
qed

lemma uint_lt_2p63: "unat (w :: u64) < 2 ^ 63 \<Longrightarrow> uint w < 2 ^ 63"
proof -
  assume "unat w < 2 ^ 63"
  then have "int (unat w) < int (2 ^ 63)" by (simp only: of_nat_less_iff)
  then show ?thesis by simp
qed

lemma sint_of_unat: "unat (w :: u64) < 2 ^ 63 \<Longrightarrow> sint w = int (unat w)"
proof -
  assume "unat w < 2 ^ 63"
  then have "signed_take_bit 63 (uint w) = uint w"
    by - (intro signed_take_bit_int_eq_self; use uint_lt_2p63 [of w] uint_ge_0 [of w] in linarith)
  then show ?thesis by (simp add: sint_uint)
qed

lemma sint_uminus_of_unat: "unat (w :: u64) < 2 ^ 63 \<Longrightarrow> sint (- w) = - int (unat w)"
proof -
  assume w: "unat w < 2 ^ 63"
  have "(word_of_int (- uint w) :: u64) = - word_of_int (uint w)"
    by (rule wi_hom_neg [symmetric])
  also have "\<dots> = - w" by simp
  finally have "sint (- w) = signed_take_bit 63 (- uint w)"
    using sint_sbintrunc' [where 'a = 64, of "- uint w"] by simp
  moreover have "signed_take_bit 63 (- uint w) = - uint w"
    by (intro signed_take_bit_int_eq_self; use uint_lt_2p63 [OF w] uint_ge_0 [of w] in linarith)
  ultimately show ?thesis by simp
qed

section \<open>Parsing computes the sign-magnitude value\<close>

lemma unat_clear_sign_bit:
  assumes "v \<noteq> []" "length v \<le> 8" "unat (last v) \<ge> 128"
  shows "unat (le_or 0 0 v AND NOT (push_bit (8 * (length v - 1)) 0x80)) = magnitude v"
proof -
  define k where "k = 8 * (length v - 1) + 7"
  define w where "w = le_or 0 0 v"
  have k: "k < 64" using assms by (simp add: k_def)
  have p: "push_bit (8 * (length v - 1)) (0x80 :: u64) = 2 ^ k"
    by (simp add: k_def push_bit_eq_mult power_add)
  have pn: "(2 :: nat) ^ k = 128 * 256 ^ (length v - 1)"
    by (simp add: k_def power_add power_mult)
  have uw: "unat w = magnitude v + 2 ^ k"
    using unat_le_or_0 [OF assms(2)] le_val_magnitude [OF assms(1)] assms(3) pn
    by (simp add: w_def)
  have m: "magnitude v < 2 ^ k" using magnitude_bound [OF assms(1)] pn by simp
  have "bit w k"
  proof -
    have "unat w div 2 ^ k = 1" using uw m by (simp add: div_add_self2)
    then have "bit (unat w) k" by (simp add: bit_iff_odd)
    then show ?thesis by (simp add: bit_unsigned_iff)
  qed
  then have "w AND NOT (2 ^ k) = w - 2 ^ k"
    using unset_bit_eq_and_not [of k w] unset_bit_eq [of k w] by simp
  moreover have "unat (w - 2 ^ k) = unat w - 2 ^ k"
  proof -
    have "unat (2 ^ k :: u64) = 2 ^ k"
      using k unat_of_nat [of "2 ^ k", where 'a = 64] power_strict_increasing [of k 64 "2 :: nat"]
      by simp
    moreover have "(2 ^ k :: u64) \<le> w" using calculation uw by (simp add: word_le_nat_alt)
    ultimately show ?thesis by (simp add: unat_sub)
  qed
  ultimately show ?thesis using uw p by (simp add: w_def)
qed

lemma last_nth: "v \<noteq> [] \<Longrightarrow> v ! (length v - 1) = last v"
  by (simp add: last_conv_nth)

theorem makeScriptNum_eq:
  assumes "length v \<le> 8"
  shows "makeScriptNum v m n =
    (if length v > n then Inl ErrStackNumberTooBig
     else rbind (if m then checkMinimalDataEncoding v else Inr ()) (\<lambda>_. Inr (sm_val v)))"
proof (cases "v = []")
  case True
  then show ?thesis by (simp add: makeScriptNum_def sm_val_def)
next
  case False
  let ?w = "le_or 0 0 v"
  have sm: "(8 * (length v - 1)) mod 256 = 8 * (length v - 1)" using assms by simp
  have l: "v ! (length v - Suc 0) = last v" using last_nth [OF False] by simp
  show ?thesis
  proof (cases "unat (last v) \<ge> 128")
    case True
    have "sint (- (?w AND NOT (push_bit (8 * (length v - 1)) 0x80))) = - int (magnitude v)"
      using unat_clear_sign_bit [OF False assms True] magnitude_lt_2p63 [OF False assms]
      by (metis sint_uminus_of_unat)
    with True False sm last_nth [OF False] show ?thesis
      by (simp add: makeScriptNum_def sm_val_def Let_def and_0x80_eq_0 del: One_nat_def)
  next
    case False': False
    have "sint ?w = int (magnitude v)"
      using sint_of_unat [of ?w] unat_le_or_0 [OF assms] le_val_magnitude [OF False] False'
        magnitude_lt_2p63 [OF False assms] by simp
    with False' False l show ?thesis
      by (simp add: makeScriptNum_def sm_val_def Let_def and_0x80_eq_0 not_le)
  qed
qed

section \<open>The encoding loop\<close>

lemma le_loop_0 [simp]: "le_loop 0 = []"
  by (simp add: le_loop.simps)

lemma le_loop_pos: "n > 0 \<Longrightarrow> le_loop n = word_of_int (n mod 256) # le_loop (n div 256)"
  by (simp add: le_loop.simps)

lemma le_val_le_loop: "0 \<le> n \<Longrightarrow> int (le_val (le_loop n)) = n"
proof (induction n rule: le_loop.induct)
  case (1 n)
  show ?case
  proof (cases "n > 0")
    case True
    have "uint (word_of_int (n mod 256) :: byte) = n mod 256"
      by (simp add: uint_word_of_int)
    moreover have "int (le_val (le_loop (n div 256))) = n div 256"
      using 1 True by simp
    ultimately show ?thesis using True by (simp add: le_loop_pos)
  next
    case False
    with 1 show ?thesis by simp
  qed
qed

lemma le_loop_unique: "xs = [] \<or> last xs \<noteq> 0 \<Longrightarrow> le_loop (int (le_val xs)) = xs"
proof (induction xs)
  case Nil
  then show ?case by simp
next
  case (Cons b bs)
  have IH: "le_loop (int (le_val bs)) = bs" using Cons by (cases bs) simp_all
  have pos: "0 < le_val (b # bs)"
  proof (cases "bs = []")
    case True
    with Cons.prems show ?thesis by (simp add: unat_gt_0)
  next
    case False
    have "le_val bs \<noteq> 0"
    proof
      assume "le_val bs = 0"
      with IH False show False by simp
    qed
    then show ?thesis by simp
  qed
  have lt: "unat b < 256" by simp
  have "le_val (b # bs) mod 256 = unat b" using lt by simp
  then have "int (le_val (b # bs)) mod 256 = int (unat b)" by (metis of_nat_numeral zmod_int)
  moreover have "le_val (b # bs) div 256 = le_val bs" using lt by simp
  then have "int (le_val (b # bs)) div 256 = int (le_val bs)" by (metis of_nat_numeral zdiv_int)
  moreover have "le_loop (int (le_val (b # bs))) =
      word_of_int (int (le_val (b # bs)) mod 256) # le_loop (int (le_val (b # bs)) div 256)"
    using pos by (intro le_loop_pos) (simp only: of_nat_0_less_iff)
  ultimately show ?case using IH by simp
qed

lemma last_le_loop: "n > 0 \<Longrightarrow> last (le_loop n) \<noteq> 0"
proof (induction n rule: le_loop.induct)
  case (1 n)
  show ?case
  proof (cases "n div 256 > 0")
    case True
    then have "le_loop (n div 256) \<noteq> []" by (simp add: le_loop_pos)
    with 1 True show ?thesis by (simp add: le_loop_pos)
  next
    case False
    with 1 have n: "0 < n" "n < 256" "n div 256 = 0" by auto
    have "uint (word_of_int n :: byte) = n" using n by (simp add: uint_word_of_int)
    with n show ?thesis by (auto simp: le_loop_pos)
  qed
qed

lemma le_loop_nonempty: "n > 0 \<Longrightarrow> le_loop n \<noteq> []"
  by (simp add: le_loop_pos)

lemma length_le_loop: "0 \<le> n \<Longrightarrow> n < 256 ^ k \<Longrightarrow> length (le_loop n) \<le> k"
proof (induction k arbitrary: n)
  case 0
  then have "n = 0" by simp
  then show ?case by simp
next
  case (Suc k)
  show ?case
  proof (cases "n > 0")
    case True
    moreover have "n div 256 < 256 ^ k" using Suc.prems by (simp add: div_less_iff_less_mult mult.commute)
    ultimately show ?thesis using Suc.IH [of "n div 256"] by (simp add: le_loop_pos)
  next
    case False
    with Suc.prems show ?thesis by simp
  qed
qed

section \<open>Attaching the sign\<close>

lemma checkMinimal_iff:
  "checkMinimalDataEncoding v = Inr () \<longleftrightarrow>
     v = [] \<or> unat (last v) mod 128 \<noteq> 0 \<or> (butlast v \<noteq> [] \<and> unat (last (butlast v)) \<ge> 128)"
proof (cases v rule: rev_cases)
  case Nil
  then show ?thesis by (simp add: checkMinimalDataEncoding_def)
next
  case (snoc ys y)
  show ?thesis
  proof (cases ys rule: rev_cases)
    case Nil
    with snoc show ?thesis by (simp add: checkMinimalDataEncoding_def and_0x7f_eq_0)
  next
    case (snoc zs z)
    with \<open>v = ys @ [y]\<close> show ?thesis
      by (auto simp: checkMinimalDataEncoding_def and_0x7f_eq_0 and_0x80_eq_0 nth_append
          butlast_append)
  qed
qed

lemma num_Bytes_eq:
  assumes "n \<noteq> 0" "\<bar>n\<bar> < 2 ^ 63"
  shows "num_Bytes n = Inr (sm_enc (n < 0) (le_loop \<bar>n\<bar>))"
proof -
  have "le_loop \<bar>n\<bar> \<noteq> []" using assms by (intro le_loop_nonempty) simp
  moreover have "n < 0 \<Longrightarrow> i64 (- n) = - n" using assms by (simp add: i64_id)
  ultimately show ?thesis
    using assms(1)
    by (cases "n < 0") (simp_all add: num_Bytes_def sm_enc_def Let_def and_0x80_eq_0 not_less)
qed

lemma sm_enc_nonempty: "xs \<noteq> [] \<Longrightarrow> sm_enc neg xs \<noteq> []"
  by (simp add: sm_enc_def)

lemma magnitude_sm_enc: "xs \<noteq> [] \<Longrightarrow> magnitude (sm_enc neg xs) = le_val xs"
  by (simp add: sm_enc_def magnitude_def unat_or_0x80 le_val_snoc [of xs])

lemma sign_sm_enc: "xs \<noteq> [] \<Longrightarrow> unat (last (sm_enc neg xs)) \<ge> 128 \<longleftrightarrow> neg"
  by (simp add: sm_enc_def unat_or_0x80)

lemma minimal_sm_enc:
  assumes "xs \<noteq> []" "last xs \<noteq> 0"
  shows "checkMinimalDataEncoding (sm_enc neg xs) = Inr ()"
  using assms by (auto simp: checkMinimal_iff sm_enc_def unat_or_0x80 unat_gt_0)

lemma sm_val_sm_enc: "xs \<noteq> [] \<Longrightarrow> sm_val (sm_enc neg xs) = (if neg then - int (le_val xs) else int (le_val xs))"
  by (simp add: sm_val_def sm_enc_nonempty magnitude_sm_enc sign_sm_enc)

lemma minimal_sm_encE:
  assumes "checkMinimalDataEncoding v = Inr ()" "v \<noteq> []"
  obtains xs neg where "v = sm_enc neg xs" "xs \<noteq> []" "last xs \<noteq> 0"
proof -
  obtain ys y where v: "v = ys @ [y]" using assms(2) by (cases v rule: rev_cases) auto
  show thesis
  proof (cases "unat y mod 128 = 0")
    case True
    then have ys: "ys \<noteq> []" "unat (last ys) \<ge> 128" using assms v by (auto simp: checkMinimal_iff)
    have "unat y = 0 \<or> unat y = 128"
      using True by (simp only: byte_mod_128 split: if_splits) simp_all
    then have "y = 0 \<or> y = 0x80" using word_unat_eq_iff [of y "0x80"] by (auto simp: unat_eq_0)
    then have "v = sm_enc (y \<noteq> 0) ys" using ys v by (auto simp: sm_enc_def)
    moreover have "last ys \<noteq> 0" using ys by auto
    ultimately show thesis using that ys by blast
  next
    case False
    let ?z = "y AND 0x7f"
    have z: "unat ?z = unat y mod 128" by (rule unat_and_0x7f)
    then have "unat ?z < 128" "?z \<noteq> 0" using False by (auto simp: and_0x7f_eq_0)
    moreover have "?z OR 0x80 = y" if "unat y \<ge> 128"
    proof -
      have "unat y mod 128 = unat y - 128" using that by (simp only: byte_mod_128 if_True)
      then show ?thesis
        using z calculation that word_unat_eq_iff [of "?z OR 0x80" y] by (simp add: unat_or_0x80)
    qed
    moreover have "\<not> unat y \<ge> 128 \<Longrightarrow> ?z = y"
      using z word_unat_eq_iff [of ?z y] by simp
    ultimately have "v = sm_enc (unat y \<ge> 128) (ys @ [?z])"
      using v by (auto simp: sm_enc_def)
    then show thesis using that \<open>?z \<noteq> 0\<close> by (metis last_snoc snoc_eq_iff_butlast)
  qed
qed

lemma length_sm_enc:
  assumes "xs \<noteq> []" "last xs \<noteq> 0" "le_val xs < 128 * 256 ^ k"
  shows "length (sm_enc neg xs) \<le> Suc k"
proof -
  have ge: "256 ^ (length xs - 1) * unat (last xs) < 128 * 256 ^ k"
    using assms le_val_snoc [OF assms(1)] by linarith
  show ?thesis
  proof (cases "unat (last xs) \<ge> 128")
    case True
    have "(256 :: nat) ^ (length xs - 1) * 128 \<le> 256 ^ (length xs - 1) * unat (last xs)"
      using True by (intro mult_left_mono) simp_all
    with ge have "(256 :: nat) ^ (length xs - 1) < 256 ^ k" by linarith
    then have "length xs - 1 < k" by (simp only: power_strict_increasing_iff)
    with True assms(1) show ?thesis by (simp add: sm_enc_def)
  next
    case False
    have "(256 :: nat) ^ (length xs - 1) * 1 \<le> 256 ^ (length xs - 1) * unat (last xs)"
      using assms by (intro mult_left_mono) (simp_all add: Suc_leI unat_gt_0)
    with ge have "(256 :: nat) ^ (length xs - 1) < 256 ^ Suc k" unfolding power_Suc by linarith
    then have "length xs - 1 < Suc k" by (simp only: power_strict_increasing_iff)
    with False assms(1) show ?thesis by (cases xs rule: rev_cases) (simp_all add: sm_enc_def)
  qed
qed

section \<open>Round trip and canonicity\<close>

lemma num_Bytes_encodes:
  assumes "\<bar>n\<bar> < 128 * 256 ^ k" "k < 8"
  obtains v where "num_Bytes n = Inr v" "length v \<le> Suc k"
    "checkMinimalDataEncoding v = Inr ()" "sm_val v = n"
proof (cases "n = 0")
  case True
  have "num_Bytes n = Inr []" using True by (simp add: num_Bytes_def)
  then show thesis using that True by (simp add: checkMinimalDataEncoding_def sm_val_def)
next
  case False
  let ?xs = "le_loop \<bar>n\<bar>"
  have "(256 :: int) ^ k \<le> 256 ^ 7" using assms(2) by (intro power_increasing) simp_all
  then have n: "\<bar>n\<bar> < 2 ^ 63" using assms(1) by simp
  have xs: "?xs \<noteq> []" "last ?xs \<noteq> 0" using False by (simp_all add: le_loop_nonempty last_le_loop)
  have lv: "int (le_val ?xs) = \<bar>n\<bar>" by (simp add: le_val_le_loop)
  then have "int (le_val ?xs) < int (128 * 256 ^ k)" using assms(1) by simp
  then have "le_val ?xs < 128 * 256 ^ k" by (simp only: of_nat_less_iff)
  then have "length (sm_enc (n < 0) ?xs) \<le> Suc k" by (rule length_sm_enc [OF xs])
  moreover have "sm_val (sm_enc (n < 0) ?xs) = n" unfolding sm_val_sm_enc [OF xs(1)] lv by simp
  ultimately show thesis
    using that num_Bytes_eq [OF False n] minimal_sm_enc [OF xs] by blast
qed

lemma num_Bytes_sm_val:
  assumes "checkMinimalDataEncoding v = Inr ()" "length v \<le> 8"
  shows "num_Bytes (sm_val v) = Inr v"
proof (cases "v = []")
  case True
  then show ?thesis by (simp add: sm_val_def num_Bytes_def)
next
  case False
  then obtain xs neg where v: "v = sm_enc neg xs" and xs: "xs \<noteq> []" "last xs \<noteq> 0"
    using minimal_sm_encE assms(1) by blast
  have sv: "sm_val v = (if neg then - int (le_val xs) else int (le_val xs))"
    using v xs by (simp add: sm_val_sm_enc)
  have pos: "le_val xs > 0"
    using le_val_snoc [OF xs(1)] xs(2) by (simp add: unat_gt_0)
  have "le_val xs < 2 ^ 63"
    using magnitude_lt_2p63 [OF False assms(2)] magnitude_sm_enc [OF xs(1)] v by simp
  then have "int (le_val xs) < int (2 ^ 63)" by (simp only: of_nat_less_iff)
  then have "\<bar>sm_val v\<bar> < 2 ^ 63" by (simp add: sv)
  moreover have "sm_val v \<noteq> 0" "sm_val v < 0 \<longleftrightarrow> neg" "\<bar>sm_val v\<bar> = int (le_val xs)"
    using pos by (simp_all add: sv)
  ultimately show ?thesis using num_Bytes_eq [of "sm_val v"] v xs le_loop_unique [of xs] by simp
qed

lemma sm_val_bound: "length v \<le> Suc k \<Longrightarrow> \<bar>sm_val v\<bar> < 128 * 256 ^ k"
proof (cases "v = []")
  case False
  assume len: "length v \<le> Suc k"
  have "(256 :: nat) ^ (length v - 1) \<le> 256 ^ k" using len by (intro power_increasing) auto
  then have "magnitude v < 128 * 256 ^ k" using magnitude_bound [OF False] by linarith
  then have "int (magnitude v) < int (128 * 256 ^ k)" by (simp only: of_nat_less_iff)
  then show ?thesis by (simp add: sm_val_def)
qed (simp add: sm_val_def)

section \<open>Script numbers as a codec\<close>

text \<open>The operand format of the arithmetic opcodes: at most four bytes, minimal encoding.\<close>

definition encode_num :: "scriptNum \<Rightarrow> bytes" where
  "encode_num n = (case num_Bytes n of Inl _ \<Rightarrow> [] | Inr v \<Rightarrow> v)"

interpretation script_num: codec
  "\<lambda>n. \<bar>n\<bar> < 2147483648" encode_num "\<lambda>v. length v \<le> 4 \<and> checkMinimalDataEncoding v = Inr ()"
  "\<lambda>v. makeScriptNum v True 4"
proof
  fix n :: scriptNum
  assume "\<bar>n\<bar> < 2147483648"
  then have "\<bar>n\<bar> < 128 * 256 ^ 3" by simp
  from num_Bytes_encodes [OF this] obtain v where v: "num_Bytes n = Inr v" "length v \<le> 4"
    "checkMinimalDataEncoding v = Inr ()" "sm_val v = n" by auto
  show "makeScriptNum (encode_num n) True 4 = Inr n"
    using v by (simp add: encode_num_def makeScriptNum_eq)
  show "length (encode_num n) \<le> 4 \<and> checkMinimalDataEncoding (encode_num n) = Inr ()"
    using v by (simp add: encode_num_def)
next
  fix v :: bytes and n :: scriptNum
  assume v: "length v \<le> 4 \<and> checkMinimalDataEncoding v = Inr ()" "makeScriptNum v True 4 = Inr n"
  then have n: "n = sm_val v" by (simp add: makeScriptNum_eq)
  show "\<bar>n\<bar> < 2147483648 \<and> encode_num n = v"
    using v n sm_val_bound [of v 3] num_Bytes_sm_val [of v] by (simp add: encode_num_def)
qed

section \<open>Properties\<close>

text \<open>C25. Serialising a script number and parsing it back gives the number: every value of
  magnitude below \<open>2^(8k-1)\<close> (\<open>k \<le> 8\<close>) is written in at most \<open>k\<close> bytes, in an encoding that
  \<^verbatim>\<open>makeScriptNum\<close> accepts under a \<open>k\<close>-byte limit with the minimality check switched on.\<close>

theorem num_Bytes_roundtrip:
  assumes "\<bar>n\<bar> < 128 * 256 ^ k" "k < 8"
  shows "\<exists>v. num_Bytes n = Inr v \<and> length v \<le> Suc k \<and> makeScriptNum v m (Suc k) = Inr n"
proof -
  from num_Bytes_encodes [OF assms] obtain v where v: "num_Bytes n = Inr v" "length v \<le> Suc k"
    "checkMinimalDataEncoding v = Inr ()" "sm_val v = n" .
  with assms(2) have "makeScriptNum v m (Suc k) = Inr n" by (simp add: makeScriptNum_eq)
  with v show ?thesis by blast
qed

theorem num_Bytes_roundtrip_witness:
  "\<exists>v. num_Bytes (- 2147483647) = Inr v \<and> length v \<le> Suc 3 \<and>
       makeScriptNum v True (Suc 3) = Inr (- 2147483647)"
  by (rule num_Bytes_roundtrip) simp_all

text \<open>With the minimality check, an accepted byte array is the serialisation of the number it
  denotes, so no number has two accepted encodings, and the length limit bounds the number
  (\<open>\<bar>n\<bar> \<le> 2^31 - 1\<close> for the four bytes of the arithmetic opcodes, as the comment on
  \<^verbatim>\<open>makeScriptNum\<close> says).\<close>

theorem makeScriptNum_canonical:
  assumes "makeScriptNum v True (Suc k) = Inr n" "k < 8"
  shows "num_Bytes n = Inr v \<and> \<bar>n\<bar> < 128 * 256 ^ k"
proof -
  have len: "length v \<le> Suc k" using assms(1) by (simp add: makeScriptNum_def split: if_splits)
  with assms have "checkMinimalDataEncoding v = Inr ()" "n = sm_val v"
    by (auto simp: makeScriptNum_eq rbind_eq_Inr)
  then show ?thesis using num_Bytes_sm_val [of v] sm_val_bound [OF len] len assms(2) by simp
qed

theorem makeScriptNum_canonical_witness:
  "num_Bytes (- 255) = Inr [0xff, 0x80] \<and> \<bar>- 255 :: int\<bar> < 128 * 256 ^ 3"
  by (rule makeScriptNum_canonical)
     (simp_all add: makeScriptNum_def checkMinimalDataEncoding_def)

end
