(* ===== verification/Script_Stack.thy ===== *)
theory Script_Stack
  imports Script_Num
begin

text \<open>
  The data and alternative stacks of the script engine, \<^verbatim>\<open>src/txscript/stack.go\<close>. As in the source
  the bottom of the stack is the head of the slice, indices count from the top and are \<^verbatim>\<open>int32\<close>.
  An operation that fails returns only its error: the engine stops at the first error, so the
  partially changed stack is never looked at again.
\<close>

section \<open>Model\<close>

primrec asBool_from :: "bytes \<Rightarrow> bool" where
  "asBool_from [] = False"
| "asBool_from (b # bs) = (if b \<noteq> 0 then \<not> (bs = [] \<and> b = 0x80) else asBool_from bs)"

definition asBool :: "bytes \<Rightarrow> bool" where
  "asBool t = asBool_from t"

definition fromBool :: "bool \<Rightarrow> bytes" where
  "fromBool v = (if v then [1] else [])"

record stack =
  stk :: "bytes list"
  verifyMinimalData :: bool

definition Depth :: "stack \<Rightarrow> int" where
  "Depth s = i32 (int (length (stk s)))"

definition PushByteArray :: "bytes \<Rightarrow> stack \<Rightarrow> stack" where
  "PushByteArray so s = s\<lparr>stk := stk s @ [so]\<rparr>"

definition PushInt :: "scriptNum \<Rightarrow> stack \<Rightarrow> stack res" where
  "PushInt v s = rbind (num_Bytes v) (\<lambda>b. Inr (PushByteArray b s))"

definition PushBool :: "bool \<Rightarrow> stack \<Rightarrow> stack" where
  "PushBool v s = PushByteArray (fromBool v) s"

definition nipN :: "int \<Rightarrow> stack \<Rightarrow> (bytes \<times> stack) res" where
  "nipN idx s =
     (let sz = i32 (int (length (stk s)))
      in if idx < 0 \<or> idx > i32 (sz - 1) then Inl ErrStackUnderflow
         else let so = stk s ! nat (sz - idx - 1)
              in if idx = 0 then Inr (so, s\<lparr>stk := take (nat (sz - 1)) (stk s)\<rparr>)
                 else if idx = sz - 1 then Inr (so, s\<lparr>stk := take (nat (sz - 1)) (drop 1 (stk s))\<rparr>)
                 else Inr (so, s\<lparr>stk := take (nat (sz - idx - 1)) (stk s) @
                                        drop (nat (sz - idx)) (take (nat sz) (stk s))\<rparr>))"

definition PopByteArray :: "stack \<Rightarrow> (bytes \<times> stack) res" where
  "PopByteArray s = nipN 0 s"

definition PopInt :: "stack \<Rightarrow> (scriptNum \<times> stack) res" where
  "PopInt s = rbind (PopByteArray s) (\<lambda>(so, s').
     rbind (makeScriptNum so (verifyMinimalData s) defaultScriptNumLen) (\<lambda>n. Inr (n, s')))"

definition PopBool :: "stack \<Rightarrow> (bool \<times> stack) res" where
  "PopBool s = rbind (PopByteArray s) (\<lambda>(so, s'). Inr (asBool so, s'))"

definition PeekByteArray :: "int \<Rightarrow> stack \<Rightarrow> bytes res" where
  "PeekByteArray idx s =
     (let sz = i32 (int (length (stk s)))
      in if idx < 0 \<or> idx \<ge> sz then Inl ErrStackUnderflow
         else Inr (stk s ! nat (sz - idx - 1)))"

definition PeekInt :: "int \<Rightarrow> stack \<Rightarrow> scriptNum res" where
  "PeekInt idx s = rbind (PeekByteArray idx s) (\<lambda>so.
     makeScriptNum so (verifyMinimalData s) defaultScriptNumLen)"

definition PeekBool :: "int \<Rightarrow> stack \<Rightarrow> bool res" where
  "PeekBool idx s = rbind (PeekByteArray idx s) (\<lambda>so. Inr (asBool so))"

definition NipN :: "int \<Rightarrow> stack \<Rightarrow> stack res" where
  "NipN idx s = rbind (nipN idx s) (\<lambda>(_, s'). Inr s')"

definition Tuck :: "stack \<Rightarrow> stack res" where
  "Tuck s = rbind (PopByteArray s) (\<lambda>(so2, s1).
            rbind (PopByteArray s1) (\<lambda>(so1, s2).
            Inr (PushByteArray so2 (PushByteArray so1 (PushByteArray so2 s2)))))"

definition PickN :: "int \<Rightarrow> stack \<Rightarrow> stack res" where
  "PickN n s = rbind (PeekByteArray n s) (\<lambda>so. Inr (PushByteArray so s))"

definition RollN :: "int \<Rightarrow> stack \<Rightarrow> stack res" where
  "RollN n s = rbind (nipN n s) (\<lambda>(so, s'). Inr (PushByteArray so s'))"

text \<open>
  The loops of \<^verbatim>\<open>DropN\<close>, \<^verbatim>\<open>DupN\<close>, \<^verbatim>\<open>RotN\<close>, \<^verbatim>\<open>SwapN\<close> and \<^verbatim>\<open>OverN\<close> run their body \<open>n\<close> times; the
  body of the second is that of \<^verbatim>\<open>PickN\<close>, the bodies of the last three those of \<^verbatim>\<open>RollN\<close> and
  \<^verbatim>\<open>PickN\<close>.
\<close>

definition DropN :: "int \<Rightarrow> stack \<Rightarrow> stack res" where
  "DropN n s = (if n < 1 then Inl ErrStackInvalidArgs
     else rloop (nat n) (\<lambda>s. rbind (PopByteArray s) (\<lambda>(_, s'). Inr s')) s)"

definition DupN :: "int \<Rightarrow> stack \<Rightarrow> stack res" where
  "DupN n s = (if n < 1 then Inl ErrStackInvalidArgs
     else rloop (nat n) (\<lambda>s. rbind (PeekByteArray (n - 1) s) (\<lambda>so. Inr (PushByteArray so s))) s)"

definition RotN :: "int \<Rightarrow> stack \<Rightarrow> stack res" where
  "RotN n s = (if n < 1 then Inl ErrStackInvalidArgs
     else let entry = i32 (3 * n - 1)
          in rloop (nat n) (\<lambda>s. rbind (nipN entry s) (\<lambda>(so, s'). Inr (PushByteArray so s'))) s)"

definition SwapN :: "int \<Rightarrow> stack \<Rightarrow> stack res" where
  "SwapN n s = (if n < 1 then Inl ErrStackInvalidArgs
     else let entry = i32 (2 * n - 1)
          in rloop (nat n) (\<lambda>s. rbind (nipN entry s) (\<lambda>(so, s'). Inr (PushByteArray so s'))) s)"

definition OverN :: "int \<Rightarrow> stack \<Rightarrow> stack res" where
  "OverN n s = (if n < 1 then Inl ErrStackInvalidArgs
     else let entry = i32 (2 * n - 1)
          in rloop (nat n) (\<lambda>s. rbind (PeekByteArray entry s) (\<lambda>so. Inr (PushByteArray so s))) s)"

section \<open>Access from the top\<close>

text \<open>Slices of Go have fewer than \<open>2^31\<close> elements here: the engine bounds both stacks by 1000.\<close>

abbreviation sized :: "stack \<Rightarrow> bool" where
  "sized s \<equiv> length (stk s) < 2147483648"

lemma i32_length: "length xs < 2147483648 \<Longrightarrow> i32 (int (length xs)) = int (length xs)"
  by (simp add: i32_id)

lemma Depth_eq [simp]: "sized s \<Longrightarrow> Depth s = int (length (stk s))"
  by (simp add: Depth_def i32_length)

lemma stk_Push [simp]:
  "stk (PushByteArray x s) = stk s @ [x]" "stk (PushBool v s) = stk s @ [fromBool v]"
  by (simp_all add: PushByteArray_def PushBool_def)

lemma vmd_Push [simp]: "verifyMinimalData (PushByteArray x s) = verifyMinimalData s"
  by (simp add: PushByteArray_def)

lemma Peek_append:
  assumes "stk s = xs @ y # ys" "sized s"
  shows "PeekByteArray (int (length ys)) s = Inr y"
  using assms by (simp add: PeekByteArray_def Let_def i32_id nat_add_distrib nth_append)

lemma Peek_underflow: "sized s \<Longrightarrow> idx < 0 \<or> idx \<ge> int (length (stk s)) \<Longrightarrow>
    PeekByteArray idx s = Inl ErrStackUnderflow"
  by (auto simp: PeekByteArray_def Let_def i32_length)

lemma nipN_append:
  assumes "stk s = xs @ y # ys" "sized s"
  shows "nipN (int (length ys)) s = Inr (y, s\<lparr>stk := xs @ ys\<rparr>)"
proof -
  let ?sz = "int (length xs) + int (length ys) + 1"
  have sz: "i32 (int (length (stk s))) = ?sz" using assms by (simp add: i32_id)
  have sz1: "i32 (?sz - 1) = int (length xs) + int (length ys)"
    using assms by (simp add: i32_id)
  have n1: "nat (?sz - int (length ys) - 1) = length xs" by simp
  have n2: "nat (?sz - int (length ys)) = Suc (length xs)" by simp
  have n3: "nat (?sz - 1) = length xs + length ys" "nat ?sz = length (stk s)"
    using assms by simp_all
  show ?thesis
    using assms(1) sz1 unfolding nipN_def Let_def sz n1 n2 n3 by (auto simp: nth_append)
qed

lemma nipN_underflow: "sized s \<Longrightarrow> idx < 0 \<or> idx \<ge> int (length (stk s)) \<Longrightarrow>
    nipN idx s = Inl ErrStackUnderflow"
  by (auto simp: nipN_def Let_def i32_id)

lemma nth_from_top:
  assumes "0 \<le> idx" "idx < int (length (zs :: 'a list))"
  obtains xs y ys where "zs = xs @ y # ys" "idx = int (length ys)"
proof
  let ?i = "length zs - 1 - nat idx"
  have i: "?i < length zs" using assms by linarith
  show "zs = take ?i zs @ zs ! ?i # drop (Suc ?i) zs" using i by (rule id_take_nth_drop)
  show "idx = int (length (drop (Suc ?i) zs))" using assms by simp
qed

lemma nipN_cases:
  assumes "sized s"
  obtains (underflow) "nipN idx s = Inl ErrStackUnderflow" "idx < 0 \<or> idx \<ge> int (length (stk s))"
  | (nip) xs y ys where "stk s = xs @ y # ys" "idx = int (length ys)"
      "nipN idx s = Inr (y, s\<lparr>stk := xs @ ys\<rparr>)"
proof (cases "idx < 0 \<or> idx \<ge> int (length (stk s))")
  case True
  then show thesis using underflow nipN_underflow [OF assms True] by blast
next
  case False
  then obtain xs y ys where "stk s = xs @ y # ys" "idx = int (length ys)"
    using nth_from_top [of idx "stk s"] by auto
  then show thesis using nip nipN_append assms by blast
qed

lemma Pop_snoc: "stk s = xs @ [x] \<Longrightarrow> sized s \<Longrightarrow> PopByteArray s = Inr (x, s\<lparr>stk := xs\<rparr>)"
  using nipN_append [of s xs x "[]"] by (simp add: PopByteArray_def)

lemma Pop_Nil: "stk s = [] \<Longrightarrow> PopByteArray s = Inl ErrStackUnderflow"
  by (simp add: PopByteArray_def nipN_underflow)

section \<open>The stack as a LIFO container\<close>

text \<open>
  What the opcode handlers rely on: pushing appends on top, popping returns the top and leaves the
  rest, popping the empty stack fails. \<open>size_ok\<close> is the bound under which the index arithmetic
  does not wrap; a pop keeps it.
\<close>

locale lifo =
  fixes items :: "'s \<Rightarrow> 'a list"
    and size_ok :: "'s \<Rightarrow> bool"
    and push :: "'a \<Rightarrow> 's \<Rightarrow> 's"
    and pop :: "'s \<Rightarrow> 'e + ('a \<times> 's)"
    and empty_error :: 'e
  assumes items_push: "items (push x s) = items s @ [x]"
    and pop_items: "size_ok s \<Longrightarrow> items s = xs @ [x] \<Longrightarrow>
      \<exists>s'. pop s = Inr (x, s') \<and> items s' = xs \<and> size_ok s'"
    and pop_empty: "items s = [] \<Longrightarrow> pop s = Inl empty_error"
begin

lemma pop_ok_iff: "size_ok s \<Longrightarrow> is_ok (pop s) \<longleftrightarrow> items s \<noteq> []"
  using pop_empty pop_items by (cases "items s" rule: rev_cases) fastforce+

lemma pop_Inr: "size_ok s \<Longrightarrow> pop s = Inr (x, s') \<Longrightarrow> items s = items s' @ [x] \<and> size_ok s'"
  using pop_empty pop_items by (cases "items s" rule: rev_cases) fastforce+

lemma pop_push: "size_ok (push x s) \<Longrightarrow> \<exists>s'. pop (push x s) = Inr (x, s') \<and> items s' = items s"
  using pop_items items_push by blast

text \<open>Popping \<open>k\<close> items by a recursive loop returns the top \<open>k\<close> items, topmost first.\<close>

lemma pops_items:
  assumes loop0: "\<And>s. pops 0 s = Inr ([], s)"
    and loopS: "\<And>k s. pops (Suc k) s =
      rbind (pop s) (\<lambda>(x, s'). rbind (pops k s') (\<lambda>(xs, s''). Inr (x # xs, s'')))"
    and "size_ok s" "items s = xs @ rev ys"
  shows "\<exists>s'. pops (length ys) s = Inr (ys, s') \<and> items s' = xs \<and> size_ok s'"
  using assms(3-)
proof (induction ys arbitrary: s)
  case Nil
  then show ?case by (simp add: loop0)
next
  case (Cons y ys)
  then obtain s' where "pop s = Inr (y, s')" "items s' = xs @ rev ys" "size_ok s'"
    using pop_items [of s "xs @ rev ys" y] by auto
  with Cons.IH [of s'] show ?case by (auto simp: loopS)
qed

lemma pops_underflow:
  assumes loop0: "\<And>s. pops 0 s = Inr ([], s)"
    and loopS: "\<And>k s. pops (Suc k) s =
      rbind (pop s) (\<lambda>(x, s'). rbind (pops k s') (\<lambda>(xs, s''). Inr (x # xs, s'')))"
    and "size_ok s" "length (items s) < k"
  shows "pops k s = Inl empty_error"
  using assms(3-)
proof (induction k arbitrary: s)
  case (Suc k)
  show ?case
  proof (cases "items s" rule: rev_cases)
    case Nil
    then show ?thesis by (simp add: loopS pop_empty)
  next
    case (snoc xs x)
    then obtain s' where "pop s = Inr (x, s')" "items s' = xs" "size_ok s'"
      using pop_items Suc.prems by blast
    then show ?thesis using Suc snoc by (simp add: loopS)
  qed
qed simp

end

interpretation data_stack: lifo stk sized PushByteArray PopByteArray ErrStackUnderflow
proof
  show "\<exists>s'. PopByteArray s = Inr (x, s') \<and> stk s' = xs \<and> sized s'"
    if "sized s" "stk s = xs @ [x]" for s xs x
    using Pop_snoc [OF that(2,1)] that by simp
qed (simp_all add: Pop_Nil)

section \<open>The stack manipulation words\<close>

lemma DropN_loop:
  "stk s = xs @ ys \<Longrightarrow> sized s \<Longrightarrow>
     rloop (length ys) (\<lambda>s. rbind (PopByteArray s) (\<lambda>(_, s'). Inr s')) s = Inr (s\<lparr>stk := xs\<rparr>)"
proof (induction ys arbitrary: s rule: rev_induct)
  case (snoc y ys)
  then have "PopByteArray s = Inr (y, s\<lparr>stk := xs @ ys\<rparr>)" by (simp add: Pop_snoc)
  with snoc.IH [of "s\<lparr>stk := xs @ ys\<rparr>"] snoc.prems show ?case by simp
qed simp

lemma pick_loop:
  "stk s = xs @ as @ bs \<Longrightarrow> length xs + 2 * length as + length bs < 2147483648 \<Longrightarrow>
     rloop (length as) (\<lambda>s. rbind (PeekByteArray (int (length as0 + length bs0) - 1) s)
        (\<lambda>so. Inr (PushByteArray so s))) s = Inr (s\<lparr>stk := xs @ as @ bs @ as\<rparr>)"
  if "length as0 + length bs0 = length as + length bs" for as0 bs0 :: "bytes list"
  using that
proof (induction as arbitrary: s xs bs)
  case (Cons a as)
  have "int (length as0 + length bs0) - 1 = int (length (as @ bs))" using Cons.prems by simp
  then have "PeekByteArray (int (length as0 + length bs0) - 1) s = Inr a"
    using Peek_append [of s xs a "as @ bs"] Cons.prems by simp
  with Cons.IH [of "PushByteArray a s" "xs @ [a]" "bs @ [a]"] Cons.prems show ?case
    by (simp add: PushByteArray_def)
qed simp

lemma roll_loop:
  "stk s = xs @ as @ bs \<Longrightarrow> sized s \<Longrightarrow>
     rloop (length as) (\<lambda>s. rbind (nipN (int (length as0 + length bs0) - 1) s)
        (\<lambda>(so, s'). Inr (PushByteArray so s'))) s = Inr (s\<lparr>stk := xs @ bs @ as\<rparr>)"
  if "length as0 + length bs0 = length as + length bs" for as0 bs0 :: "bytes list"
  using that
proof (induction as arbitrary: s bs)
  case (Cons a as)
  have "int (length as0 + length bs0) - 1 = int (length (as @ bs))" using Cons.prems by simp
  then have "nipN (int (length as0 + length bs0) - 1) s = Inr (a, s\<lparr>stk := xs @ as @ bs\<rparr>)"
    using nipN_append [of s xs a "as @ bs"] Cons.prems by simp
  with Cons.IH [of "s\<lparr>stk := xs @ as @ bs @ [a]\<rparr>" "bs @ [a]"] Cons.prems show ?case
    by (simp add: PushByteArray_def)
qed simp

lemma rloop_fails: "f s = Inl e \<Longrightarrow> k > 0 \<Longrightarrow> rloop k f s = Inl e"
  by (cases k) simp_all

lemma DropN_ok:
  "stk s = xs @ ys \<Longrightarrow> ys \<noteq> [] \<Longrightarrow> sized s \<Longrightarrow> DropN (int (length ys)) s = Inr (s\<lparr>stk := xs\<rparr>)"
  using DropN_loop [of s xs ys] by (simp add: DropN_def Suc_le_eq)

lemma DupN_ok:
  assumes "stk s = xs @ ys" "ys \<noteq> []" "length (stk s) + length ys < 2147483648"
  shows "DupN (int (length ys)) s = Inr (s\<lparr>stk := xs @ ys @ ys\<rparr>)"
  using pick_loop [of ys "[]" ys "[]" s xs] assms by (simp add: DupN_def Suc_le_eq)

lemma OverN_ok:
  assumes "stk s = xs @ as @ bs" "as \<noteq> []" "length bs = length as"
    "length (stk s) + length as < 2147483648"
  shows "OverN (int (length as)) s = Inr (s\<lparr>stk := xs @ as @ bs @ as\<rparr>)"
proof -
  have "i32 (2 * int (length as) - 1) = int (length as + length bs) - 1"
    using assms by (simp add: i32_id)
  then show ?thesis
    using pick_loop [of as bs as bs s xs] assms by (simp add: OverN_def Suc_le_eq Let_def)
qed

lemma SwapN_ok:
  assumes "stk s = xs @ as @ bs" "as \<noteq> []" "length bs = length as" "sized s"
  shows "SwapN (int (length as)) s = Inr (s\<lparr>stk := xs @ bs @ as\<rparr>)"
proof -
  have "i32 (2 * int (length as) - 1) = int (length as + length bs) - 1"
    using assms by (simp add: i32_id)
  then show ?thesis
    using roll_loop [of as bs as bs s xs] assms by (simp add: SwapN_def Suc_le_eq Let_def)
qed

lemma RotN_ok:
  assumes "stk s = xs @ as @ bs" "as \<noteq> []" "length bs = 2 * length as" "sized s"
  shows "RotN (int (length as)) s = Inr (s\<lparr>stk := xs @ bs @ as\<rparr>)"
proof -
  have "i32 (3 * int (length as) - 1) = int (length as + length bs) - 1"
    using assms by (simp add: i32_id)
  then show ?thesis
    using roll_loop [of as bs as bs s xs] assms by (simp add: RotN_def Suc_le_eq Let_def)
qed

lemma DropN_underflow:
  assumes "sized s" "int (length (stk s)) < n"
  shows "DropN n s = Inl ErrStackUnderflow"
proof -
  have "rloop k (\<lambda>s. rbind (PopByteArray s) (\<lambda>(_, s'). Inr s')) s = Inl ErrStackUnderflow"
    if "length (stk s) < k" for k
    using that assms(1)
  proof (induction k arbitrary: s)
    case (Suc k)
    show ?case
    proof (cases "stk s" rule: rev_cases)
      case Nil
      then show ?thesis by (simp add: Pop_Nil)
    next
      case (snoc xs x)
      then show ?thesis using Suc.IH [of "s\<lparr>stk := xs\<rparr>"] Suc.prems by (simp add: Pop_snoc)
    qed
  qed simp
  then show ?thesis using assms by (simp add: DropN_def)
qed

text \<open>What a word does: \<open>group_word\<close> works on the top \<open>m n\<close> items, \<open>item_word\<close> on the item \<open>n\<close> below the top and those above it.\<close>

definition group_word :: "nat \<Rightarrow> int \<Rightarrow> (bytes list \<Rightarrow> bytes list) \<Rightarrow> stack \<Rightarrow> stack res" where
  "group_word m n f s =
     (let k = length (stk s) - m * nat n
      in if n < 1 then Inl ErrStackInvalidArgs
         else if length (stk s) < m * nat n then Inl ErrStackUnderflow
         else Inr (s\<lparr>stk := take k (stk s) @ f (drop k (stk s))\<rparr>))"

definition item_word :: "int \<Rightarrow> (bytes \<Rightarrow> bytes list \<Rightarrow> bytes list) \<Rightarrow> stack \<Rightarrow> stack res" where
  "item_word n f s =
     (if n < 0 \<or> int (length (stk s)) \<le> n then Inl ErrStackUnderflow
      else let k = length (stk s) - 1 - nat n
           in Inr (s\<lparr>stk := take k (stk s) @ f (stk s ! k) (drop (Suc k) (stk s))\<rparr>))"

lemma group_wordI:
  assumes "n < 1 \<Longrightarrow> w = Inl ErrStackInvalidArgs"
    and "1 \<le> n \<Longrightarrow> length (stk s) < m * nat n \<Longrightarrow> w = Inl ErrStackUnderflow"
    and "\<And>xs as bs. 1 \<le> n \<Longrightarrow> stk s = xs @ as @ bs \<Longrightarrow> as \<noteq> [] \<Longrightarrow> n = int (length as) \<Longrightarrow> length bs = (m - 1) * length as \<Longrightarrow> w = Inr (s\<lparr>stk := xs @ f (as @ bs)\<rparr>)"
    and "0 < m"
  shows "w = group_word m n f s"
proof (cases "1 \<le> n \<and> m * nat n \<le> length (stk s)")
  case True
  let ?k = "length (stk s) - m * nat n"
  let ?ys = "drop ?k (stk s)"
  have "nat n \<le> m * nat n" using assms(4) by simp
  then have l: "length (take (nat n) ?ys) = nat n" "length (drop (nat n) ?ys) = (m - 1) * nat n" using True by (simp_all add: diff_mult_distrib)
  have d: "stk s = take ?k (stk s) @ take (nat n) ?ys @ drop (nat n) ?ys" by (simp only: append_take_drop_id)
  have "w = Inr (s\<lparr>stk := take ?k (stk s) @ f (take (nat n) ?ys @ drop (nat n) ?ys)\<rparr>)"
    by (rule assms(3) [OF _ d]) (use True l in \<open>auto simp del: length_take length_drop drop_drop take_eq_Nil drop_eq_Nil2\<close>)
  then show ?thesis using True unfolding append_take_drop_id by (simp add: group_word_def Let_def)
next
  case False
  then show ?thesis using assms(1,2) by (cases "n < 1") (auto simp: group_word_def)
qed

lemma item_wordI:
  assumes "n < 0 \<or> int (length (stk s)) \<le> n \<Longrightarrow> w = Inl ErrStackUnderflow"
    and "\<And>xs y ys. stk s = xs @ y # ys \<Longrightarrow> n = int (length ys) \<Longrightarrow> w = Inr (s\<lparr>stk := xs @ f y ys\<rparr>)"
  shows "w = item_word n f s"
proof (cases "n < 0 \<or> int (length (stk s)) \<le> n")
  case False
  then obtain xs y ys where d: "stk s = xs @ y # ys" "n = int (length ys)" using nth_from_top [of n "stk s"] by auto
  then show ?thesis using assms(2) [OF d] by (simp add: item_word_def)
qed (simp add: item_word_def assms(1))

lemma DropN_word: "sized s \<Longrightarrow> DropN n s = group_word 1 n (\<lambda>ys. []) s"
  by (rule group_wordI) (auto simp: DropN_underflow DropN_ok, simp add: DropN_def)

lemma DupN_word:
  assumes "int (length (stk s)) + n < 2147483648" "sized s"
  shows "DupN n s = group_word 1 n (\<lambda>ys. ys @ ys) s"
proof (rule group_wordI)
  show "DupN n s = Inl ErrStackUnderflow" if "1 \<le> n" "length (stk s) < 1 * nat n"
    using that assms(2) by (auto simp: DupN_def Peek_underflow intro!: rloop_fails)
  show "DupN n s = Inr (s\<lparr>stk := xs @ (as @ bs) @ as @ bs\<rparr>)"
    if "1 \<le> n" "stk s = xs @ as @ bs" "as \<noteq> []" "n = int (length as)" "length bs = (1 - 1) * length as" for xs as bs
    using DupN_ok [of s xs as] that assms by simp
qed (simp_all add: DupN_def)

lemma OverN_word:
  assumes "int (length (stk s)) + n < 2147483648" "3 * n \<le> 2147483648" "sized s"
  shows "OverN n s = group_word 2 n (\<lambda>ys. ys @ take (nat n) ys) s"
proof (rule group_wordI)
  show "OverN n s = Inl ErrStackUnderflow" if "1 \<le> n" "length (stk s) < 2 * nat n"
    using that assms by (auto simp: OverN_def Let_def Peek_underflow i32_id intro!: rloop_fails)
  show "OverN n s = Inr (s\<lparr>stk := xs @ (as @ bs) @ take (nat n) (as @ bs)\<rparr>)"
    if "1 \<le> n" "stk s = xs @ as @ bs" "as \<noteq> []" "n = int (length as)" "length bs = (2 - 1) * length as" for xs as bs
    using OverN_ok [of s xs as bs] that assms by simp
qed (simp_all add: OverN_def)

lemma SwapN_word:
  assumes "3 * n \<le> 2147483648" "sized s"
  shows "SwapN n s = group_word 2 n (\<lambda>ys. drop (nat n) ys @ take (nat n) ys) s"
proof (rule group_wordI)
  show "SwapN n s = Inl ErrStackUnderflow" if "1 \<le> n" "length (stk s) < 2 * nat n"
    using that assms by (auto simp: SwapN_def Let_def nipN_underflow i32_id intro!: rloop_fails)
  show "SwapN n s = Inr (s\<lparr>stk := xs @ drop (nat n) (as @ bs) @ take (nat n) (as @ bs)\<rparr>)"
    if "1 \<le> n" "stk s = xs @ as @ bs" "as \<noteq> []" "n = int (length as)" "length bs = (2 - 1) * length as" for xs as bs
    using SwapN_ok [of s xs as bs] that assms by simp
qed (simp_all add: SwapN_def)

lemma RotN_word:
  assumes "3 * n \<le> 2147483648" "sized s"
  shows "RotN n s = group_word 3 n (\<lambda>ys. drop (nat n) ys @ take (nat n) ys) s"
proof (rule group_wordI)
  show "RotN n s = Inl ErrStackUnderflow" if "1 \<le> n" "length (stk s) < 3 * nat n"
    using that assms by (auto simp: RotN_def Let_def nipN_underflow i32_id intro!: rloop_fails)
  show "RotN n s = Inr (s\<lparr>stk := xs @ drop (nat n) (as @ bs) @ take (nat n) (as @ bs)\<rparr>)"
    if "1 \<le> n" "stk s = xs @ as @ bs" "as \<noteq> []" "n = int (length as)" "length bs = (3 - 1) * length as" for xs as bs
    using RotN_ok [of s xs as bs] that assms by simp
qed (simp_all add: RotN_def)

lemma NipN_word: "sized s \<Longrightarrow> NipN n s = item_word n (\<lambda>y ys. ys) s"
  by (rule item_wordI) (simp_all add: NipN_def nipN_underflow nipN_append)

lemma PickN_word: "sized s \<Longrightarrow> PickN n s = item_word n (\<lambda>y ys. y # ys @ [y]) s"
  by (rule item_wordI) (simp_all add: PickN_def Peek_underflow Peek_append PushByteArray_def)

lemma RollN_word: "sized s \<Longrightarrow> RollN n s = item_word n (\<lambda>y ys. ys @ [y]) s"
  by (rule item_wordI) (simp_all add: RollN_def nipN_underflow nipN_append PushByteArray_def)

lemma Tuck_word: "sized s \<Longrightarrow> Tuck s = item_word 1 (\<lambda>y ys. ys @ y # ys) s"
proof (rule item_wordI)
  assume s: "sized s"
  show "Tuck s = Inl ErrStackUnderflow" if "1 < (0 :: int) \<or> int (length (stk s)) \<le> 1"
    using that s by (cases "stk s" rule: rev_cases) (auto simp: Tuck_def Pop_Nil Pop_snoc)
  show "Tuck s = Inr (s\<lparr>stk := xs @ ys @ y # ys\<rparr>)" if d: "stk s = xs @ y # ys" "(1 :: int) = int (length ys)" for xs y ys
  proof -
    obtain z where "ys = [z]" using d(2) by (cases ys) auto
    then show ?thesis using s d(1) Pop_snoc [of s "xs @ [y]" z] Pop_snoc [of "s\<lparr>stk := xs @ [y]\<rparr>" xs y]
      by (simp add: Tuck_def PushByteArray_def)
  qed
qed

section \<open>Booleans\<close>

lemma asBool_from_iff: "asBool_from t \<longleftrightarrow> t \<noteq> [] \<and> (\<exists>b \<in> set (butlast t). b \<noteq> 0) \<or> t \<noteq> [] \<and> last t \<noteq> 0 \<and> last t \<noteq> 0x80"
  by (induction t) auto

lemma le_val_eq_0: "le_val v = 0 \<longleftrightarrow> (\<forall>b \<in> set v. b = 0)"
  by (induction v) (auto simp: unat_eq_0)

lemma mod_128_eq_0: "unat (b :: byte) mod 128 = 0 \<longleftrightarrow> b = 0 \<or> b = 0x80"
proof -
  have "unat b mod 128 = 0 \<longleftrightarrow> unat b = 0 \<or> unat b = 128"
    using unat_byte_less [of b] by (simp only: byte_mod_128) auto
  then show ?thesis using word_unat_eq_iff [of b "0x80"] by (simp add: unat_eq_0)
qed

lemma asBool_sm_val: "asBool v \<longleftrightarrow> sm_val v \<noteq> 0"
proof (cases "v = []")
  case True
  then show ?thesis by (simp add: asBool_def sm_val_def)
next
  case False
  then have "magnitude v = 0 \<longleftrightarrow> (\<forall>b \<in> set (butlast v). b = 0) \<and> (last v = 0 \<or> last v = 0x80)"
    by (simp add: magnitude_def le_val_eq_0 flip: mod_128_eq_0)
  then show ?thesis using False by (auto simp: asBool_def asBool_from_iff sm_val_def)
qed

lemma asBool_fromBool [simp]: "asBool (fromBool b) = b"
  by (simp add: asBool_def fromBool_def)

section \<open>Properties\<close>

text \<open>C26. Every stack word does what its comment draws, and fails as it should. With a stack of \<open>L\<close> items and a count \<open>n\<close> for which the
  index arithmetic stays within 32 bits (\<open>L + n < 2^31\<close> and \<open>3 n \<le> 2^31\<close>): \<^verbatim>\<open>DropN\<close>, \<^verbatim>\<open>DupN\<close>, \<^verbatim>\<open>OverN\<close>, \<^verbatim>\<open>SwapN\<close> and
  \<^verbatim>\<open>RotN\<close> refuse \<open>n < 1\<close> with \<^verbatim>\<open>ErrStackInvalidArgs\<close> and a stack of fewer than \<open>n\<close>, \<open>n\<close>, \<open>2 n\<close>, \<open>2 n\<close> and \<open>3 n\<close>
  items with \<^verbatim>\<open>ErrStackUnderflow\<close>; otherwise the first removes the top \<open>n\<close> items, the second copies them in order, the third copies the second group of \<open>n\<close> to the
  top, the fourth exchanges the top two groups and the fifth moves the third one to the top. \<^verbatim>\<open>NipN\<close> removes, \<^verbatim>\<open>PickN\<close> copies to the top and \<^verbatim>\<open>RollN\<close> moves to the top the
  item \<open>n\<close> below the top, and \<^verbatim>\<open>Tuck\<close> inserts a copy of the top below the second item; they fail with \<^verbatim>\<open>ErrStackUnderflow\<close> when there is no such item. Nothing below
  the items named changes.\<close>

theorem stack_words:
  assumes "int (length (stk s)) + n < 2147483648" "3 * n \<le> 2147483648" "sized s"
  shows "DropN n s = group_word 1 n (\<lambda>ys. []) s \<and>
    DupN n s = group_word 1 n (\<lambda>ys. ys @ ys) s \<and>
    OverN n s = group_word 2 n (\<lambda>ys. ys @ take (nat n) ys) s \<and>
    SwapN n s = group_word 2 n (\<lambda>ys. drop (nat n) ys @ take (nat n) ys) s \<and>
    RotN n s = group_word 3 n (\<lambda>ys. drop (nat n) ys @ take (nat n) ys) s \<and>
    NipN n s = item_word n (\<lambda>y ys. ys) s \<and>
    PickN n s = item_word n (\<lambda>y ys. y # ys @ [y]) s \<and>
    RollN n s = item_word n (\<lambda>y ys. ys @ [y]) s \<and>
    Tuck s = item_word 1 (\<lambda>y ys. ys @ y # ys) s"
  using assms by (simp add: DropN_word DupN_word OverN_word SwapN_word RotN_word NipN_word PickN_word RollN_word Tuck_word)

theorem stack_words_witness:
  "let s = \<lparr>stk = [[9], [1], [2], [3]], verifyMinimalData = True\<rparr>
   in RotN 1 s = Inr (s\<lparr>stk := [[9], [2], [3], [1]]\<rparr>) \<and> RotN 2 s = Inl ErrStackUnderflow \<and> Tuck s = Inr (s\<lparr>stk := [[9], [1], [3], [2], [3]]\<rparr>)"
  using stack_words [of "\<lparr>stk = [[9], [1], [2], [3]], verifyMinimalData = True\<rparr>" 1] stack_words [of "\<lparr>stk = [[9], [1], [2], [3]], verifyMinimalData = True\<rparr>" 2]
  by (simp add: Let_def group_word_def item_word_def)

text \<open>Reading a byte array as a boolean agrees with reading it as a number: \<^verbatim>\<open>asBool\<close> is false
  exactly on the arrays whose sign-magnitude value is zero (all forms of zero and of negative
  zero, of any length), so on an array \<^verbatim>\<open>makeScriptNum\<close> accepts, \<^verbatim>\<open>asBool\<close> is the test for a
  non-zero number.\<close>

theorem asBool_number:
  assumes "makeScriptNum v m k = Inr n" "k \<le> 8"
  shows "asBool v \<longleftrightarrow> n \<noteq> 0"
proof -
  have "length v \<le> 8" using assms by (simp add: makeScriptNum_def split: if_splits)
  then have "n = sm_val v" using assms by (auto simp: makeScriptNum_eq rbind_eq_Inr split: if_splits)
  then show ?thesis by (simp add: asBool_sm_val)
qed

theorem asBool_number_witness: "asBool [0, 0x80] \<longleftrightarrow> (0 :: scriptNum) \<noteq> 0"
  by (rule asBool_number [of _ False 4]) (simp_all add: makeScriptNum_def)

end
