(* ===== verification/Opcodes.thy ===== *)
theory Opcodes
  imports Script_Stack
begin

text \<open>
  Opcodes and parsed instructions, the first part of \<^verbatim>\<open>src/txscript/opcode.go\<close>: the opcode values, the
  length column of \<^verbatim>\<open>opcodeArray\<close>, the predicates on a parsed instruction and its serialisation
  \<^verbatim>\<open>bytes\<close>. The handler column of the table is the dispatch function of theory \<open>Script_Engine\<close>; the
  name column only feeds disassembly output and has no counterpart here.
\<close>

section \<open>Model\<close>

subsection \<open>Opcode values\<close>

abbreviation (input) OP_0 :: byte where "OP_0 \<equiv> 0x00"
abbreviation (input) OP_FALSE :: byte where "OP_FALSE \<equiv> 0x00"
abbreviation (input) OP_DATA_1 :: byte where "OP_DATA_1 \<equiv> 0x01"
abbreviation (input) OP_DATA_2 :: byte where "OP_DATA_2 \<equiv> 0x02"
abbreviation (input) OP_DATA_4 :: byte where "OP_DATA_4 \<equiv> 0x04"
abbreviation (input) OP_DATA_8 :: byte where "OP_DATA_8 \<equiv> 0x08"
abbreviation (input) OP_DATA_20 :: byte where "OP_DATA_20 \<equiv> 0x14"
abbreviation (input) OP_DATA_32 :: byte where "OP_DATA_32 \<equiv> 0x20"
abbreviation (input) OP_DATA_75 :: byte where "OP_DATA_75 \<equiv> 0x4b"
abbreviation (input) OP_PUSHDATA1 :: byte where "OP_PUSHDATA1 \<equiv> 0x4c"
abbreviation (input) OP_PUSHDATA2 :: byte where "OP_PUSHDATA2 \<equiv> 0x4d"
abbreviation (input) OP_PUSHDATA4 :: byte where "OP_PUSHDATA4 \<equiv> 0x4e"
abbreviation (input) OP_1NEGATE :: byte where "OP_1NEGATE \<equiv> 0x4f"
abbreviation (input) OP_RESERVED :: byte where "OP_RESERVED \<equiv> 0x50"
abbreviation (input) OP_1 :: byte where "OP_1 \<equiv> 0x51"
abbreviation (input) OP_TRUE :: byte where "OP_TRUE \<equiv> 0x51"
abbreviation (input) OP_2 :: byte where "OP_2 \<equiv> 0x52"
abbreviation (input) OP_3 :: byte where "OP_3 \<equiv> 0x53"
abbreviation (input) OP_4 :: byte where "OP_4 \<equiv> 0x54"
abbreviation (input) OP_5 :: byte where "OP_5 \<equiv> 0x55"
abbreviation (input) OP_6 :: byte where "OP_6 \<equiv> 0x56"
abbreviation (input) OP_7 :: byte where "OP_7 \<equiv> 0x57"
abbreviation (input) OP_8 :: byte where "OP_8 \<equiv> 0x58"
abbreviation (input) OP_9 :: byte where "OP_9 \<equiv> 0x59"
abbreviation (input) OP_10 :: byte where "OP_10 \<equiv> 0x5a"
abbreviation (input) OP_11 :: byte where "OP_11 \<equiv> 0x5b"
abbreviation (input) OP_12 :: byte where "OP_12 \<equiv> 0x5c"
abbreviation (input) OP_13 :: byte where "OP_13 \<equiv> 0x5d"
abbreviation (input) OP_14 :: byte where "OP_14 \<equiv> 0x5e"
abbreviation (input) OP_15 :: byte where "OP_15 \<equiv> 0x5f"
abbreviation (input) OP_16 :: byte where "OP_16 \<equiv> 0x60"
abbreviation (input) OP_NOP :: byte where "OP_NOP \<equiv> 0x61"
abbreviation (input) OP_VER :: byte where "OP_VER \<equiv> 0x62"
abbreviation (input) OP_IF :: byte where "OP_IF \<equiv> 0x63"
abbreviation (input) OP_NOTIF :: byte where "OP_NOTIF \<equiv> 0x64"
abbreviation (input) OP_VERIF :: byte where "OP_VERIF \<equiv> 0x65"
abbreviation (input) OP_VERNOTIF :: byte where "OP_VERNOTIF \<equiv> 0x66"
abbreviation (input) OP_ELSE :: byte where "OP_ELSE \<equiv> 0x67"
abbreviation (input) OP_ENDIF :: byte where "OP_ENDIF \<equiv> 0x68"
abbreviation (input) OP_VERIFY :: byte where "OP_VERIFY \<equiv> 0x69"
abbreviation (input) OP_RETURN :: byte where "OP_RETURN \<equiv> 0x6a"
abbreviation (input) OP_TOALTSTACK :: byte where "OP_TOALTSTACK \<equiv> 0x6b"
abbreviation (input) OP_FROMALTSTACK :: byte where "OP_FROMALTSTACK \<equiv> 0x6c"
abbreviation (input) OP_2DROP :: byte where "OP_2DROP \<equiv> 0x6d"
abbreviation (input) OP_2DUP :: byte where "OP_2DUP \<equiv> 0x6e"
abbreviation (input) OP_3DUP :: byte where "OP_3DUP \<equiv> 0x6f"
abbreviation (input) OP_2OVER :: byte where "OP_2OVER \<equiv> 0x70"
abbreviation (input) OP_2ROT :: byte where "OP_2ROT \<equiv> 0x71"
abbreviation (input) OP_2SWAP :: byte where "OP_2SWAP \<equiv> 0x72"
abbreviation (input) OP_IFDUP :: byte where "OP_IFDUP \<equiv> 0x73"
abbreviation (input) OP_DEPTH :: byte where "OP_DEPTH \<equiv> 0x74"
abbreviation (input) OP_DROP :: byte where "OP_DROP \<equiv> 0x75"
abbreviation (input) OP_DUP :: byte where "OP_DUP \<equiv> 0x76"
abbreviation (input) OP_NIP :: byte where "OP_NIP \<equiv> 0x77"
abbreviation (input) OP_OVER :: byte where "OP_OVER \<equiv> 0x78"
abbreviation (input) OP_PICK :: byte where "OP_PICK \<equiv> 0x79"
abbreviation (input) OP_ROLL :: byte where "OP_ROLL \<equiv> 0x7a"
abbreviation (input) OP_ROT :: byte where "OP_ROT \<equiv> 0x7b"
abbreviation (input) OP_SWAP :: byte where "OP_SWAP \<equiv> 0x7c"
abbreviation (input) OP_TUCK :: byte where "OP_TUCK \<equiv> 0x7d"
abbreviation (input) OP_CAT :: byte where "OP_CAT \<equiv> 0x7e"
abbreviation (input) OP_SUBSTR :: byte where "OP_SUBSTR \<equiv> 0x7f"
abbreviation (input) OP_LEFT :: byte where "OP_LEFT \<equiv> 0x80"
abbreviation (input) OP_RIGHT :: byte where "OP_RIGHT \<equiv> 0x81"
abbreviation (input) OP_SIZE :: byte where "OP_SIZE \<equiv> 0x82"
abbreviation (input) OP_INVERT :: byte where "OP_INVERT \<equiv> 0x83"
abbreviation (input) OP_AND :: byte where "OP_AND \<equiv> 0x84"
abbreviation (input) OP_OR :: byte where "OP_OR \<equiv> 0x85"
abbreviation (input) OP_XOR :: byte where "OP_XOR \<equiv> 0x86"
abbreviation (input) OP_EQUAL :: byte where "OP_EQUAL \<equiv> 0x87"
abbreviation (input) OP_EQUALVERIFY :: byte where "OP_EQUALVERIFY \<equiv> 0x88"
abbreviation (input) OP_RESERVED1 :: byte where "OP_RESERVED1 \<equiv> 0x89"
abbreviation (input) OP_RESERVED2 :: byte where "OP_RESERVED2 \<equiv> 0x8a"
abbreviation (input) OP_1ADD :: byte where "OP_1ADD \<equiv> 0x8b"
abbreviation (input) OP_1SUB :: byte where "OP_1SUB \<equiv> 0x8c"
abbreviation (input) OP_2MUL :: byte where "OP_2MUL \<equiv> 0x8d"
abbreviation (input) OP_2DIV :: byte where "OP_2DIV \<equiv> 0x8e"
abbreviation (input) OP_NEGATE :: byte where "OP_NEGATE \<equiv> 0x8f"
abbreviation (input) OP_ABS :: byte where "OP_ABS \<equiv> 0x90"
abbreviation (input) OP_NOT :: byte where "OP_NOT \<equiv> 0x91"
abbreviation (input) OP_0NOTEQUAL :: byte where "OP_0NOTEQUAL \<equiv> 0x92"
abbreviation (input) OP_ADD :: byte where "OP_ADD \<equiv> 0x93"
abbreviation (input) OP_SUB :: byte where "OP_SUB \<equiv> 0x94"
abbreviation (input) OP_MUL :: byte where "OP_MUL \<equiv> 0x95"
abbreviation (input) OP_DIV :: byte where "OP_DIV \<equiv> 0x96"
abbreviation (input) OP_MOD :: byte where "OP_MOD \<equiv> 0x97"
abbreviation (input) OP_LSHIFT :: byte where "OP_LSHIFT \<equiv> 0x98"
abbreviation (input) OP_RSHIFT :: byte where "OP_RSHIFT \<equiv> 0x99"
abbreviation (input) OP_BOOLAND :: byte where "OP_BOOLAND \<equiv> 0x9a"
abbreviation (input) OP_BOOLOR :: byte where "OP_BOOLOR \<equiv> 0x9b"
abbreviation (input) OP_NUMEQUAL :: byte where "OP_NUMEQUAL \<equiv> 0x9c"
abbreviation (input) OP_NUMEQUALVERIFY :: byte where "OP_NUMEQUALVERIFY \<equiv> 0x9d"
abbreviation (input) OP_NUMNOTEQUAL :: byte where "OP_NUMNOTEQUAL \<equiv> 0x9e"
abbreviation (input) OP_LESSTHAN :: byte where "OP_LESSTHAN \<equiv> 0x9f"
abbreviation (input) OP_GREATERTHAN :: byte where "OP_GREATERTHAN \<equiv> 0xa0"
abbreviation (input) OP_LESSTHANOREQUAL :: byte where "OP_LESSTHANOREQUAL \<equiv> 0xa1"
abbreviation (input) OP_GREATERTHANOREQUAL :: byte where "OP_GREATERTHANOREQUAL \<equiv> 0xa2"
abbreviation (input) OP_MIN :: byte where "OP_MIN \<equiv> 0xa3"
abbreviation (input) OP_MAX :: byte where "OP_MAX \<equiv> 0xa4"
abbreviation (input) OP_WITHIN :: byte where "OP_WITHIN \<equiv> 0xa5"
abbreviation (input) OP_RIPEMD160 :: byte where "OP_RIPEMD160 \<equiv> 0xa6"
abbreviation (input) OP_SHA1 :: byte where "OP_SHA1 \<equiv> 0xa7"
abbreviation (input) OP_SHA256 :: byte where "OP_SHA256 \<equiv> 0xa8"
abbreviation (input) OP_HASH160 :: byte where "OP_HASH160 \<equiv> 0xa9"
abbreviation (input) OP_HASH256 :: byte where "OP_HASH256 \<equiv> 0xaa"
abbreviation (input) OP_CODESEPARATOR :: byte where "OP_CODESEPARATOR \<equiv> 0xab"
abbreviation (input) OP_CHECKSIG :: byte where "OP_CHECKSIG \<equiv> 0xac"
abbreviation (input) OP_CHECKSIGVERIFY :: byte where "OP_CHECKSIGVERIFY \<equiv> 0xad"
abbreviation (input) OP_CHECKMULTISIG :: byte where "OP_CHECKMULTISIG \<equiv> 0xae"
abbreviation (input) OP_CHECKMULTISIGVERIFY :: byte where "OP_CHECKMULTISIGVERIFY \<equiv> 0xaf"
abbreviation (input) OP_NOP1 :: byte where "OP_NOP1 \<equiv> 0xb0"
abbreviation (input) OP_NOP2 :: byte where "OP_NOP2 \<equiv> 0xb1"
abbreviation (input) OP_CHECKLOCKTIMEVERIFY :: byte where "OP_CHECKLOCKTIMEVERIFY \<equiv> 0xb1"
abbreviation (input) OP_NOP3 :: byte where "OP_NOP3 \<equiv> 0xb2"
abbreviation (input) OP_CHECKSEQUENCEVERIFY :: byte where "OP_CHECKSEQUENCEVERIFY \<equiv> 0xb2"
abbreviation (input) OP_NOP4 :: byte where "OP_NOP4 \<equiv> 0xb3"
abbreviation (input) OP_NOP5 :: byte where "OP_NOP5 \<equiv> 0xb4"
abbreviation (input) OP_NOP6 :: byte where "OP_NOP6 \<equiv> 0xb5"
abbreviation (input) OP_NOP7 :: byte where "OP_NOP7 \<equiv> 0xb6"
abbreviation (input) OP_NOP8 :: byte where "OP_NOP8 \<equiv> 0xb7"
abbreviation (input) OP_NOP9 :: byte where "OP_NOP9 \<equiv> 0xb8"
abbreviation (input) OP_NOP10 :: byte where "OP_NOP10 \<equiv> 0xb9"

subsection \<open>The opcode table\<close>

record opcode =
  op_value :: byte
  op_length :: int

text \<open>
  The length column: the number of bytes of the instruction, or minus the number of length bytes
  that follow a \<^verbatim>\<open>OP_PUSHDATA\<close> opcode.
\<close>

definition opcodeLength :: "byte \<Rightarrow> int" where
  "opcodeLength v =
     (if OP_DATA_1 \<le> v \<and> v \<le> OP_DATA_75 then int (unat v) + 1
      else if v = OP_PUSHDATA1 then - 1
      else if v = OP_PUSHDATA2 then - 2
      else if v = OP_PUSHDATA4 then - 4
      else 1)"

definition opcodeArray :: "byte \<Rightarrow> opcode" where
  "opcodeArray v = \<lparr>op_value = v, op_length = opcodeLength v\<rparr>"

record parsedOpcode =
  pop_opcode :: opcode
  pop_data :: bytes

abbreviation pop_value :: "parsedOpcode \<Rightarrow> byte" where
  "pop_value p \<equiv> op_value (pop_opcode p)"

definition isDisabled :: "parsedOpcode \<Rightarrow> bool" where
  "isDisabled pop =
     (let v = pop_value pop in
      if v = OP_CAT then True
      else if v = OP_SUBSTR then True
      else if v = OP_LEFT then True
      else if v = OP_RIGHT then True
      else if v = OP_INVERT then True
      else if v = OP_AND then True
      else if v = OP_OR then True
      else if v = OP_XOR then True
      else if v = OP_2MUL then True
      else if v = OP_2DIV then True
      else if v = OP_MUL then True
      else if v = OP_DIV then True
      else if v = OP_MOD then True
      else if v = OP_LSHIFT then True
      else if v = OP_RSHIFT then True
      else False)"

definition alwaysIllegal :: "parsedOpcode \<Rightarrow> bool" where
  "alwaysIllegal pop =
     (let v = pop_value pop in
      if v = OP_VERIF then True else if v = OP_VERNOTIF then True else False)"

definition isConditional :: "parsedOpcode \<Rightarrow> bool" where
  "isConditional pop =
     (let v = pop_value pop in
      if v = OP_IF then True
      else if v = OP_NOTIF then True
      else if v = OP_ELSE then True
      else if v = OP_ENDIF then True
      else False)"

definition checkMinimalDataPush :: "parsedOpcode \<Rightarrow> unit res" where
  "checkMinimalDataPush pop =
     (let data = pop_data pop; dataLen = length data; opcode = pop_value pop in
      if dataLen = 0 \<and> opcode \<noteq> OP_0 then Inl ErrStackMinimalData
      else if dataLen = 1 \<and> data ! 0 \<ge> 1 \<and> data ! 0 \<le> 16
      then (if opcode \<noteq> OP_1 + data ! 0 - 1 then Inl ErrStackMinimalData else Inr ())
      else if dataLen = 1 \<and> data ! 0 = 0x81
      then (if opcode \<noteq> OP_1NEGATE then Inl ErrStackMinimalData else Inr ())
      else if dataLen \<le> 75
      then (if unat opcode \<noteq> dataLen then Inl ErrStackMinimalData else Inr ())
      else if dataLen \<le> 255
      then (if opcode \<noteq> OP_PUSHDATA1 then Inl ErrStackMinimalData else Inr ())
      else if dataLen \<le> 65535
      then (if opcode \<noteq> OP_PUSHDATA2 then Inl ErrStackMinimalData else Inr ())
      else Inr ())"

definition pop_bytes :: "parsedOpcode \<Rightarrow> bytes res" where
  "pop_bytes pop =
     (let len = op_length (pop_opcode pop); v = pop_value pop; l = length (pop_data pop) in
      if len = 1
      then (if l \<noteq> 0 then Inl ErrStackInvalidOpcode else Inr [v])
      else let (retbytes, nbytes) =
             (if len = - 1 then (let r = v # put_le 1 l in (r, int (le_val (tl r)) + int (length r)))
              else if len = - 2 then (let r = v # put_le 2 l in (r, int (le_val (tl r)) + int (length r)))
              else if len = - 4 then (let r = v # put_le 4 l in (r, int (le_val (tl r)) + int (length r)))
              else ([v], len));
             retbytes' = retbytes @ pop_data pop
           in if int (length retbytes') \<noteq> nbytes then Inl ErrStackInvalidOpcode else Inr retbytes')"

section \<open>The table\<close>

lemma op_value_opcodeArray [simp]: "op_value (opcodeArray v) = v"
  by (simp add: opcodeArray_def)

lemma op_length_opcodeArray [simp]: "op_length (opcodeArray v) = opcodeLength v"
  by (simp add: opcodeArray_def)

lemma opcodeLength_cases:
  obtains (single) "opcodeLength v = 1"
  | (data) n where "opcodeLength v = int n + 1" "1 \<le> n" "n \<le> 75" "unat v = n"
  | (pushdata) k where "opcodeLength v = - int k" "k = 1 \<or> k = 2 \<or> k = 4"
      "v = OP_PUSHDATA1 \<and> k = 1 \<or> v = OP_PUSHDATA2 \<and> k = 2 \<or> v = OP_PUSHDATA4 \<and> k = 4"
proof (cases "OP_DATA_1 \<le> v \<and> v \<le> OP_DATA_75")
  case True
  then have "1 \<le> unat v" "unat v \<le> 75" by (simp_all add: word_le_nat_alt)
  with True show thesis using data [of "unat v"] by (simp add: opcodeLength_def)
next
  case False
  then have "opcodeLength v = 1 \<or> v = OP_PUSHDATA1 \<and> opcodeLength v = - 1 \<or>
      v = OP_PUSHDATA2 \<and> opcodeLength v = - 2 \<or> v = OP_PUSHDATA4 \<and> opcodeLength v = - 4"
    unfolding opcodeLength_def by (simp only: if_False) simp
  then show thesis
    using single pushdata [of 1] pushdata [of 2] pushdata [of 4] by auto
qed

lemma opcodeLength_nonzero: "opcodeLength v \<noteq> 0"
  by (rule opcodeLength_cases [of v]) auto

text \<open>A parsed instruction whose opcode is an entry of the table, as parsing produces them.\<close>

definition from_table :: "parsedOpcode \<Rightarrow> bool" where
  "from_table p \<longleftrightarrow> pop_opcode p = opcodeArray (pop_value p)"

text \<open>
  The serialisation of a table instruction: the opcode, the length bytes (none for a direct push)
  and the data.
\<close>

definition push_prefix :: "parsedOpcode \<Rightarrow> nat" where
  "push_prefix p = (if opcodeLength (pop_value p) < 0 then nat (- opcodeLength (pop_value p)) else 0)"

definition data_fits :: "parsedOpcode \<Rightarrow> bool" where
  "data_fits p \<longleftrightarrow>
     (let n = opcodeLength (pop_value p); l = length (pop_data p) in
      if n < 0 then l < 256 ^ nat (- n) else int l = n - 1)"

lemma pop_bytes_iff:
  assumes "from_table p"
  shows "pop_bytes p = (if data_fits p
    then Inr (pop_value p # put_le (push_prefix p) (length (pop_data p)) @ pop_data p)
    else Inl ErrStackInvalidOpcode)"
proof -
  have len: "op_length (pop_opcode p) = opcodeLength (pop_value p)"
    using assms unfolding from_table_def by (metis op_length_opcodeArray)
  have pd: "(le_val (put_le k l) = l) = (l < 256 ^ k)" for k l
    by (metis le_val_bound le_val_put_le length_put_le mod_less)
  show ?thesis
  proof (rule opcodeLength_cases [of "pop_value p"])
    assume "opcodeLength (pop_value p) = 1"
    then show ?thesis by (simp add: pop_bytes_def len data_fits_def push_prefix_def)
  next
    fix n assume "opcodeLength (pop_value p) = int n + 1" "1 \<le> n"
    then show ?thesis by (auto simp: pop_bytes_def len data_fits_def push_prefix_def Let_def)
  next
    fix k assume k: "opcodeLength (pop_value p) = - int k" "k = 1 \<or> k = 2 \<or> k = 4"
    have "pop_bytes p = (let r = pop_value p # put_le k (length (pop_data p)) in
        if int (length (r @ pop_data p)) \<noteq> int (le_val (tl r)) + int (length r)
        then Inl ErrStackInvalidOpcode else Inr (r @ pop_data p))"
      using k by (auto simp: pop_bytes_def len Let_def simp del: put_le.simps)
    moreover have "data_fits p \<longleftrightarrow> length (pop_data p) < 256 ^ k" "push_prefix p = k"
      using k by (auto simp: data_fits_def push_prefix_def)
    ultimately show ?thesis using pd [of k "length (pop_data p)"] by (auto simp: Let_def)
  qed
qed

end
