(* ===== verification/Script_Parse.thy ===== *)
theory Script_Parse
  imports Opcodes "HOL-Library.Sublist"
begin

text \<open>
  Parsing scripts into instructions and the questions \<^verbatim>\<open>src/txscript/script.go\<close> answers on the parsed
  form: script templates, witness programs, signature operation counts. The parsing loop is a
  \<open>partial_function\<close> over an arbitrary opcode table, because a table with a zero length would make
  it run forever; for \<^verbatim>\<open>opcodeArray\<close> it is shown to return on every input.
\<close>

section \<open>Model\<close>

subsection \<open>Parsing\<close>

text \<open>A parse returns the instructions up to the first error, and the error.\<close>

type_synonym parse_result = "parsedOpcode list \<times> script_error option"

text \<open>The switch on \<^verbatim>\<open>op.length\<close> that reads a little-endian length of 1, 2 or 4 bytes.\<close>

definition pushdata_len :: "int \<Rightarrow> bytes \<Rightarrow> nat \<Rightarrow> nat option" where
  "pushdata_len oplen script off =
     (if oplen = - 1 then Some (unat (ucast (script ! off) :: u64))
      else if oplen = - 2
      then Some (unat (push_bit 8 (ucast (script ! (off + 1))) OR ucast (script ! off) :: u64))
      else if oplen = - 4
      then Some (unat (push_bit 24 (ucast (script ! (off + 3))) OR
                       push_bit 16 (ucast (script ! (off + 2))) OR
                       push_bit 8 (ucast (script ! (off + 1))) OR ucast (script ! off) :: u64))
      else None)"

partial_function (option) parseLoop ::
  "(byte \<Rightarrow> opcode) \<Rightarrow> bytes \<Rightarrow> nat \<Rightarrow> parsedOpcode list \<Rightarrow> parse_result option" where
  "parseLoop opcodes script i retScript =
     (if i < length script
      then let op = opcodes (script ! i); len = op_length op in
        if len = 1
        then parseLoop opcodes script (i + 1) (retScript @ [\<lparr>pop_opcode = op, pop_data = []\<rparr>])
        else if len > 1
        then (if int (length (drop i script)) < len then Some (retScript, Some ErrStackShortScript)
              else parseLoop opcodes script (i + nat len)
                (retScript @ [\<lparr>pop_opcode = op, pop_data = drop (i + 1) (take (i + nat len) script)\<rparr>]))
        else if len < 0
        then (let off = i + 1 in
              if int (length (drop off script)) < - len then Some (retScript, Some ErrStackShortScript)
              else (case pushdata_len len script off of
                None \<Rightarrow> Some (retScript, Some (ErrorText ''invalid opcode length''))
              | Some l \<Rightarrow>
                 (let off' = off + nat (- len) in
                  if l > length (drop off' script) then Some (retScript, Some ErrStackShortScript)
                  else parseLoop opcodes script (i + (1 + nat (- len) + l))
                    (retScript @ [\<lparr>pop_opcode = op, pop_data = drop off' (take (off' + l) script)\<rparr>]))))
        else parseLoop opcodes script i (retScript @ [\<lparr>pop_opcode = op, pop_data = []\<rparr>])
      else Some (retScript, None))"

definition parseScriptTemplate :: "bytes \<Rightarrow> (byte \<Rightarrow> opcode) \<Rightarrow> parse_result option" where
  "parseScriptTemplate script opcodes = parseLoop opcodes script 0 []"

definition parseScript :: "bytes \<Rightarrow> parse_result" where
  "parseScript script = the (parseScriptTemplate script opcodeArray)"

definition ParseScript :: "bytes \<Rightarrow> parse_result" where
  "ParseScript script = parseScript script"

primrec unparseScript :: "parsedOpcode list \<Rightarrow> bytes res" where
  "unparseScript [] = Inr []"
| "unparseScript (pop # pops) = rbind (pop_bytes pop) (\<lambda>b. rbind (unparseScript pops) (\<lambda>r. Inr (b @ r)))"

subsection \<open>Script templates\<close>

definition isSmallInt :: "opcode \<Rightarrow> bool" where
  "isSmallInt op = (op_value op = OP_0 \<or> (op_value op \<ge> OP_1 \<and> op_value op \<le> OP_16))"

definition asSmallInt :: "opcode \<Rightarrow> int" where
  "asSmallInt op = (if op_value op = OP_0 then 0 else int (unat (op_value op - (OP_1 - 1))))"

definition isWitnessScriptHash :: "parsedOpcode list \<Rightarrow> bool" where
  "isWitnessScriptHash pops =
     (length pops = 2 \<and> pop_value (pops ! 0) = OP_0 \<and> pop_value (pops ! 1) = OP_DATA_32)"

definition isWitnessPoolingScript :: "parsedOpcode list \<Rightarrow> bool" where
  "isWitnessPoolingScript pops =
     (length pops = 3 \<and> pop_value (pops ! 0) = OP_0 \<and> pop_value (pops ! 1) = OP_DATA_32 \<and>
      pop_value (pops ! 2) = OP_DATA_2)"

definition isWitnessAwardingScript :: "parsedOpcode list \<Rightarrow> bool" where
  "isWitnessAwardingScript pops =
     (length pops = 4 \<and> pop_value (pops ! 0) = OP_0 \<and> pop_value (pops ! 1) = OP_DATA_32 \<and>
      pop_value (pops ! 2) = OP_DATA_2 \<and> pop_value (pops ! 3) = OP_DATA_8)"

definition isWitnessGoverningScript :: "parsedOpcode list \<Rightarrow> bool" where
  "isWitnessGoverningScript pops =
     (length pops = 4 \<and> pop_value (pops ! 0) = OP_0 \<and> pop_value (pops ! 1) = OP_DATA_32 \<and>
      pop_value (pops ! 2) = OP_DATA_4 \<and> pop_value (pops ! 3) = OP_DATA_8)"

definition isWitnessStakingScript :: "parsedOpcode list \<Rightarrow> bool" where
  "isWitnessStakingScript pops =
     (length pops = 3 \<and> pop_value (pops ! 0) = OP_0 \<and> pop_value (pops ! 1) = OP_DATA_32 \<and>
      pop_value (pops ! 2) = OP_DATA_8)"

definition isWitnessBindingScript :: "parsedOpcode list \<Rightarrow> bool" where
  "isWitnessBindingScript pops =
     (length pops = 3 \<and> pop_value (pops ! 0) = OP_0 \<and> pop_value (pops ! 1) = OP_DATA_32 \<and>
      pop_value (pops ! 2) = OP_DATA_20)"

definition on_parsed :: "(parsedOpcode list \<Rightarrow> bool) \<Rightarrow> bytes \<Rightarrow> bool" where
  "on_parsed P script = (case parseScript script of (_, Some _) \<Rightarrow> False | (pops, None) \<Rightarrow> P pops)"

definition IsPayToWitnessScriptHash :: "bytes \<Rightarrow> bool" where
  "IsPayToWitnessScriptHash script = on_parsed isWitnessScriptHash script"

definition IsPayToStakingScriptHash :: "bytes \<Rightarrow> bool" where
  "IsPayToStakingScriptHash script = on_parsed isWitnessStakingScript script"

definition IsPayToBindingScriptHash :: "bytes \<Rightarrow> bool" where
  "IsPayToBindingScriptHash script = on_parsed isWitnessBindingScript script"

definition IsPayToPoolingScriptHash :: "bytes \<Rightarrow> bool" where
  "IsPayToPoolingScriptHash script = on_parsed isWitnessPoolingScript script"

definition IsPayToAwardingScriptHash :: "bytes \<Rightarrow> bool" where
  "IsPayToAwardingScriptHash script = on_parsed isWitnessAwardingScript script"

definition IsPayToGoverningScriptHash :: "bytes \<Rightarrow> bool" where
  "IsPayToGoverningScriptHash script = on_parsed isWitnessGoverningScript script"

definition canonicalPush :: "parsedOpcode \<Rightarrow> bool" where
  "canonicalPush pop =
     (let opcode = pop_value pop; data = pop_data pop; dataLen = length data in
      if opcode > OP_16 then True
      else if opcode < OP_PUSHDATA1 \<and> opcode > OP_0 \<and> (dataLen = 1 \<and> data ! 0 \<le> 16) then False
      else if opcode = OP_PUSHDATA1 \<and> dataLen < 0x4c then False
      else if opcode = OP_PUSHDATA2 \<and> dataLen \<le> 0xff then False
      else if opcode = OP_PUSHDATA4 \<and> dataLen \<le> 0xffff then False
      else True)"

text \<open>The switch with its \<^verbatim>\<open>fallthrough\<close>s: case 4 checks its own field and continues with case 3, case 3
  with case 2.\<close>

definition isWitnessProgram :: "parsedOpcode list \<Rightarrow> bool" where
  "isWitnessProgram pops =
     (let case2 = (isSmallInt (pop_opcode (pops ! 0)) \<and> canonicalPush (pops ! 1) \<and>
                   length (pop_data (pops ! 1)) \<ge> 2 \<and> length (pop_data (pops ! 1)) \<le> 40);
          case3 = (if \<not> canonicalPush (pops ! 2) \<or>
                      (length (pop_data (pops ! 2)) \<noteq> 8 \<and> length (pop_data (pops ! 2)) \<noteq> 20)
                   then False else case2);
          case4 = (if length (pop_data (pops ! 3)) \<noteq> 8 then False else case3)
      in if length pops = 4 then case4
         else if length pops = 3 then case3
         else if length pops = 2 then case2
         else False)"

definition IsWitnessProgram :: "bytes \<Rightarrow> bool" where
  "IsWitnessProgram script =
     (if length script < 4 \<or> length script > 42 then False
      else on_parsed isWitnessProgram script)"

definition extractWitnessProgramInfo ::
  "parsedOpcode list \<Rightarrow> (int \<times> bytes \<times> parsedOpcode list) res" where
  "extractWitnessProgramInfo pops =
     (if \<not> isWitnessProgram pops then Inl ErrWitnessProgramFormat
      else Inr (asSmallInt (pop_opcode (pops ! 0)), pop_data (pops ! 1), drop 2 pops))"

definition ExtractWitnessProgramInfo :: "bytes \<Rightarrow> (int \<times> bytes \<times> parsedOpcode list) res" where
  "ExtractWitnessProgramInfo script =
     (case parseScript script of
        (_, Some err) \<Rightarrow> Inl err
      | (pops, None) \<Rightarrow> extractWitnessProgramInfo pops)"

primrec isPushOnly :: "parsedOpcode list \<Rightarrow> bool" where
  "isPushOnly [] = True"
| "isPushOnly (pop # pops) = (if pop_value pop > OP_16 then False else isPushOnly pops)"

definition IsPushOnlyScript :: "bytes \<Rightarrow> bool" where
  "IsPushOnlyScript script = on_parsed isPushOnly script"

definition removeOpcodeByData :: "parsedOpcode list \<Rightarrow> bytes \<Rightarrow> parsedOpcode list" where
  "removeOpcodeByData pkscript data =
     filter (\<lambda>pop. \<not> canonicalPush pop \<or> \<not> sublist data (pop_data pop)) pkscript"

definition IsUnspendable :: "bytes \<Rightarrow> bool" where
  "IsUnspendable pkScript =
     (case parseScript pkScript of
        (_, Some _) \<Rightarrow> True
      | (pops, None) \<Rightarrow> length pops > 0 \<and> pop_value (pops ! 0) = OP_RETURN)"

subsection \<open>Signature operations\<close>

text \<open>The loop of \<^verbatim>\<open>getSigOpCount\<close>; \<open>prev\<close> is \<^verbatim>\<open>pops[i-1]\<close>, absent for \<^verbatim>\<open>i == 0\<close>.\<close>

primrec sigOpLoop :: "bool \<Rightarrow> opcode option \<Rightarrow> parsedOpcode list \<Rightarrow> int" where
  "sigOpLoop precise prev [] = 0"
| "sigOpLoop precise prev (pop # pops) =
     (let v = pop_value pop;
          n = (if v = OP_CHECKSIG \<or> v = OP_CHECKSIGVERIFY then 1
               else if v = OP_CHECKMULTISIG \<or> v = OP_CHECKMULTISIGVERIFY
               then (case prev of
                       None \<Rightarrow> int MaxPubKeysPerMultiSig
                     | Some op \<Rightarrow>
                        if precise \<and> op_value op \<ge> OP_1 \<and> op_value op \<le> OP_16 then asSmallInt op
                        else int MaxPubKeysPerMultiSig)
               else 0)
      in n + sigOpLoop precise (Some (pop_opcode pop)) pops)"

definition getSigOpCount :: "parsedOpcode list \<Rightarrow> bool \<Rightarrow> int" where
  "getSigOpCount pops precise = sigOpLoop precise None pops"

definition GetSigOpCount :: "bytes \<Rightarrow> int" where
  "GetSigOpCount script = getSigOpCount (fst (parseScript script)) True"

definition getWitnessSigOps :: "bytes \<Rightarrow> bytes list \<Rightarrow> int" where
  "getWitnessSigOps pkScript witness =
     (case ExtractWitnessProgramInfo pkScript of
        Inl _ \<Rightarrow> 0
      | Inr (witnessVersion, witnessProgram, _) \<Rightarrow>
         if witnessVersion = 0 \<and> length witnessProgram = WitnessV0ScriptHashDataSize \<and>
            length witness > 0
         then getSigOpCount (fst (parseScript (witness ! (length witness - 1)))) True
         else 0)"

definition GetWitnessSigOpCount :: "bytes \<Rightarrow> bytes list \<Rightarrow> int" where
  "GetWitnessSigOpCount pkScript witness =
     (if IsWitnessProgram pkScript then getWitnessSigOps pkScript witness else 0)"

subsection \<open>A reference parser\<close>

text \<open>
  One instruction off the front of a byte list, and the parser that repeats it: the list-based
  specification of the index-based loop.
\<close>

definition parse1 :: "byte \<Rightarrow> bytes \<Rightarrow> (parsedOpcode \<times> bytes) res" where
  "parse1 b bs =
     (let n = opcodeLength b in
      if n < 0
      then (let k = nat (- n); l = le_val (take k bs); r = drop k bs in
            if length bs < k \<or> length r < l then Inl ErrStackShortScript
            else Inr (\<lparr>pop_opcode = opcodeArray b, pop_data = take l r\<rparr>, drop l r))
      else (let l = nat (n - 1) in
            if length bs < l then Inl ErrStackShortScript
            else Inr (\<lparr>pop_opcode = opcodeArray b, pop_data = take l bs\<rparr>, drop l bs)))"

lemma parse1_length: "parse1 b bs = Inr (p, rest) \<Longrightarrow> length rest \<le> length bs"
  by (auto simp: parse1_def Let_def split: if_splits)

function parse_ref :: "bytes \<Rightarrow> parse_result" where
  "parse_ref [] = ([], None)"
| "parse_ref (b # bs) =
     (case parse1 b bs of
        Inl e \<Rightarrow> ([], Some e)
      | Inr (p, rest) \<Rightarrow> (case parse_ref rest of (ps, e) \<Rightarrow> (p # ps, e)))"
  by pat_completeness auto
termination
  by (relation "measure length") (auto dest: parse1_length)

section \<open>The loop computes the reference parser\<close>

lemma pushdata_len_eq:
  assumes "k = 1 \<or> k = 2 \<or> k = 4" "off + k \<le> length script"
  shows "pushdata_len (- int k) script off = Some (le_val (take k (drop off script)))"
proof -
  let ?bs = "take k (drop off script)"
  have le: "le_val ?bs = unat (le_or 0 0 ?bs)" using assms by (intro unat_le_or_0 [symmetric]) auto
  have "?bs = map (\<lambda>j. script ! (off + j)) [0 ..< k]"
    using assms(2) by (intro nth_equalityI) (auto simp: add.commute)
  moreover have "[0 ..< 2] = [0, 1 :: nat]" "[0 ..< 4] = [0, 1, 2, 3 :: nat]" by (simp_all add: upt_rec)
  ultimately show ?thesis
    using assms(1) unfolding le
    by (elim disjE) (simp_all add: pushdata_len_def or.commute or.left_commute)
qed

lemma parse1_suffix:
  assumes "parse1 b bs = Inr (p, rest)" "drop i script = b # bs"
  shows "drop (length script - length rest) script = rest"
proof -
  obtain m where "rest = drop m bs"
    using assms(1) by (auto simp: parse1_def Let_def split: if_splits)
  moreover have "drop (Suc i) script = bs" using assms(2) by (metis drop_Suc list.sel(3) tl_drop)
  ultimately have "rest = drop (Suc i + m) script" by (metis add.commute drop_drop)
  then show ?thesis by (cases "Suc i + m \<le> length script") auto
qed

definition prepend :: "parsedOpcode list \<Rightarrow> parse_result \<Rightarrow> parse_result" where
  "prepend ps r = (ps @ fst r, snd r)"

lemma prepend_snoc: "prepend (ps @ [p]) r = prepend ps (p # fst r, snd r)"
  by (simp add: prepend_def)

lemma drop_take_slice: "drop a (take (a + l) xs) = take l (drop a xs)"
  by (simp add: drop_take)

lemma parseLoop_step:
  assumes "drop i script = b # bs"
  shows "parseLoop opcodeArray script i ret =
    (case parse1 b bs of
       Inl e \<Rightarrow> Some (ret, Some e)
     | Inr (p, rest) \<Rightarrow> parseLoop opcodeArray script (length script - length rest) (ret @ [p]))"
proof -
  have i: "i < length script" using assms by (metis drop_all list.discI not_le)
  have b: "script ! i = b" and bs: "drop (Suc i) script = bs"
    using assms i by (metis Cons_nth_drop_Suc list.inject)+
  have len: "length script - i = Suc (length bs)" using arg_cong [OF assms, of length] by simp
  show ?thesis
  proof (rule opcodeLength_cases [of b])
    assume "opcodeLength b = 1"
    moreover have "length script - length bs = Suc i" using len i by linarith
    ultimately show ?thesis using i b by (subst parseLoop.simps) (simp add: parse1_def)
  next
    fix n assume n: "opcodeLength b = int n + 1" "1 \<le> n"
    have d: "drop (Suc i) (take (i + Suc n) script) = take n bs"
      using drop_take_slice [of "Suc i" n script] bs by simp
    have "n \<le> length bs \<Longrightarrow> length script - (length bs - n) = i + Suc n" using len i by linarith
    then show ?thesis using n i b len d
      by (subst parseLoop.simps) (auto simp: parse1_def Let_def nat_add_distrib)
  next
    fix k assume k: "opcodeLength b = - int k" "k = 1 \<or> k = 2 \<or> k = 4"
    let ?l = "le_val (take k bs)" and ?off = "Suc i + k"
    have r: "drop ?off script = drop k bs" using bs by (metis add.commute drop_drop)
    have d: "drop ?off (take (?off + ?l) script) = take ?l (drop k bs)"
      using drop_take_slice [of ?off ?l script] r by simp
    have pl: "\<not> length bs < k \<Longrightarrow> pushdata_len (- int k) script (Suc i) = Some ?l"
      using pushdata_len_eq [OF k(2), of "Suc i" script] bs len i by simp
    have k0: "0 < k" using k by auto
    have i1: "length script - Suc i = length bs" using len by linarith
    have unfold: "parseLoop opcodeArray script i ret =
      (if length bs < k then Some (ret, Some ErrStackShortScript)
       else (case pushdata_len (- int k) script (Suc i) of
          None \<Rightarrow> Some (ret, Some (ErrorText ''invalid opcode length''))
        | Some l \<Rightarrow> (if l > length (drop ?off script) then Some (ret, Some ErrStackShortScript)
            else parseLoop opcodeArray script (i + (1 + k + l))
              (ret @ [\<lparr>pop_opcode = opcodeArray b, pop_data = drop ?off (take (?off + l) script)\<rparr>]))))"
      using i b k(1) k0 i1 by (subst parseLoop.simps) (simp add: Let_def cong: option.case_cong if_cong)
    show ?thesis
    proof (cases "length bs < k \<or> length (drop k bs) < ?l")
      case True
      then have "parse1 b bs = Inl ErrStackShortScript" using k k0 by (simp add: parse1_def Let_def)
      then show ?thesis using True unfold pl unfolding r by auto
    next
      case False
      then have "parse1 b bs = Inr (\<lparr>pop_opcode = opcodeArray b, pop_data = take ?l (drop k bs)\<rparr>,
          drop ?l (drop k bs))" using k k0 by (auto simp: parse1_def Let_def)
      moreover have "i + (1 + k + ?l) = length script - length (drop ?l (drop k bs))"
        using False len i unfolding length_drop by linarith
      ultimately show ?thesis using False unfold pl d unfolding r by simp
    qed
  qed
qed

lemma parseLoop_ref:
  "i \<le> length script \<Longrightarrow>
   parseLoop opcodeArray script i ret = Some (prepend ret (parse_ref (drop i script)))"
proof (induction "length script - i" arbitrary: i ret rule: less_induct)
  case less
  show ?case
  proof (cases "drop i script")
    case Nil
    then show ?thesis by (subst parseLoop.simps) (simp add: prepend_def)
  next
    case (Cons b bs)
    have len: "length script - i = Suc (length bs)" using arg_cong [OF Cons, of length] by simp
    show ?thesis
    proof (cases "parse1 b bs")
      case (Inl e)
      then show ?thesis using parseLoop_step [OF Cons] Cons by (simp add: prepend_def)
    next
      case (Inr x)
      then obtain p rest where x: "parse1 b bs = Inr (p, rest)" by (cases x) simp
      let ?j = "length script - length rest"
      have suffix: "drop ?j script = rest"
        using x Cons parse1_suffix by blast
      have "length rest \<le> length bs" using parse1_length x by blast
      then have "length script - ?j < length script - i" using len by linarith
      then have "parseLoop opcodeArray script ?j (ret @ [p]) = Some (prepend (ret @ [p]) (parse_ref rest))"
        using less.hyps [of ?j "ret @ [p]"] suffix by simp
      then show ?thesis
        using parseLoop_step [OF Cons] x Cons by (simp add: prepend_snoc split: prod.splits)
    qed
  qed
qed

lemma parseScript_ref: "parseScript script = parse_ref script"
  by (simp add: parseScript_def parseScriptTemplate_def parseLoop_ref prepend_def)

section \<open>Serialising and parsing\<close>

lemma parse1_pop_bytes:
  assumes "parse1 b bs = Inr (p, rest)"
  shows "from_table p \<and> pop_value p = b \<and> data_fits p \<and>
    put_le (push_prefix p) (length (pop_data p)) @ pop_data p @ rest = bs"
proof (cases "opcodeLength b < 0")
  case True
  define k where "k = nat (- opcodeLength b)"
  define l where "l = le_val (take k bs)"
  have p: "p = \<lparr>pop_opcode = opcodeArray b, pop_data = take l (drop k bs)\<rparr>"
    "rest = drop l (drop k bs)" "k \<le> length bs" "l \<le> length (drop k bs)"
    using assms True by (auto simp: parse1_def Let_def k_def l_def split: if_splits)
  have v: "pop_value p = b" and len: "length (pop_data p) = l" using p by simp_all
  have "push_prefix p = k" using True v by (simp add: push_prefix_def k_def)
  moreover have "l < 256 ^ k" using le_val_bound [of "take k bs"] p(3) by (simp add: l_def min_absorb2)
  moreover have "put_le k l = take k bs"
    using put_le_le_val [of "take k bs"] p(3) by (simp add: l_def min_absorb2)
  moreover have "take k bs @ take l (drop k bs) @ rest = bs" using p(2) by (metis append_take_drop_id)
  ultimately show ?thesis
    using True p(1) v len by (simp add: from_table_def data_fits_def k_def)
next
  case False
  define l where "l = nat (opcodeLength b - 1)"
  have p: "p = \<lparr>pop_opcode = opcodeArray b, pop_data = take l bs\<rparr>"
    "rest = drop l bs" "l \<le> length bs"
    using assms False by (auto simp: parse1_def Let_def l_def split: if_splits)
  have "opcodeLength b \<ge> 1" using False opcodeLength_nonzero [of b] by simp
  then show ?thesis
    using False p by (simp add: from_table_def data_fits_def push_prefix_def l_def)
qed

lemma parse1_of_bytes:
  assumes "from_table p" "data_fits p"
  shows "parse1 (pop_value p) (put_le (push_prefix p) (length (pop_data p)) @ pop_data p @ rest) =
    Inr (p, rest)"
proof -
  have p: "\<lparr>pop_opcode = opcodeArray (pop_value p), pop_data = pop_data p\<rparr> = p"
    using assms(1) by (simp add: from_table_def)
  show ?thesis
  proof (cases "opcodeLength (pop_value p) < 0")
    case True
    then have "le_val (put_le (push_prefix p) (length (pop_data p))) = length (pop_data p)"
      using assms(2) by (simp add: data_fits_def push_prefix_def le_val_put_le)
    then show ?thesis using True p by (simp add: parse1_def Let_def push_prefix_def)
  next
    case False
    then have "nat (opcodeLength (pop_value p) - 1) = length (pop_data p)"
      using assms(2) by (simp add: data_fits_def)
    then show ?thesis using False p by (simp add: parse1_def Let_def push_prefix_def)
  qed
qed

lemma parse_ref_ok:
  "parse_ref s = (ps, None) \<Longrightarrow> unparseScript ps = Inr s \<and> list_all (\<lambda>p. from_table p \<and> data_fits p) ps"
proof (induction s arbitrary: ps rule: parse_ref.induct)
  case (2 b bs)
  then obtain p rest ps' where x: "parse1 b bs = Inr (p, rest)" "parse_ref rest = (ps', None)"
    "ps = p # ps'" by (auto split: sum.splits prod.splits)
  with 2 have IH: "unparseScript ps' = Inr rest" "list_all (\<lambda>p. from_table p \<and> data_fits p) ps'"
    by blast+
  have "pop_bytes p = Inr (b # put_le (push_prefix p) (length (pop_data p)) @ pop_data p)"
    using parse1_pop_bytes [OF x(1)] by (simp add: pop_bytes_iff)
  then show ?case using IH x parse1_pop_bytes [OF x(1)] by simp
qed simp

lemma parse_ref_prefix: "list_all (\<lambda>p. from_table p \<and> data_fits p) (fst (parse_ref s))"
proof (induction s rule: parse_ref.induct)
  case (2 b bs)
  show ?case
  proof (cases "parse1 b bs")
    case (Inr x)
    then obtain p rest where x: "parse1 b bs = Inr (p, rest)" by (cases x) simp
    then show ?thesis using 2 parse1_pop_bytes [OF x] by (auto split: prod.splits)
  qed simp
qed simp

lemma parse_unparse:
  "list_all from_table ps \<Longrightarrow> unparseScript ps = Inr s \<Longrightarrow> parse_ref s = (ps, None)"
proof (induction ps arbitrary: s)
  case (Cons p ps)
  then obtain b r where b: "pop_bytes p = Inr b" "unparseScript ps = Inr r" "s = b @ r"
    by (auto simp: rbind_eq_Inr)
  have fits: "data_fits p" and bb: "b = pop_value p # put_le (push_prefix p) (length (pop_data p)) @ pop_data p"
    using b(1) Cons.prems by (auto simp: pop_bytes_iff split: if_splits)
  have "parse1 (pop_value p) (put_le (push_prefix p) (length (pop_data p)) @ pop_data p @ r) = Inr (p, r)"
    using parse1_of_bytes fits Cons.prems by simp
  then show ?case using Cons b bb by simp
qed simp

lemma parse1_append:
  "parse1 b bs = Inr (p, rest) \<Longrightarrow> parse1 b (bs @ s) = Inr (p, rest @ s)"
  using parse1_pop_bytes [of b bs p rest] parse1_of_bytes [of p "rest @ s"] by auto

lemma parse_ref_append:
  "parse_ref s = (ps, None) \<Longrightarrow> parse_ref (s @ s') = (ps @ fst (parse_ref s'), snd (parse_ref s'))"
proof (induction s arbitrary: ps rule: parse_ref.induct)
  case (2 b bs)
  then obtain p rest ps' where x: "parse1 b bs = Inr (p, rest)" "parse_ref rest = (ps', None)"
    "ps = p # ps'" by (auto split: sum.splits prod.splits)
  with 2 have "parse_ref (rest @ s') = (ps' @ fst (parse_ref s'), snd (parse_ref s'))" by blast
  then show ?case using x parse1_append [OF x(1)] by simp
qed simp

text \<open>The two directions as an instance of the codec contract.\<close>

definition script_enc :: "parsedOpcode list \<Rightarrow> bytes" where
  "script_enc ps = (case unparseScript ps of Inl _ \<Rightarrow> [] | Inr s \<Rightarrow> s)"

definition script_dec :: "bytes \<Rightarrow> parsedOpcode list res" where
  "script_dec s = (case parseScript s of (_, Some e) \<Rightarrow> Inl e | (ps, None) \<Rightarrow> Inr ps)"

lemma unparse_ok: "list_all (\<lambda>p. from_table p \<and> data_fits p) ps \<Longrightarrow> \<exists>s. unparseScript ps = Inr s"
  by (induction ps) (auto simp: pop_bytes_iff)

interpretation script_code: codec
  "list_all (\<lambda>p. from_table p \<and> data_fits p)" script_enc "\<lambda>_. True" script_dec
proof
  fix ps assume ps: "list_all (\<lambda>p. from_table p \<and> data_fits p) ps"
  then obtain s where s: "unparseScript ps = Inr s" using unparse_ok by blast
  have "list_all from_table ps" using ps by (auto simp: list_all_iff)
  then show "script_dec (script_enc ps) = Inr ps"
    using s parse_unparse by (simp add: script_dec_def script_enc_def parseScript_ref)
next
  fix s ps assume "script_dec s = Inr ps"
  then have "parse_ref s = (ps, None)"
    by (auto simp: script_dec_def parseScript_ref split: prod.splits option.splits)
  then show "list_all (\<lambda>p. from_table p \<and> data_fits p) ps \<and> script_enc ps = s"
    using parse_ref_ok by (simp add: script_enc_def)
qed simp

section \<open>Properties\<close>

text \<open>C24. Parsing returns on every byte sequence: with the node's opcode table the loop of
  \<^verbatim>\<open>parseScriptTemplate\<close> always terminates, and its result is that of the list-based reference
  parser, which takes one instruction at a time off the front.\<close>

theorem parseScript_total: "parseScriptTemplate script opcodeArray = Some (parse_ref script)"
  by (simp add: parseScriptTemplate_def parseLoop_ref prepend_def)

text \<open>C23. \<^verbatim>\<open>unparseScript\<close> reverses \<^verbatim>\<open>parseScript\<close> and conversely: a script that parses without error is
  given back byte for byte by serialising its instructions, and instructions of the opcode table
  that serialise without error are what parsing the bytes returns.\<close>

theorem parse_unparse_roundtrip:
  assumes "list_all from_table pops"
  shows "parseScript script = (pops, None) \<longleftrightarrow> unparseScript pops = Inr script"
  unfolding parseScript_ref using assms parse_ref_ok parse_unparse by blast

theorem parse_unparse_roundtrip_witness:
  "parseScript [0x00, 0x02, 0xab, 0xcd, 0x4c, 0x01, 0x07] =
     ([\<lparr>pop_opcode = opcodeArray 0x00, pop_data = []\<rparr>,
       \<lparr>pop_opcode = opcodeArray 0x02, pop_data = [0xab, 0xcd]\<rparr>,
       \<lparr>pop_opcode = opcodeArray 0x4c, pop_data = [0x07]\<rparr>], None)"
  by (rule parse_unparse_roundtrip [THEN iffD2])
     (simp_all add: from_table_def pop_bytes_def opcodeLength_def)

end
