(* ===== verification/Script_Builder.thy ===== *)
theory Script_Builder
  imports Script_Parse
begin

text \<open>
  \<^verbatim>\<open>ScriptBuilder\<close> of \<^verbatim>\<open>src/txscript/scriptbuilder.go\<close>: scripts are built by appending opcodes, data
  pushes and integers; the first refusal is kept in the builder and makes every later call a no-op.
  The lemmas show that a data push is exactly one instruction which pushes that data, and where the
  size limit of 10000 bytes is kept.
\<close>

section \<open>Model\<close>

record ScriptBuilder =
  sb_script :: bytes
  sb_err :: "script_error option"

definition AddOp :: "byte \<Rightarrow> ScriptBuilder \<Rightarrow> ScriptBuilder" where
  "AddOp opcode b =
     (if sb_err b \<noteq> None then b
      else if length (sb_script b) + 1 > maxScriptSize then b\<lparr>sb_err := Some ErrScriptNotCanonical\<rparr>
      else b\<lparr>sb_script := sb_script b @ [opcode]\<rparr>)"

definition canonicalDataSize :: "bytes \<Rightarrow> nat" where
  "canonicalDataSize data =
     (let dataLen = length data in
      if dataLen = 0 then 1
      else if dataLen = 1 \<and> data ! 0 \<le> 16 then 1
      else if dataLen = 1 \<and> data ! 0 = 0x81 then 1
      else if dataLen < 0x4c then 1 + dataLen
      else if dataLen \<le> 0xff then 2 + dataLen
      else if dataLen \<le> 0xffff then 3 + dataLen
      else 5 + dataLen)"

definition addData :: "bytes \<Rightarrow> ScriptBuilder \<Rightarrow> ScriptBuilder" where
  "addData data b =
     (let dataLen = length data; s = sb_script b in
      if dataLen = 0 \<or> dataLen = 1 \<and> data ! 0 = 0 then b\<lparr>sb_script := s @ [OP_0]\<rparr>
      else if dataLen = 1 \<and> data ! 0 \<le> 16 then b\<lparr>sb_script := s @ [(OP_1 - 1) + data ! 0]\<rparr>
      else if dataLen = 1 \<and> data ! 0 = 0x81 then b\<lparr>sb_script := s @ [OP_1NEGATE]\<rparr>
      else let s1 = (if dataLen < 0x4c then s @ [of_nat ((0x01 - 1) + dataLen)]
                     else if dataLen \<le> 0xff then s @ [OP_PUSHDATA1, of_nat dataLen]
                     else if dataLen \<le> 0xffff then s @ [OP_PUSHDATA2] @ put_le 2 dataLen
                     else s @ [OP_PUSHDATA4] @ put_le 4 dataLen)
           in b\<lparr>sb_script := s1 @ data\<rparr>)"

definition AddFullData :: "bytes \<Rightarrow> ScriptBuilder \<Rightarrow> ScriptBuilder" where
  "AddFullData data b = (if sb_err b \<noteq> None then b else addData data b)"

definition AddData :: "bytes \<Rightarrow> ScriptBuilder \<Rightarrow> ScriptBuilder" where
  "AddData data b =
     (if sb_err b \<noteq> None then b
      else if length (sb_script b) + canonicalDataSize data > maxScriptSize
      then b\<lparr>sb_err := Some ErrScriptNotCanonical\<rparr>
      else if length data > MaxScriptElementSize then b\<lparr>sb_err := Some ErrScriptNotCanonical\<rparr>
      else addData data b)"

definition AddInt64 :: "int \<Rightarrow> ScriptBuilder \<Rightarrow> ScriptBuilder res" where
  "AddInt64 v b =
     (if sb_err b \<noteq> None then Inr b
      else if length (sb_script b) + 1 > maxScriptSize
      then Inr (b\<lparr>sb_err := Some ErrScriptNotCanonical\<rparr>)
      else if v = 0 then Inr (b\<lparr>sb_script := sb_script b @ [OP_0]\<rparr>)
      else if v = - 1 \<or> (v \<ge> 1 \<and> v \<le> 16)
      then Inr (b\<lparr>sb_script := sb_script b @ [word_of_int ((0x51 - 1) + v)]\<rparr>)
      else rbind (num_Bytes v) (\<lambda>d. Inr (AddData d b)))"

definition AddCoinbaseHeight :: "int \<Rightarrow> ScriptBuilder \<Rightarrow> ScriptBuilder res" where
  "AddCoinbaseHeight v b =
     (let refuse = Inr (b\<lparr>sb_err := Some ErrScriptNotCanonical\<rparr>) in
      if sb_err b \<noteq> None then Inr b
      else if v \<le> 0 then refuse
      else if length (sb_script b) + 1 > maxScriptSize then refuse
      else rbind (num_Bytes v) (\<lambda>data.
        if length (sb_script b) + canonicalDataSize data > maxScriptSize then refuse
        else if length data > MaxScriptElementSize then refuse
        else if length data \<le> 8
        then Inr (b\<lparr>sb_script := (sb_script b @ [of_nat ((0x01 - 1) + length data)]) @ data\<rparr>)
        else refuse))"

definition builder_Reset :: "ScriptBuilder \<Rightarrow> ScriptBuilder" where
  "builder_Reset b = b\<lparr>sb_script := [], sb_err := None\<rparr>"

text \<open>\<^verbatim>\<open>Script\<close> returns the bytes together with the error; callers use the bytes only without one.\<close>

definition Script :: "ScriptBuilder \<Rightarrow> bytes \<times> script_error option" where
  "Script b = (sb_script b, sb_err b)"

definition NewScriptBuilder :: ScriptBuilder where
  "NewScriptBuilder = \<lparr>sb_script = [], sb_err = None\<rparr>"

section \<open>The instruction a data push appends\<close>

text \<open>
  The bytes one push of \<open>data\<close> appends, and the value an instruction pushes when the engine runs
  it (handlers \<^verbatim>\<open>opcodeFalse\<close>, \<^verbatim>\<open>opcode1Negate\<close>, \<^verbatim>\<open>opcodeN\<close> and \<^verbatim>\<open>opcodePushData\<close>).
\<close>

definition push_code :: "bytes \<Rightarrow> bytes" where
  "push_code data = sb_script (addData data NewScriptBuilder)"

definition pushed_value :: "parsedOpcode \<Rightarrow> bytes" where
  "pushed_value p =
     (let v = pop_value p in
      if v = OP_1NEGATE then [0x81]
      else if OP_1 \<le> v \<and> v \<le> OP_16 then [v - (OP_1 - 1)]
      else pop_data p)"

lemma addData_eq: "addData data b = b\<lparr>sb_script := sb_script b @ push_code data\<rparr>"
  by (simp add: push_code_def addData_def NewScriptBuilder_def Let_def)

lemma length_push_code: "length (push_code data) = canonicalDataSize data"
  by (auto simp: push_code_def addData_def NewScriptBuilder_def canonicalDataSize_def Let_def)

lemma AddData_ok:
  assumes "sb_err (AddData data b) = None"
  shows "AddData data b = b\<lparr>sb_script := sb_script b @ push_code data\<rparr> \<and> sb_err b = None \<and>
    length data \<le> MaxScriptElementSize \<and>
    length (sb_script b) + length (push_code data) \<le> maxScriptSize"
  using assms by (auto simp: AddData_def addData_eq length_push_code split: if_splits)

lemma parse1_opcode:
  assumes "opcodeLength v = 1"
  shows "parse_ref (v # rest) = (\<lparr>pop_opcode = opcodeArray v, pop_data = []\<rparr> # fst (parse_ref rest),
    snd (parse_ref rest))"
  using assms by (simp add: parse1_def split: prod.splits)

lemma parse_ref_instr:
  assumes "from_table p" "data_fits p"
  shows "parse_ref (pop_value p # put_le (push_prefix p) (length (pop_data p)) @ pop_data p) = ([p], None)"
  using parse1_of_bytes [OF assms, of "[]"] by simp

lemma byte_cases_16: "(b :: byte) \<le> 16 \<Longrightarrow> b \<noteq> 0 \<Longrightarrow>
    OP_1 \<le> (OP_1 - 1) + b \<and> (OP_1 - 1) + b \<le> OP_16 \<and> opcodeLength ((OP_1 - 1) + b) = 1"
proof -
  assume b: "b \<le> 16" "b \<noteq> 0"
  then have n: "unat b \<le> 16" "unat b > 0" by (simp_all add: word_le_nat_alt unat_gt_0)
  have "unat ((OP_1 - 1) + b) = 80 + unat b"
    using n unat_add_lem [of "0x50 :: byte" b] by simp
  then show ?thesis using n by (auto simp: word_le_nat_alt opcodeLength_def word_unat_eq_iff)
qed

text \<open>What is known of the one instruction of a push.\<close>

definition pushes :: "bytes \<Rightarrow> parsedOpcode \<Rightarrow> bool" where
  "pushes data p \<longleftrightarrow> from_table p \<and> pop_value p \<le> OP_16 \<and> pop_value p \<noteq> OP_RESERVED \<and>
     pushed_value p = data \<and>
     (pop_value p \<le> OP_PUSHDATA4 \<longrightarrow> checkMinimalDataPush p = Inr ())"

lemma push_code_direct:
  assumes "p = \<lparr>pop_opcode = opcodeArray v, pop_data = data\<rparr>" "data_fits p"
    "push_code data = v # put_le (push_prefix p) (length data) @ data" "v \<le> OP_PUSHDATA4"
    "checkMinimalDataPush p = Inr ()"
  shows "parse_ref (push_code data) = ([p], None) \<and> pushes data p"
proof -
  have ft: "from_table p" using assms(1) by (simp add: from_table_def)
  then have "parse_ref (push_code data) = ([p], None)"
    using parse_ref_instr [of p] assms by simp
  moreover have "pushes data p"
    using assms ft by (auto simp: pushes_def pushed_value_def word_le_nat_alt)
  ultimately show ?thesis by blast
qed

lemma push_code_large:
  assumes "75 < length data" "length data < 4294967296"
  shows "\<exists>p. parse_ref (push_code data) = ([p], None) \<and> pushes data p"
proof -
  define v :: byte where "v = (if length data \<le> 0xff then OP_PUSHDATA1
    else if length data \<le> 0xffff then OP_PUSHDATA2 else OP_PUSHDATA4)"
  let ?p = "\<lparr>pop_opcode = opcodeArray v, pop_data = data\<rparr>"
  have ol: "opcodeLength v = (if length data \<le> 0xff then - 1 else if length data \<le> 0xffff then - 2 else - 4)"
    by (simp add: v_def opcodeLength_def)
  have fits: "data_fits ?p" using assms by (simp add: data_fits_def ol)
  have pp: "push_prefix ?p = (if length data \<le> 0xff then 1 else if length data \<le> 0xffff then 2 else 4)"
    by (simp add: push_prefix_def ol)
  have "length data \<le> 0xff \<Longrightarrow> put_le 1 (length data) = [of_nat (length data)]" by simp
  then have "push_code data = v # put_le (push_prefix ?p) (length data) @ data"
    using assms unfolding pp
    by (auto simp: push_code_def addData_def NewScriptBuilder_def Let_def v_def simp del: put_le.simps)
  moreover have "checkMinimalDataPush ?p = Inr ()"
    using assms by (auto simp: checkMinimalDataPush_def Let_def v_def)
  moreover have "v \<le> OP_PUSHDATA4" by (simp add: v_def)
  ultimately show ?thesis using push_code_direct [OF refl fits] by blast
qed

lemma push_code_short:
  assumes "0 < length data" "length data \<le> 75" "length data = 1 \<Longrightarrow> \<not> data ! 0 \<le> 16 \<and> data ! 0 \<noteq> 0x81"
  shows "\<exists>p. parse_ref (push_code data) = ([p], None) \<and> pushes data p"
proof -
  define v :: byte where "v = of_nat (length data)"
  let ?p = "\<lparr>pop_opcode = opcodeArray v, pop_data = data\<rparr>"
  have uv: "unat v = length data" using assms by (simp add: v_def unat_of_nat)
  then have ol: "opcodeLength v = int (length data) + 1"
    using assms(1,2) by (simp add: opcodeLength_def word_le_nat_alt Suc_le_eq del: length_greater_0_conv)
  have fits: "data_fits ?p" using assms by (simp add: data_fits_def ol)
  have pp: "push_prefix ?p = 0" by (simp add: push_prefix_def ol)
  have "push_code data = v # put_le (push_prefix ?p) (length data) @ data"
    using assms unfolding pp by (auto simp: push_code_def addData_def NewScriptBuilder_def Let_def v_def)
  moreover have "checkMinimalDataPush ?p = Inr ()"
    using assms uv by (auto simp: checkMinimalDataPush_def Let_def)
  moreover have "v \<le> OP_PUSHDATA4" using assms uv by (simp add: word_le_nat_alt)
  ultimately show ?thesis using push_code_direct [OF refl fits] by blast
qed

lemma push_code_special:
  assumes "data = [] \<or> data = [b] \<and> (b \<le> 16 \<or> b = 0x81)"
  shows "\<exists>p. parse_ref (push_code data) = ([p], None) \<and> pushes (if data = [0] then [] else data) p"
proof -
  define v where "v = (if data = [] \<or> data = [0] then OP_0 else if b \<le> 16 then (OP_1 - 1) + b else OP_1NEGATE)"
  let ?p = "\<lparr>pop_opcode = opcodeArray v, pop_data = []\<rparr>"
  have pc: "push_code data = [v]"
    using assms by (auto simp: push_code_def addData_def NewScriptBuilder_def Let_def v_def)
  have b16: "data = [b] \<and> b \<noteq> 0 \<and> b \<le> 16 \<Longrightarrow> OP_1 \<le> v \<and> v \<le> OP_16 \<and> opcodeLength v = 1 \<and> v - (OP_1 - 1) = b"
    using byte_cases_16 [of b] by (simp add: v_def)
  have "opcodeLength v = 1"
  proof (cases "data = [b] \<and> b \<noteq> 0 \<and> b \<le> 16")
    case False
    then have "v = OP_0 \<or> v = OP_1NEGATE" using assms by (auto simp: v_def)
    then show ?thesis by (auto simp: opcodeLength_def)
  qed (use b16 in blast)
  then have "parse_ref (push_code data) = ([?p], None)" using pc parse1_opcode [of v "[]"] by simp
  moreover have "pushes (if data = [0] then [] else data) ?p"
  proof (cases "data = [b] \<and> b \<noteq> 0 \<and> b \<le> 16")
    case True
    then have "\<not> v \<le> OP_PUSHDATA4" "v \<noteq> OP_RESERVED" "v \<noteq> OP_1NEGATE" using b16 by (auto simp: word_le_nat_alt)
    then show ?thesis using True b16 by (simp add: pushes_def from_table_def pushed_value_def Let_def)
  next
    case False
    then show ?thesis using assms
      by (auto simp: pushes_def from_table_def pushed_value_def Let_def v_def checkMinimalDataPush_def)
  qed
  ultimately show ?thesis by blast
qed

lemma push_code_instr:
  assumes "length data < 4294967296"
  shows "\<exists>p. parse_ref (push_code data) = ([p], None) \<and> pushes (if data = [0] then [] else data) p"
proof -
  consider (special) b where "data = [] \<or> data = [b] \<and> (b \<le> 16 \<or> b = 0x81)"
    | (short) "0 < length data" "length data \<le> 75" "length data = 1 \<Longrightarrow> \<not> data ! 0 \<le> 16 \<and> data ! 0 \<noteq> 0x81"
    | (large) "75 < length data"
    by (metis One_nat_def Suc_length_conv length_0_conv neq0_conv not_le nth_Cons_0)
  then show ?thesis
  proof cases
    case special then show ?thesis by (rule push_code_special)
  next
    case short
    then show ?thesis using push_code_short [OF short] by fastforce
  next
    case large
    then show ?thesis using push_code_large [OF large assms] by fastforce
  qed
qed

section \<open>Integers\<close>

lemma le_loop_small: "0 < v \<Longrightarrow> v < 256 \<Longrightarrow> le_loop v = [word_of_int v]"
  by (simp add: le_loop_pos)

lemma unat_small_byte: "0 \<le> v \<Longrightarrow> v < 128 \<Longrightarrow> unat (word_of_int v :: byte) = nat v"
  by (cases v) (simp_all add: unat_of_nat)

lemma num_Bytes_small:
  assumes "v = - 1 \<or> 1 \<le> v \<and> v \<le> 16"
  shows "num_Bytes v = Inr [if v = - 1 then 0x81 else word_of_int v]"
proof (cases "v = - 1")
  case True
  then show ?thesis by (simp add: num_Bytes_def i64_id le_loop_small)
next
  case False
  then have v: "1 \<le> v" "v \<le> 16" using assms by auto
  then have "unat (word_of_int v :: byte) < 128" by (simp add: unat_small_byte nat_less_iff)
  then show ?thesis using v by (simp add: num_Bytes_def Let_def le_loop_small and_0x80_eq_0)
qed

lemma push_code_small:
  assumes "v = - 1 \<or> 1 \<le> v \<and> v \<le> 16"
  shows "push_code [if v = - 1 then 0x81 else word_of_int v] = [word_of_int ((0x51 - 1) + v)]"
proof (cases "v = - 1")
  case True
  then show ?thesis by (simp add: push_code_def addData_def NewScriptBuilder_def)
next
  case False
  then have v: "1 \<le> v" "v \<le> 16" using assms by auto
  then have u: "unat (word_of_int v :: byte) = nat v" by (simp add: unat_small_byte)
  then have "word_of_int v \<noteq> (0 :: byte)" "word_of_int v \<le> (16 :: byte)"
    using v by (auto simp: word_le_nat_alt simp flip: unat_eq_0)
  then show ?thesis using False by (simp add: push_code_def addData_def NewScriptBuilder_def)
qed

lemma AddInt64_ok:
  assumes "AddInt64 v b = Inr b'" "sb_err b' = None"
  shows "\<exists>d. num_Bytes v = Inr d \<and> b' = b\<lparr>sb_script := sb_script b @ push_code d\<rparr> \<and> sb_err b = None \<and>
    length (sb_script b') \<le> maxScriptSize \<and> length d \<le> MaxScriptElementSize"
proof -
  consider "v = 0" | "v = - 1 \<or> 1 \<le> v \<and> v \<le> 16" | "v \<noteq> 0" "\<not> (v = - 1 \<or> 1 \<le> v \<and> v \<le> 16)" by blast
  then show ?thesis
  proof cases
    case 1
    have "push_code [] = [OP_0]" by (simp add: push_code_def addData_def NewScriptBuilder_def)
    then show ?thesis using assms 1 by (auto simp: AddInt64_def num_Bytes_def split: if_splits)
  next
    case 2
    then have "v \<noteq> 0" by auto
    with 2 show ?thesis
      using assms num_Bytes_small [OF 2] push_code_small [OF 2]
      by (auto simp: AddInt64_def split: if_splits)
  next
    case 3
    then have b: "sb_err b = None" "\<not> length (sb_script b) + 1 > maxScriptSize"
      using assms by (auto simp: AddInt64_def split: if_splits)
    then have "AddInt64 v b = rbind (num_Bytes v) (\<lambda>d. Inr (AddData d b))"
      using 3 unfolding AddInt64_def by (simp only: simp_thms if_False)
    then obtain d where d: "num_Bytes v = Inr d" "b' = AddData d b" using assms(1)
      by (cases "num_Bytes v") simp_all
    then show ?thesis using AddData_ok [of d b] assms(2) by auto
  qed
qed

section \<open>Properties\<close>

text \<open>C27. A data push that the builder accepts adds exactly one instruction, which the engine takes as
  a minimal push: after \<^verbatim>\<open>AddData\<close> the script parses to the instructions it had and one more. That instruction pushes the data, with one
  exception: the builder treats the one-byte array 0 as the number zero and adds \<^verbatim>\<open>OP_0\<close>, so for that array what is pushed is the empty array and not the
  data. The size limits hold.\<close>

theorem AddData_pushes:
  assumes "parseScript (sb_script b) = (pops, None)" "sb_err (AddData data b) = None"
  shows "\<exists>p. parseScript (sb_script (AddData data b)) = (pops @ [p], None) \<and>
    pushes (if data = [0] then [] else data) p \<and>
    length data \<le> MaxScriptElementSize \<and> length (sb_script (AddData data b)) \<le> maxScriptSize"
proof -
  note ok = AddData_ok [OF assms(2)]
  then obtain p where p: "parse_ref (push_code data) = ([p], None)" "pushes (if data = [0] then [] else data) p"
    using push_code_instr [of data] by auto
  have "sb_script (AddData data b) = sb_script b @ push_code data" using ok by simp
  then show ?thesis
    using parse_ref_append [of "sb_script b" pops "push_code data"] assms(1) p ok
    by (auto simp: parseScript_ref)
qed

theorem AddData_pushes_witness:
  "\<exists>p. parseScript (sb_script (AddData [7, 8] NewScriptBuilder)) = ([] @ [p], None) \<and>
     pushes (if [7, 8] = [0 :: byte] then [] else [7, 8]) p \<and>
     length [7, 8 :: byte] \<le> MaxScriptElementSize \<and>
     length (sb_script (AddData [7, 8] NewScriptBuilder)) \<le> maxScriptSize"
  by (rule AddData_pushes)
     (simp_all add: NewScriptBuilder_def parseScript_ref AddData_def addData_def canonicalDataSize_def Let_def)

text \<open>Integers are pushed in the form the arithmetic opcodes read: when \<^verbatim>\<open>AddInt64\<close> accepts a value,
  it appends one minimal push of the value's script number encoding, also on the fast path for the
  small integers, and the script stays within the size limit.\<close>

theorem AddInt64_pushes:
  assumes "parseScript (sb_script b) = (pops, None)" "AddInt64 v b = Inr b'" "sb_err b' = None"
    "\<bar>v\<bar> < 2 ^ 63"
  shows "\<exists>p d. parseScript (sb_script b') = (pops @ [p], None) \<and> num_Bytes v = Inr d \<and> pushes d p \<and>
    length (sb_script b') \<le> maxScriptSize"
proof -
  obtain d where d: "num_Bytes v = Inr d" "b' = b\<lparr>sb_script := sb_script b @ push_code d\<rparr>"
    "length (sb_script b') \<le> maxScriptSize" "length d \<le> MaxScriptElementSize"
    using AddInt64_ok [OF assms(2,3)] by blast
  have "\<bar>v\<bar> < 128 * 256 ^ 7" using assms(4) by simp
  from num_Bytes_encodes [OF this] have "checkMinimalDataEncoding d = Inr ()" using d(1) by auto
  then have "d \<noteq> [0]" by (auto simp: checkMinimalDataEncoding_def)
  then obtain p where p: "parse_ref (push_code d) = ([p], None)" "pushes d p"
    using push_code_instr [of d] d(4) by auto
  then show ?thesis
    using parse_ref_append [of "sb_script b" pops "push_code d"] assms(1) d
    by (auto simp: parseScript_ref)
qed

theorem AddInt64_pushes_witness:
  "\<exists>p d. parseScript (sb_script \<lparr>sb_script = [0x5c], sb_err = None\<rparr>) = ([] @ [p], None) \<and>
     num_Bytes 12 = Inr d \<and> pushes d p \<and>
     length (sb_script \<lparr>sb_script = [0x5c], sb_err = None\<rparr>) \<le> maxScriptSize"
  by (rule AddInt64_pushes [of NewScriptBuilder])
     (simp_all add: NewScriptBuilder_def parseScript_ref AddInt64_def)

text \<open>\<^verbatim>\<open>AddCoinbaseHeight\<close> can exceed the script size limit it checks: it measures a height between
  1 and 16 with \<^verbatim>\<open>canonicalDataSize\<close> as one byte but appends two, so a script of 9999 bytes grows to
  10001 bytes without an error.\<close>

theorem AddCoinbaseHeight_oversize:
  assumes "sb_err b = None" "length (sb_script b) = 9999" "1 \<le> v" "v \<le> 16"
  shows "\<exists>b'. AddCoinbaseHeight v b = Inr b' \<and> sb_err b' = None \<and> length (sb_script b') = maxScriptSize + 1"
proof -
  have nb: "num_Bytes v = Inr [word_of_int v]" using num_Bytes_small [of v] assms by simp
  have "unat (word_of_int v :: byte) = nat v" using assms by (simp add: unat_small_byte)
  then have "word_of_int v \<le> (16 :: byte)" using assms by (simp add: word_le_nat_alt)
  then have "canonicalDataSize [word_of_int v] = 1" by (simp add: canonicalDataSize_def)
  then show ?thesis using assms nb by (simp add: AddCoinbaseHeight_def Let_def)
qed

theorem AddCoinbaseHeight_oversize_witness:
  "\<exists>b'. AddCoinbaseHeight 5 \<lparr>sb_script = replicate 9999 0x61, sb_err = None\<rparr> = Inr b' \<and>
     sb_err b' = None \<and> length (sb_script b') = maxScriptSize + 1"
  by (rule AddCoinbaseHeight_oversize) simp_all

end
