(* ===== verification/Wire_Tx.thy ===== *)
theory Wire_Tx
  imports Miner_Prelude
begin

text \<open>
  Transactions (\<^verbatim>\<open>src/wire/msgtx.go\<close>), their protobuf form (\<^verbatim>\<open>src/wire/pb/wirepb.pb.go\<close>) and the
  plain encoding that is hashed for the transaction id (\<^verbatim>\<open>src/wire/pb/tx.go\<close>, \<^verbatim>\<open>src/wire/pb/ec.go\<close>).
  SHA-256 is a parameter. A \<^verbatim>\<open>wire.Hash\<close> is a byte list, of length 32 in a well-formed transaction;
  a pointer that may be nil in a protobuf message is an \<open>option\<close>. Writing to a \<^verbatim>\<open>bytes.Buffer\<close> never
  fails, so the writers return the bytes.
\<close>

section \<open>Model\<close>

subsection \<open>Hashes\<close>

abbreviation (input) HashSize :: nat where "HashSize \<equiv> 32"

type_synonym hash = bytes

definition HashB :: "(bytes \<Rightarrow> bytes) \<Rightarrow> bytes \<Rightarrow> bytes" where
  "HashB sha256 b = sha256 b"

definition DoubleHashB :: "(bytes \<Rightarrow> bytes) \<Rightarrow> bytes \<Rightarrow> bytes" where
  "DoubleHashB sha256 b = sha256 (sha256 b)"

definition DoubleHashH :: "(bytes \<Rightarrow> bytes) \<Rightarrow> bytes \<Rightarrow> hash" where
  "DoubleHashH sha256 b = sha256 (sha256 b)"

subsection \<open>Transactions\<close>

record OutPoint =
  prev_Hash :: hash
  prev_Index :: u32

record TxIn =
  in_PreviousOutPoint :: OutPoint
  in_Witness :: "bytes list"
  in_Sequence :: u64

record TxOut =
  out_Value :: int
  out_PkScript :: bytes

record MsgTx =
  tx_Version :: u32
  tx_TxIn :: "TxIn list"
  tx_TxOut :: "TxOut list"
  tx_LockTime :: u64
  tx_Payload :: bytes

abbreviation (input) MaxTxInSequenceNum :: u64 where "MaxTxInSequenceNum \<equiv> 0xffffffffffffffff"
abbreviation (input) SequenceLockTimeDisabled :: u64 where "SequenceLockTimeDisabled \<equiv> 0x8000000000000000"
abbreviation (input) SequenceLockTimeIsSeconds :: u64 where "SequenceLockTimeIsSeconds \<equiv> 0x4000000000"
abbreviation (input) SequenceLockTimeMask :: u64 where "SequenceLockTimeMask \<equiv> 0xffffffff"

definition NewTxIn :: "OutPoint \<Rightarrow> bytes list \<Rightarrow> TxIn" where
  "NewTxIn prevOut witness =
     \<lparr>in_PreviousOutPoint = prevOut, in_Witness = witness, in_Sequence = MaxTxInSequenceNum\<rparr>"

definition NewTxOut :: "int \<Rightarrow> bytes \<Rightarrow> TxOut" where
  "NewTxOut v pkScript = \<lparr>out_Value = v, out_PkScript = pkScript\<rparr>"

definition NewMsgTx :: MsgTx where
  "NewMsgTx = \<lparr>tx_Version = 1, tx_TxIn = [], tx_TxOut = [], tx_LockTime = 0, tx_Payload = []\<rparr>"

definition AddTxIn :: "TxIn \<Rightarrow> MsgTx \<Rightarrow> MsgTx" where
  "AddTxIn ti msg = msg\<lparr>tx_TxIn := tx_TxIn msg @ [ti]\<rparr>"

definition AddTxOut :: "TxOut \<Rightarrow> MsgTx \<Rightarrow> MsgTx" where
  "AddTxOut to msg = msg\<lparr>tx_TxOut := tx_TxOut msg @ [to]\<rparr>"

text \<open>\<^verbatim>\<open>RemoveTxOut\<close> slices without a check: an index out of range panics.\<close>

definition RemoveTxOut :: "int \<Rightarrow> MsgTx \<Rightarrow> MsgTx option" where
  "RemoveTxOut index msg =
     (if index < 0 \<or> index \<ge> int (length (tx_TxOut msg)) then None
      else Some (msg\<lparr>tx_TxOut := take (nat index) (tx_TxOut msg) @ drop (nat index + 1) (tx_TxOut msg)\<rparr>))"

definition RemoveAllTxOut :: "MsgTx \<Rightarrow> MsgTx" where
  "RemoveAllTxOut msg = msg\<lparr>tx_TxOut := []\<rparr>"

definition SetPayload :: "bytes \<Rightarrow> MsgTx \<Rightarrow> MsgTx" where
  "SetPayload payload msg = msg\<lparr>tx_Payload := payload\<rparr>"

definition IsCoinBaseTx :: "MsgTx \<Rightarrow> bool" where
  "IsCoinBaseTx msg =
     (if tx_TxIn msg = [] then False
      else let prevOut = in_PreviousOutPoint (tx_TxIn msg ! 0)
           in \<not> (prev_Index prevOut \<noteq> 0xffffffff \<or> prev_Hash prevOut \<noteq> replicate HashSize 0))"

definition witness_PlainSize :: "bytes list \<Rightarrow> nat" where
  "witness_PlainSize t = foldl (\<lambda>n w. n + length w) 0 t"

definition TxIn_PlainSize :: "TxIn \<Rightarrow> nat" where
  "TxIn_PlainSize t = 0 + (4 + 32) + witness_PlainSize (in_Witness t) + 8"

definition TxOut_PlainSize :: "TxOut \<Rightarrow> nat" where
  "TxOut_PlainSize t = 8 + length (out_PkScript t)"

definition PlainSize :: "MsgTx \<Rightarrow> nat" where
  "PlainSize msg =
     (let n = 4;
          n = foldl (\<lambda>n ti. n + TxIn_PlainSize ti) n (tx_TxIn msg);
          n = foldl (\<lambda>n to. n + TxOut_PlainSize to) n (tx_TxOut msg)
      in n + 8 + length (tx_Payload msg))"

definition WriteUint64 :: "u64 \<Rightarrow> bytes" where
  "WriteUint64 v = put_le 8 (unat v)"

definition WriteVarBytes :: "bytes \<Rightarrow> bytes" where
  "WriteVarBytes b = b"

definition WriteTxOut :: "TxOut \<Rightarrow> bytes" where
  "WriteTxOut to = WriteUint64 (word_of_int (out_Value to)) @ WriteVarBytes (out_PkScript to)"

definition IsValidFrozenPeriod :: "u64 \<Rightarrow> bool" where
  "IsValidFrozenPeriod height = (height \<ge> 61440 \<and> height \<le> SequenceLockTimeMask - 1)"

definition IsValidAwardFrozenPeriod :: "u64 \<Rightarrow> bool" where
  "IsValidAwardFrozenPeriod height = (height \<ge> 1)"

definition IsValidPoolType :: "u16 \<Rightarrow> bool" where
  "IsValidPoolType poolType = (if poolType = 0x00 \<or> poolType = 0xff then False else True)"

definition IsValidStakingValue :: "int \<Rightarrow> bool" where
  "IsValidStakingValue v = (v \<ge> 2048 * 100000000)"

subsection \<open>Protobuf form\<close>

record pb_Hash =
  S0 :: u64
  S1 :: u64
  S2 :: u64
  S3 :: u64

record pb_OutPoint =
  pbo_Hash :: "pb_Hash option"
  pbo_Index :: u32

record pb_TxIn =
  pbi_PreviousOutPoint :: "pb_OutPoint option"
  pbi_Witness :: "bytes list"
  pbi_Sequence :: u64

record pb_TxOut =
  pbt_Value :: int
  pbt_PkScript :: bytes

record pb_Tx =
  pb_Version :: u32
  pb_TxIns :: "pb_TxIn option list"
  pb_TxOuts :: "pb_TxOut option list"
  pb_LockTime :: u64
  pb_Payload :: bytes

text \<open>\<^verbatim>\<open>binary.BigEndian\<close>: the byte order opposite to \<open>put_le\<close> and \<open>le_val\<close>.\<close>

definition be_uint64 :: "bytes \<Rightarrow> u64" where
  "be_uint64 b = of_nat (le_val (rev b))"

definition be_put64 :: "u64 \<Rightarrow> bytes" where
  "be_put64 v = rev (put_le 8 (unat v))"

definition Hash_ToProto :: "hash \<Rightarrow> pb_Hash" where
  "Hash_ToProto h =
     \<lparr>S0 = be_uint64 (take 8 h), S1 = be_uint64 (take 8 (drop 8 h)),
      S2 = be_uint64 (take 8 (drop 16 h)), S3 = be_uint64 (take 8 (drop 24 h))\<rparr>"

datatype wire_error = WireText string

definition Hash_FromProto :: "pb_Hash option \<Rightarrow> wire_error + hash" where
  "Hash_FromProto pb =
     (case pb of None \<Rightarrow> Inl (WireText ''nil proto hash'')
      | Some p \<Rightarrow> Inr (be_put64 (S0 p) @ be_put64 (S1 p) @ be_put64 (S2 p) @ be_put64 (S3 p)))"

definition MoveBytes :: "bytes \<Rightarrow> bytes" where
  "MoveBytes bs = (if length bs = 0 then [] else bs)"

definition TxIn_ToProto :: "TxIn \<Rightarrow> pb_TxIn" where
  "TxIn_ToProto ti =
     \<lparr>pbi_PreviousOutPoint = Some \<lparr>pbo_Hash = Some (Hash_ToProto (prev_Hash (in_PreviousOutPoint ti))),
                                  pbo_Index = prev_Index (in_PreviousOutPoint ti)\<rparr>,
      pbi_Witness = map (\<lambda>data. data) (in_Witness ti), pbi_Sequence = in_Sequence ti\<rparr>"

definition ToProto :: "MsgTx \<Rightarrow> pb_Tx" where
  "ToProto msg =
     \<lparr>pb_Version = tx_Version msg,
      pb_TxIns = map (\<lambda>ti. Some (TxIn_ToProto ti)) (tx_TxIn msg),
      pb_TxOuts = map (\<lambda>to. Some \<lparr>pbt_Value = out_Value to, pbt_PkScript = out_PkScript to\<rparr>) (tx_TxOut msg),
      pb_LockTime = tx_LockTime msg, pb_Payload = tx_Payload msg\<rparr>"

primrec rmap :: "('a \<Rightarrow> 'e + 'b) \<Rightarrow> 'a list \<Rightarrow> 'e + 'b list" where
  "rmap f [] = Inr []"
| "rmap f (x # xs) = rbind (f x) (\<lambda>y. rbind (rmap f xs) (\<lambda>ys. Inr (y # ys)))"

definition TxIn_FromProto :: "pb_TxIn option \<Rightarrow> wire_error + TxIn" where
  "TxIn_FromProto pb =
     (case pb of None \<Rightarrow> Inl (WireText ''nil proto tx_in'')
      | Some ti \<Rightarrow>
        (case pbi_PreviousOutPoint ti of None \<Rightarrow> Inl (WireText ''nil proto out_point'')
         | Some op \<Rightarrow>
           rbind (Hash_FromProto (pbo_Hash op)) (\<lambda>opHash.
             Inr \<lparr>in_PreviousOutPoint = \<lparr>prev_Hash = opHash, prev_Index = pbo_Index op\<rparr>,
                  in_Witness = map MoveBytes (pbi_Witness ti), in_Sequence = pbi_Sequence ti\<rparr>)))"

definition TxOut_FromProto :: "pb_TxOut option \<Rightarrow> wire_error + TxOut" where
  "TxOut_FromProto pb =
     (case pb of None \<Rightarrow> Inl (WireText ''nil proto tx_out'')
      | Some to \<Rightarrow> Inr \<lparr>out_Value = pbt_Value to, out_PkScript = MoveBytes (pbt_PkScript to)\<rparr>)"

definition FromProto :: "pb_Tx option \<Rightarrow> wire_error + MsgTx" where
  "FromProto pbo =
     (case pbo of None \<Rightarrow> Inl (WireText ''nil proto tx'')
      | Some pb \<Rightarrow>
        rbind (rmap TxIn_FromProto (pb_TxIns pb)) (\<lambda>txIns.
        rbind (rmap TxOut_FromProto (pb_TxOuts pb)) (\<lambda>txOuts.
        Inr \<lparr>tx_Version = pb_Version pb, tx_TxIn = txIns, tx_TxOut = txOuts,
             tx_LockTime = pb_LockTime pb, tx_Payload = MoveBytes (pb_Payload pb)\<rparr>)))"

definition NewTxFromProto :: "pb_Tx option \<Rightarrow> wire_error + MsgTx" where
  "NewTxFromProto pb = FromProto pb"

subsection \<open>Plain encoding and transaction id\<close>

text \<open>
  The writers dereference the pointers of the message without a check; on the messages \<^verbatim>\<open>ToProto\<close>
  builds none is nil. \<open>None\<close> is the nil dereference.
\<close>

definition pb_Hash_Bytes :: "pb_Hash \<Rightarrow> bytes" where
  "pb_Hash_Bytes m =
     put_le 8 (unat (S0 m)) @ put_le 8 (unat (S1 m)) @ put_le 8 (unat (S2 m)) @ put_le 8 (unat (S3 m))"

definition pb_OutPoint_Bytes :: "pb_OutPoint \<Rightarrow> bytes option" where
  "pb_OutPoint_Bytes m =
     map_option (\<lambda>h. pb_Hash_Bytes h @ put_le 4 (unat (pbo_Index m))) (pbo_Hash m)"

definition pb_TxIn_Bytes :: "pb_TxIn \<Rightarrow> bytes option" where
  "pb_TxIn_Bytes m =
     (case pbi_PreviousOutPoint m of None \<Rightarrow> None
      | Some op \<Rightarrow> map_option (\<lambda>b. b @ concat (pbi_Witness m) @ put_le 8 (unat (pbi_Sequence m)))
          (pb_OutPoint_Bytes op))"

definition pb_TxIn_BytesNoWitness :: "pb_TxIn \<Rightarrow> bytes option" where
  "pb_TxIn_BytesNoWitness m =
     (case pbi_PreviousOutPoint m of None \<Rightarrow> None
      | Some op \<Rightarrow> map_option (\<lambda>b. b @ put_le 8 (unat (pbi_Sequence m))) (pb_OutPoint_Bytes op))"

definition pb_TxOut_Bytes :: "pb_TxOut \<Rightarrow> bytes" where
  "pb_TxOut_Bytes m = put_le 8 (unat (word_of_int (pbt_Value m) :: u64)) @ pbt_PkScript m"

primrec write_all :: "('a \<Rightarrow> bytes option) \<Rightarrow> 'a option list \<Rightarrow> bytes option" where
  "write_all f [] = Some []"
| "write_all f (x # xs) =
     (case Option.bind x f of None \<Rightarrow> None
      | Some b \<Rightarrow> map_option (\<lambda>r. b @ r) (write_all f xs))"

definition pb_Tx_Write :: "pb_Tx \<Rightarrow> bytes option" where
  "pb_Tx_Write m =
     (case write_all pb_TxIn_Bytes (pb_TxIns m) of None \<Rightarrow> None
      | Some ins \<Rightarrow>
        map_option (\<lambda>outs. put_le 4 (unat (pb_Version m)) @ ins @ outs @
            put_le 8 (unat (pb_LockTime m)) @ pb_Payload m)
          (write_all (\<lambda>o'. Some (pb_TxOut_Bytes o')) (pb_TxOuts m)))"

definition pb_Tx_WriteNoWitness :: "pb_Tx \<Rightarrow> bytes option" where
  "pb_Tx_WriteNoWitness m =
     (case write_all pb_TxIn_BytesNoWitness (pb_TxIns m) of None \<Rightarrow> None
      | Some ins \<Rightarrow>
        map_option (\<lambda>outs. put_le 4 (unat (pb_Version m)) @ ins @ outs @
            put_le 8 (unat (pb_LockTime m)) @ pb_Payload m)
          (write_all (\<lambda>o'. Some (pb_TxOut_Bytes o')) (pb_TxOuts m)))"

text \<open>\<^verbatim>\<open>TxHash\<close> hashes the encoding in mode \<^verbatim>\<open>ID\<close>, \<^verbatim>\<open>WitnessHash\<close> the one in mode \<^verbatim>\<open>WitnessID\<close>.\<close>

definition TxHash :: "(bytes \<Rightarrow> bytes) \<Rightarrow> MsgTx \<Rightarrow> hash option" where
  "TxHash sha256 msg = map_option (DoubleHashH sha256) (pb_Tx_WriteNoWitness (ToProto msg))"

definition WitnessHash :: "(bytes \<Rightarrow> bytes) \<Rightarrow> MsgTx \<Rightarrow> hash option" where
  "WitnessHash sha256 msg = map_option (DoubleHashH sha256) (pb_Tx_Write (ToProto msg))"

section \<open>Protobuf round trip\<close>

definition wf_tx :: "MsgTx \<Rightarrow> bool" where
  "wf_tx tx \<longleftrightarrow> (\<forall>ti \<in> set (tx_TxIn tx). length (prev_Hash (in_PreviousOutPoint ti)) = HashSize)"

lemma MoveBytes_id [simp]: "MoveBytes b = b"
  by (simp add: MoveBytes_def)

lemma map_MoveBytes [simp]: "map MoveBytes bs = bs"
  by (simp add: map_idI)

lemma be_uint64_put64 [simp]: "be_uint64 (be_put64 v) = v"
proof -
  have "unat v < 256 ^ 8" using unsigned_less [of v] by simp
  then show ?thesis by (simp add: be_uint64_def be_put64_def le_val_put_le)
qed

lemma length_be_put64 [simp]: "length (be_put64 v) = 8"
  by (simp add: be_put64_def)

lemma be_put64_uint64 [simp]: "length b = 8 \<Longrightarrow> be_put64 (be_uint64 b) = b"
proof -
  assume b: "length b = 8"
  have "le_val (rev b) < 2 ^ 64" using le_val_bound [of "rev b"] b by simp
  then have "unat (of_nat (le_val (rev b)) :: u64) = le_val (rev b)" by (simp add: unat_of_nat)
  then show ?thesis using put_le_le_val [of "rev b"] b by (simp add: be_put64_def be_uint64_def)
qed

lemma Hash_proto_roundtrip: "length h = HashSize \<Longrightarrow> Hash_FromProto (Some (Hash_ToProto h)) = Inr h"
proof -
  assume h: "length h = HashSize"
  have "take 8 h @ take 8 (drop 8 h) @ take 8 (drop 16 h) @ take 8 (drop 24 h) = take (8 + 8 + 8 + 8) h"
    unfolding take_add by (simp add: add.commute)
  then show ?thesis using h by (simp add: Hash_FromProto_def Hash_ToProto_def)
qed

lemma Hash_FromProto_Some: "Hash_FromProto p = Inr h \<Longrightarrow> p = Some (Hash_ToProto h) \<and> length h = HashSize"
  by (cases p) (auto simp: Hash_FromProto_def Hash_ToProto_def)

lemma TxIn_proto_roundtrip:
  "length (prev_Hash (in_PreviousOutPoint ti)) = HashSize \<Longrightarrow> TxIn_FromProto (Some (TxIn_ToProto ti)) = Inr ti"
  by (simp add: TxIn_FromProto_def TxIn_ToProto_def Hash_proto_roundtrip)

lemma TxIn_FromProto_Some:
  "TxIn_FromProto p = Inr ti \<Longrightarrow>
     p = Some (TxIn_ToProto ti) \<and> length (prev_Hash (in_PreviousOutPoint ti)) = HashSize"
  by (auto simp: TxIn_FromProto_def TxIn_ToProto_def rbind_eq_Inr split: option.splits
      dest!: Hash_FromProto_Some intro!: pb_TxIn.equality pb_OutPoint.equality)

lemma rmap_ok: "(\<And>x. x \<in> set xs \<Longrightarrow> f (g x) = Inr x) \<Longrightarrow> rmap f (map g xs) = Inr xs"
  by (induction xs) simp_all

lemma rmap_inv:
  "rmap f ys = Inr xs \<Longrightarrow> (\<And>y x. f y = Inr x \<Longrightarrow> y = g x \<and> P x) \<Longrightarrow> ys = map g xs \<and> list_all P xs"
  by (induction ys arbitrary: xs) (auto simp: rbind_eq_Inr)

interpretation tx_proto: codec wf_tx ToProto "\<lambda>_. True" "\<lambda>pb. FromProto (Some pb)"
proof
  fix tx :: MsgTx assume tx: "wf_tx tx"
  have i: "rmap TxIn_FromProto (map (\<lambda>ti. Some (TxIn_ToProto ti)) (tx_TxIn tx)) = Inr (tx_TxIn tx)"
    using tx by (intro rmap_ok) (simp add: wf_tx_def TxIn_proto_roundtrip)
  have o: "rmap TxOut_FromProto (map (\<lambda>to. Some \<lparr>pbt_Value = out_Value to, pbt_PkScript = out_PkScript to\<rparr>)
      (tx_TxOut tx)) = Inr (tx_TxOut tx)"
    by (intro rmap_ok) (simp add: TxOut_FromProto_def)
  show "FromProto (Some (ToProto tx)) = Inr tx" using i o by (simp add: FromProto_def ToProto_def)
next
  fix pb tx assume "FromProto (Some pb) = Inr tx"
  then obtain ins outs where r: "rmap TxIn_FromProto (pb_TxIns pb) = Inr ins"
    "rmap TxOut_FromProto (pb_TxOuts pb) = Inr outs"
    and tx: "tx = \<lparr>tx_Version = pb_Version pb, tx_TxIn = ins, tx_TxOut = outs,
      tx_LockTime = pb_LockTime pb, tx_Payload = pb_Payload pb\<rparr>"
    by (auto simp: FromProto_def rbind_eq_Inr)
  have "pb_TxIns pb = map (\<lambda>ti. Some (TxIn_ToProto ti)) ins \<and>
      list_all (\<lambda>ti. length (prev_Hash (in_PreviousOutPoint ti)) = HashSize) ins"
    by (rule rmap_inv [OF r(1) TxIn_FromProto_Some])
  moreover have "pb_TxOuts pb = map (\<lambda>to. Some \<lparr>pbt_Value = out_Value to, pbt_PkScript = out_PkScript to\<rparr>) outs
      \<and> list_all (\<lambda>_. True) outs"
    by (rule rmap_inv [OF r(2)]) (auto simp: TxOut_FromProto_def split: option.splits)
  ultimately show "wf_tx tx \<and> ToProto tx = pb"
    using tx by (simp add: wf_tx_def ToProto_def list_all_iff)
qed simp

section \<open>The plain encoding\<close>

definition outpoint_bytes :: "OutPoint \<Rightarrow> bytes" where
  "outpoint_bytes op = pb_Hash_Bytes (Hash_ToProto (prev_Hash op)) @ put_le 4 (unat (prev_Index op))"

lemma write_all_map:
  "(\<And>x. x \<in> set xs \<Longrightarrow> f (g x) = Some (h x)) \<Longrightarrow>
     write_all f (map (\<lambda>x. Some (g x)) xs) = Some (concat (map h xs))"
  by (induction xs) simp_all

lemma write_ins:
  "write_all pb_TxIn_Bytes (map (\<lambda>ti. Some (TxIn_ToProto ti)) ins) =
     Some (concat (map (\<lambda>ti. outpoint_bytes (in_PreviousOutPoint ti) @ concat (in_Witness ti) @
       put_le 8 (unat (in_Sequence ti))) ins))"
  by (rule write_all_map)
     (simp add: pb_TxIn_Bytes_def TxIn_ToProto_def pb_OutPoint_Bytes_def outpoint_bytes_def)

lemma write_ins_no_witness:
  "write_all pb_TxIn_BytesNoWitness (map (\<lambda>ti. Some (TxIn_ToProto ti)) ins) =
     Some (concat (map (\<lambda>ti. outpoint_bytes (in_PreviousOutPoint ti) @ put_le 8 (unat (in_Sequence ti))) ins))"
  by (rule write_all_map)
     (simp add: pb_TxIn_BytesNoWitness_def TxIn_ToProto_def pb_OutPoint_Bytes_def outpoint_bytes_def)

lemma write_outs:
  "write_all (\<lambda>o'. Some (pb_TxOut_Bytes o'))
     (map (\<lambda>to. Some \<lparr>pbt_Value = out_Value to, pbt_PkScript = out_PkScript to\<rparr>) outs) =
     Some (concat (map WriteTxOut outs))"
  by (rule write_all_map) (simp add: pb_TxOut_Bytes_def WriteTxOut_def WriteUint64_def WriteVarBytes_def)

lemmas plain_encoding = write_ins write_ins_no_witness write_outs

lemma TxHash_eq:
  "TxHash sha256 tx = Some (DoubleHashH sha256 (put_le 4 (unat (tx_Version tx)) @
     concat (map (\<lambda>ti. outpoint_bytes (in_PreviousOutPoint ti) @ put_le 8 (unat (in_Sequence ti))) (tx_TxIn tx)) @
     concat (map WriteTxOut (tx_TxOut tx)) @ put_le 8 (unat (tx_LockTime tx)) @ tx_Payload tx))"
  by (simp add: TxHash_def pb_Tx_WriteNoWitness_def ToProto_def plain_encoding)

lemma foldl_plus: "foldl (\<lambda>n x. n + f x) (m :: nat) xs = m + sum_list (map f xs)"
  by (induction xs arbitrary: m) simp_all

section \<open>Properties\<close>

text \<open>C28. Converting a transaction to its protobuf message and back gives the transaction, and every
  message that is accepted is the one its transaction converts to: nothing is lost or invented on
  the wire or in the database.\<close>

theorem tx_proto_roundtrip:
  assumes "wf_tx tx"
  shows "NewTxFromProto (Some pb) = Inr tx \<longleftrightarrow> ToProto tx = pb"
  using tx_proto.dec_enc_iff [of pb tx] assms by (simp add: NewTxFromProto_def)

theorem tx_proto_roundtrip_witness:
  "let tx = AddTxIn (NewTxIn \<lparr>prev_Hash = replicate 32 7, prev_Index = 1\<rparr> [[1], []]) NewMsgTx
   in NewTxFromProto (Some (ToProto tx)) = Inr tx"
  unfolding Let_def
  by (rule tx_proto_roundtrip [THEN iffD2]) (simp_all add: wf_tx_def AddTxIn_def NewTxIn_def NewMsgTx_def)

text \<open>C29. \<^verbatim>\<open>PlainSize\<close> is the length of the plain encoding it predicts.\<close>

theorem PlainSize_exact: "map_option length (pb_Tx_Write (ToProto msg)) = Some (PlainSize msg)"
proof -
  have "length (concat (map (\<lambda>ti. outpoint_bytes (in_PreviousOutPoint ti) @ concat (in_Witness ti) @
      put_le 8 (unat (in_Sequence ti))) ins)) = sum_list (map TxIn_PlainSize ins)" for ins
    by (induction ins) (simp_all add: TxIn_PlainSize_def witness_PlainSize_def outpoint_bytes_def
        pb_Hash_Bytes_def length_concat foldl_plus)
  moreover have "length (concat (map WriteTxOut outs)) = sum_list (map TxOut_PlainSize outs)" for outs
    by (induction outs) (simp_all add: TxOut_PlainSize_def WriteTxOut_def WriteUint64_def WriteVarBytes_def)
  ultimately show ?thesis
    by (simp add: pb_Tx_Write_def ToProto_def plain_encoding PlainSize_def foldl_plus)
qed

text \<open>The transaction id does not depend on the witnesses: replacing them leaves \<^verbatim>\<open>TxHash\<close>
  unchanged.\<close>

theorem TxHash_ignores_witness:
  "TxHash sha256 (tx\<lparr>tx_TxIn := map (\<lambda>ti. ti\<lparr>in_Witness := w ti\<rparr>) (tx_TxIn tx)\<rparr>) = TxHash sha256 tx"
  by (simp add: TxHash_eq comp_def)

text \<open>C30. The transaction id does not determine the outputs, whatever the hash function: the hashed
  encoding has neither counts nor lengths, so a transaction with two final outputs and the one with a
  single output whose script is the first script followed by the bytes of the second output have
  the same \<^verbatim>\<open>TxHash\<close>.\<close>

theorem TxHash_output_collision:
  "let tx1 = tx\<lparr>tx_TxOut := outs @ [a, b]\<rparr>;
       tx2 = tx\<lparr>tx_TxOut := outs @ [a\<lparr>out_PkScript := out_PkScript a @ WriteTxOut b\<rparr>]\<rparr>
   in tx1 \<noteq> tx2 \<and> TxHash sha256 tx1 = TxHash sha256 tx2"
proof -
  have "outs @ [a, b] \<noteq> outs @ [a\<lparr>out_PkScript := out_PkScript a @ WriteTxOut b\<rparr>]" by simp
  then have "tx\<lparr>tx_TxOut := outs @ [a, b]\<rparr> \<noteq> tx\<lparr>tx_TxOut := outs @ [a\<lparr>out_PkScript := out_PkScript a @ WriteTxOut b\<rparr>]\<rparr>"
    by (metis MsgTx.select_convs(3) MsgTx.surjective MsgTx.update_convs(3))
  then show ?thesis by (simp add: TxHash_eq WriteTxOut_def WriteVarBytes_def)
qed

end
