(* ===== verification/Sighash.thy ===== *)
theory Sighash
  imports Script_Parse Wire_Tx
begin

text \<open>
  The message a signature signs: \<^verbatim>\<open>calcWitnessSignatureHash\<close> and the partial hashes it takes from
  \<^verbatim>\<open>TxSigHashes\<close> (\<^verbatim>\<open>src/txscript/script.go\<close>, \<^verbatim>\<open>src/txscript/hashcache.go\<close>), and the cache of partial
  hashes keyed by transaction id. SHA-256 is the parameter \<open>sha\<close>.
\<close>

section \<open>Model\<close>

definition zeroHash :: hash where
  "zeroHash = replicate HashSize 0"

definition calcHashPrevOuts :: "(bytes \<Rightarrow> bytes) \<Rightarrow> MsgTx \<Rightarrow> hash" where
  "calcHashPrevOuts sha tx =
     DoubleHashH sha (concat (map (\<lambda>ti. prev_Hash (in_PreviousOutPoint ti) @
       put_le 4 (unat (prev_Index (in_PreviousOutPoint ti)))) (tx_TxIn tx)))"

definition calcHashSequence :: "(bytes \<Rightarrow> bytes) \<Rightarrow> MsgTx \<Rightarrow> hash" where
  "calcHashSequence sha tx =
     DoubleHashH sha (concat (map (\<lambda>ti. put_le 8 (unat (in_Sequence ti))) (tx_TxIn tx)))"

definition calcHashOutputs :: "(bytes \<Rightarrow> bytes) \<Rightarrow> MsgTx \<Rightarrow> hash" where
  "calcHashOutputs sha tx = DoubleHashH sha (concat (map WriteTxOut (tx_TxOut tx)))"

record TxSigHashes =
  HashPrevOuts :: hash
  HashSequence :: hash
  HashOutputs :: hash
  sh_TxVersion :: bytes
  sh_TxLockTime :: bytes

definition NewTxSigHashes :: "(bytes \<Rightarrow> bytes) \<Rightarrow> MsgTx \<Rightarrow> TxSigHashes" where
  "NewTxSigHashes sha tx =
     \<lparr>HashPrevOuts = calcHashPrevOuts sha tx, HashSequence = calcHashSequence sha tx,
      HashOutputs = calcHashOutputs sha tx, sh_TxVersion = put_le 4 (unat (tx_Version tx)),
      sh_TxLockTime = put_le 8 (unat (tx_LockTime tx))\<rparr>"

definition calcWitnessSignatureHash ::
  "(bytes \<Rightarrow> bytes) \<Rightarrow> parsedOpcode list \<Rightarrow> TxSigHashes \<Rightarrow> u32 \<Rightarrow> MsgTx \<Rightarrow> int \<Rightarrow> int \<Rightarrow> bytes res" where
  "calcWitnessSignatureHash sha subScript sigHashes hashType tx idx amt =
     (if idx > int (length (tx_TxIn tx)) - 1 then Inl (ErrorText ''idx but txins'')
      else if idx < 0 then Inl GoPanic
      else let
        b1 = sh_TxVersion sigHashes;
        b2 = (if hashType AND SigHashAnyOneCanPay = 0 then HashPrevOuts sigHashes else zeroHash);
        b3 = (if hashType AND SigHashAnyOneCanPay = 0 \<and> hashType AND sigHashMask \<noteq> SigHashSingle \<and>
                 hashType AND sigHashMask \<noteq> SigHashNone
              then HashSequence sigHashes else zeroHash);
        txIn = tx_TxIn tx ! nat idx;
        b4 = prev_Hash (in_PreviousOutPoint txIn) @ put_le 4 (unat (prev_Index (in_PreviousOutPoint txIn)));
        rawScript = (case unparseScript subScript of Inl _ \<Rightarrow> [] | Inr b \<Rightarrow> b);
        b5 = WriteVarBytes rawScript;
        b6 = put_le 8 (unat (word_of_int amt :: u64));
        b7 = put_le 8 (unat (in_Sequence txIn));
        b8 = tx_Payload tx;
        b9 = (if hashType AND SigHashSingle \<noteq> SigHashSingle \<and> hashType AND SigHashNone \<noteq> SigHashNone
              then HashOutputs sigHashes
              else if hashType AND sigHashMask = SigHashSingle \<and> idx < int (length (tx_TxOut tx))
              then DoubleHashB sha (WriteTxOut (tx_TxOut tx ! nat idx))
              else zeroHash);
        b10 = sh_TxLockTime sigHashes;
        b11 = put_le 4 (unat hashType)
      in Inr (DoubleHashB sha (b1 @ b2 @ b3 @ b4 @ b5 @ b6 @ b7 @ b8 @ b9 @ b10 @ b11)))"

subsection \<open>The cache of partial hashes\<close>

type_synonym HashCache = "hash \<rightharpoonup> TxSigHashes"

definition NewHashCache :: "nat \<Rightarrow> HashCache" where
  "NewHashCache maxSize = Map.empty"

text \<open>\<^verbatim>\<open>TxHash\<close> of a transaction in memory always returns; see \<open>TxHash_eq\<close>.\<close>

definition AddSigHashes :: "(bytes \<Rightarrow> bytes) \<Rightarrow> MsgTx \<Rightarrow> HashCache \<Rightarrow> HashCache" where
  "AddSigHashes sha tx h = h(the (TxHash sha tx) \<mapsto> NewTxSigHashes sha tx)"

definition ContainsHashes :: "hash \<Rightarrow> HashCache \<Rightarrow> bool" where
  "ContainsHashes txid h = (h txid \<noteq> None)"

definition GetSigHashes :: "hash \<Rightarrow> HashCache \<Rightarrow> TxSigHashes option" where
  "GetSigHashes txid h = h txid"

definition PurgeSigHashes :: "hash \<Rightarrow> HashCache \<Rightarrow> HashCache" where
  "PurgeSigHashes txid h = h(txid := None)"

section \<open>What the digest commits to\<close>

text \<open>The bytes hashed for \<^verbatim>\<open>SigHashAll\<close>.\<close>

definition all_preimage :: "(bytes \<Rightarrow> bytes) \<Rightarrow> bytes \<Rightarrow> MsgTx \<Rightarrow> nat \<Rightarrow> int \<Rightarrow> bytes" where
  "all_preimage sha raw tx i amt =
     put_le 4 (unat (tx_Version tx)) @ calcHashPrevOuts sha tx @ calcHashSequence sha tx @
     (prev_Hash (in_PreviousOutPoint (tx_TxIn tx ! i)) @
      put_le 4 (unat (prev_Index (in_PreviousOutPoint (tx_TxIn tx ! i))))) @
     raw @ put_le 8 (unat (word_of_int amt :: u64)) @ put_le 8 (unat (in_Sequence (tx_TxIn tx ! i))) @
     tx_Payload tx @ calcHashOutputs sha tx @ put_le 8 (unat (tx_LockTime tx)) @ put_le 4 1"

lemma sighash_all:
  assumes "i < length (tx_TxIn tx)" "unparseScript sub = Inr raw"
  shows "calcWitnessSignatureHash sha sub (NewTxSigHashes sha tx) SigHashAll tx (int i) amt =
    Inr (DoubleHashB sha (all_preimage sha raw tx i amt))"
  using assms
  by (simp add: calcWitnessSignatureHash_def Let_def NewTxSigHashes_def all_preimage_def WriteVarBytes_def)

text \<open>
  The strings hashed on the way to the digest: each string of a double hash and its first hash
  value. A function onto 32 bytes always has collisions; what counts is that there is none among
  these strings.
\<close>

definition hashed :: "(bytes \<Rightarrow> bytes) \<Rightarrow> bytes \<Rightarrow> bytes set" where
  "hashed sha b = {b, sha b}"

definition prevouts_bytes :: "MsgTx \<Rightarrow> bytes" where
  "prevouts_bytes tx = concat (map (\<lambda>ti. prev_Hash (in_PreviousOutPoint ti) @
     put_le 4 (unat (prev_Index (in_PreviousOutPoint ti)))) (tx_TxIn tx))"

definition sequence_bytes :: "MsgTx \<Rightarrow> bytes" where
  "sequence_bytes tx = concat (map (\<lambda>ti. put_le 8 (unat (in_Sequence ti))) (tx_TxIn tx))"

definition outputs_bytes :: "MsgTx \<Rightarrow> bytes" where
  "outputs_bytes tx = concat (map WriteTxOut (tx_TxOut tx))"

definition sighash_strings :: "(bytes \<Rightarrow> bytes) \<Rightarrow> bytes \<Rightarrow> MsgTx \<Rightarrow> nat \<Rightarrow> int \<Rightarrow> bytes set" where
  "sighash_strings sha raw tx i amt =
     hashed sha (prevouts_bytes tx) \<union> hashed sha (sequence_bytes tx) \<union>
     hashed sha (outputs_bytes tx) \<union> hashed sha (all_preimage sha raw tx i amt)"

lemma DoubleHash_inj:
  assumes "inj_on sha S" "hashed sha x \<subseteq> S" "hashed sha y \<subseteq> S"
  shows "DoubleHashB sha x = DoubleHashB sha y \<Longrightarrow> x = y" "DoubleHashH sha x = DoubleHashH sha y \<Longrightarrow> x = y"
proof -
  have "x \<in> S" "y \<in> S" "sha x \<in> S" "sha y \<in> S" using assms(2,3) by (auto simp: hashed_def)
  then have "sha (sha x) = sha (sha y) \<Longrightarrow> x = y" using assms(1) by (metis inj_onD)
  then show "DoubleHashB sha x = DoubleHashB sha y \<Longrightarrow> x = y" "DoubleHashH sha x = DoubleHashH sha y \<Longrightarrow> x = y"
    by (simp_all add: DoubleHashB_def DoubleHashH_def)
qed

lemma put_le_inj: "put_le k m = put_le k n \<Longrightarrow> m < 256 ^ k \<Longrightarrow> n < 256 ^ k \<Longrightarrow> m = n"
  by (metis le_val_put_le mod_less)

lemma put_le_u64: "put_le 8 (unat (v :: u64)) = put_le 8 (unat w) \<longleftrightarrow> v = w"
  using put_le_inj [of 8 "unat v" "unat w"] unsigned_less [of v] unsigned_less [of w]
  by (auto simp: word_unat_eq_iff)

lemma put_le_u32: "put_le 4 (unat (v :: u32)) = put_le 4 (unat w) \<longleftrightarrow> v = w"
  using put_le_inj [of 4 "unat v" "unat w"] unsigned_less [of v] unsigned_less [of w]
  by (auto simp: word_unat_eq_iff)

lemma length_DoubleHash [simp]:
  "\<forall>x. length (sha x) = 32 \<Longrightarrow> length (DoubleHashH sha b) = 32"
  by (simp add: DoubleHashH_def)

text \<open>Records of a fixed length can be read back from their concatenation.\<close>

lemma concat_fixed_inj:
  "concat (map f xs) = concat (map f ys) \<Longrightarrow>
   (\<And>x. x \<in> set xs \<union> set ys \<Longrightarrow> length (f x) = k) \<Longrightarrow> 0 < k \<Longrightarrow> map f xs = map f ys"
proof (induction xs arbitrary: ys)
  case Nil
  then show ?case by (cases ys) auto
next
  case (Cons x xs)
  then show ?case by (cases ys) (auto simp: append_eq_append_conv)
qed

definition outpoints :: "MsgTx \<Rightarrow> OutPoint list" where
  "outpoints tx = map in_PreviousOutPoint (tx_TxIn tx)"

lemma prevouts_bytes_inj:
  assumes "wf_tx tx" "wf_tx tx'" "prevouts_bytes tx = prevouts_bytes tx'"
  shows "outpoints tx = outpoints tx'"
proof -
  let ?f = "\<lambda>op. prev_Hash op @ put_le 4 (unat (prev_Index op))"
  have len: "length (?f op) = 36" if "op \<in> set (outpoints tx) \<union> set (outpoints tx')" for op
    using that assms(1,2) by (auto simp: outpoints_def wf_tx_def)
  have "concat (map ?f (outpoints tx)) = concat (map ?f (outpoints tx'))"
    using assms(3) by (simp add: prevouts_bytes_def outpoints_def comp_def)
  then have eq: "map ?f (outpoints tx) = map ?f (outpoints tx')"
    by (rule concat_fixed_inj [where k = 36]) (use len in auto)
  have inj: "inj_on ?f (set (outpoints tx) \<union> set (outpoints tx'))"
  proof (rule inj_onI)
    fix a b assume ab: "a \<in> set (outpoints tx) \<union> set (outpoints tx')"
      "b \<in> set (outpoints tx) \<union> set (outpoints tx')" "?f a = ?f b"
    have "length (prev_Hash a) = length (prev_Hash b)" using len [OF ab(1)] len [OF ab(2)] by simp
    with ab(3) have "prev_Hash a = prev_Hash b" "prev_Index a = prev_Index b"
      by (simp_all add: put_le_u32)
    then show "a = b" by simp
  qed
  show ?thesis using eq inj by (metis map_inj_on)
qed

lemma sequence_bytes_inj:
  assumes "sequence_bytes tx = sequence_bytes tx'"
  shows "map in_Sequence (tx_TxIn tx) = map in_Sequence (tx_TxIn tx')"
proof -
  let ?f = "\<lambda>s :: u64. put_le 8 (unat s)"
  have "concat (map ?f (map in_Sequence (tx_TxIn tx))) = concat (map ?f (map in_Sequence (tx_TxIn tx')))"
    using assms by (simp add: sequence_bytes_def comp_def)
  then have "map ?f (map in_Sequence (tx_TxIn tx)) = map ?f (map in_Sequence (tx_TxIn tx'))"
    by (rule concat_fixed_inj [where k = 8]) auto
  moreover have "inj ?f" by (rule injI) (simp add: put_le_u64)
  ultimately show ?thesis by (simp only: inj_map_eq_map)
qed

lemma all_preimage_commits:
  assumes "\<forall>x. length (sha x) = 32" "wf_tx tx" "wf_tx tx'"
    "i < length (tx_TxIn tx)" "j < length (tx_TxIn tx')"
    "length raw = length raw'" "length (tx_Payload tx) = length (tx_Payload tx')"
    "all_preimage sha raw tx i amt = all_preimage sha raw' tx' j amt'"
  shows "tx_Version tx = tx_Version tx' \<and> calcHashPrevOuts sha tx = calcHashPrevOuts sha tx' \<and>
    calcHashSequence sha tx = calcHashSequence sha tx' \<and> raw = raw' \<and>
    (word_of_int amt :: u64) = word_of_int amt' \<and> tx_Payload tx = tx_Payload tx' \<and>
    calcHashOutputs sha tx = calcHashOutputs sha tx' \<and> tx_LockTime tx = tx_LockTime tx' \<and>
    in_PreviousOutPoint (tx_TxIn tx ! i) = in_PreviousOutPoint (tx_TxIn tx' ! j)"
proof -
  have h: "length (prev_Hash (in_PreviousOutPoint (tx_TxIn tx ! i))) =
      length (prev_Hash (in_PreviousOutPoint (tx_TxIn tx' ! j)))"
    using assms(2-5) by (simp add: wf_tx_def)
  have l: "length (calcHashPrevOuts sha t) = 32" "length (calcHashSequence sha t) = 32"
    "length (calcHashOutputs sha t) = 32" for t
    using assms(1) by (simp_all add: calcHashPrevOuts_def calcHashSequence_def calcHashOutputs_def)
  have "prev_Hash (in_PreviousOutPoint (tx_TxIn tx ! i)) = prev_Hash (in_PreviousOutPoint (tx_TxIn tx' ! j)) \<and>
    prev_Index (in_PreviousOutPoint (tx_TxIn tx ! i)) = prev_Index (in_PreviousOutPoint (tx_TxIn tx' ! j))"
    using assms(6-8) h l unfolding all_preimage_def by (simp add: put_le_u32)
  then show ?thesis
    using assms(6-8) h l unfolding all_preimage_def by (simp add: put_le_u32 put_le_u64)
qed

section \<open>The partial hash cache\<close>

interpretation hash_cache: cache_contract "NewHashCache n" "\<lambda>c k. GetSigHashes k c"
  "\<lambda>(_ :: unit) k v c. c(k \<mapsto> v)" PurgeSigHashes
  by unfold_locales (auto simp: NewHashCache_def GetSigHashes_def PurgeSigHashes_def split: if_splits)

datatype hash_cache_op = OpAddSigHashes MsgTx | OpPurgeSigHashes hash

fun hash_cache_step :: "(bytes \<Rightarrow> bytes) \<Rightarrow> hash_cache_op \<Rightarrow> HashCache \<Rightarrow> HashCache" where
  "hash_cache_step sha (OpAddSigHashes tx) h = AddSigHashes sha tx h"
| "hash_cache_step sha (OpPurgeSigHashes txid) h = PurgeSigHashes txid h"

section \<open>Properties\<close>

text \<open>C20. What a \<^verbatim>\<open>SigHashAll\<close> signature commits to. Let SHA-256 have no collision among the strings
  hashed for two inputs, and let their scripts and the payloads have the same lengths. If the digests
  agree, the two transactions agree on version, all previous outpoints, all sequence numbers, lock
  time, payload and the concatenated bytes of the outputs, and the inputs on their outpoint, script
  and amount (as 64 bits).\<close>

theorem sighash_all_commits:
  assumes "\<forall>x. length (sha x) = 32" "wf_tx tx" "wf_tx tx'"
    and "i < length (tx_TxIn tx)" "j < length (tx_TxIn tx')"
    and "unparseScript sub = Inr raw" "unparseScript sub' = Inr raw'" "length raw = length raw'"
    and "length (tx_Payload tx) = length (tx_Payload tx')"
    and "inj_on sha (sighash_strings sha raw tx i amt \<union> sighash_strings sha raw' tx' j amt')"
    and "calcWitnessSignatureHash sha sub (NewTxSigHashes sha tx) SigHashAll tx (int i) amt =
         calcWitnessSignatureHash sha sub' (NewTxSigHashes sha tx') SigHashAll tx' (int j) amt'"
  shows "tx_Version tx = tx_Version tx' \<and> outpoints tx = outpoints tx' \<and>
     map in_Sequence (tx_TxIn tx) = map in_Sequence (tx_TxIn tx') \<and>
     in_PreviousOutPoint (tx_TxIn tx ! i) = in_PreviousOutPoint (tx_TxIn tx' ! j) \<and>
     raw = raw' \<and> (word_of_int amt :: u64) = word_of_int amt' \<and>
     tx_Payload tx = tx_Payload tx' \<and> tx_LockTime tx = tx_LockTime tx' \<and>
     concat (map WriteTxOut (tx_TxOut tx)) = concat (map WriteTxOut (tx_TxOut tx'))"
proof -
  note inj = DoubleHash_inj [OF assms(10)]
  have d: "DoubleHashB sha (all_preimage sha raw tx i amt) = DoubleHashB sha (all_preimage sha raw' tx' j amt')"
    using assms(11) unfolding sighash_all [OF assms(4,6)] sighash_all [OF assms(5,7)] by (rule Inr_inject)
  have "all_preimage sha raw tx i amt = all_preimage sha raw' tx' j amt'"
    by (rule inj(1) [OF _ _ d]) (auto simp: sighash_strings_def)
  note c = all_preimage_commits [OF assms(1-5,8,9) this]
  have h: "DoubleHashH sha (prevouts_bytes tx) = DoubleHashH sha (prevouts_bytes tx')"
    "DoubleHashH sha (sequence_bytes tx) = DoubleHashH sha (sequence_bytes tx')"
    "DoubleHashH sha (outputs_bytes tx) = DoubleHashH sha (outputs_bytes tx')"
    using c unfolding calcHashPrevOuts_def calcHashSequence_def calcHashOutputs_def
      prevouts_bytes_def sequence_bytes_def outputs_bytes_def by blast+
  have "prevouts_bytes tx = prevouts_bytes tx'"
    by (rule inj(2) [OF _ _ h(1)]) (auto simp: sighash_strings_def)
  moreover have "sequence_bytes tx = sequence_bytes tx'"
    by (rule inj(2) [OF _ _ h(2)]) (auto simp: sighash_strings_def)
  moreover have "outputs_bytes tx = outputs_bytes tx'"
    by (rule inj(2) [OF _ _ h(3)]) (auto simp: sighash_strings_def)
  ultimately show ?thesis
    using c prevouts_bytes_inj [OF assms(2,3)] sequence_bytes_inj [of tx tx']
    unfolding outputs_bytes_def by blast
qed

text \<open>
  A stand-in for SHA-256 with 32-byte values and no collision among the strings of the example
  below, to evaluate the definitions.
\<close>

definition toy_sha :: "bytes \<Rightarrow> bytes" where
  "toy_sha b = put_le 32 (if length b = 32 then 1000 + le_val b else length b)"

definition spend_tx :: "u64 \<Rightarrow> MsgTx" where
  "spend_tx locktime =
     \<lparr>tx_Version = 1,
      tx_TxIn = [\<lparr>in_PreviousOutPoint = \<lparr>prev_Hash = replicate 32 7, prev_Index = 1\<rparr>,
                  in_Witness = [], in_Sequence = 5\<rparr>],
      tx_TxOut = [\<lparr>out_Value = 10, out_PkScript = [0x51]\<rparr>],
      tx_LockTime = locktime, tx_Payload = []\<rparr>"

lemma length_toy_sha [simp]: "length (toy_sha b) = 32"
  by (simp add: toy_sha_def)

lemma toy_sha_value:
  assumes "length b \<noteq> 32" "length b < 1000"
  shows "le_val (toy_sha b) = length b" "le_val (toy_sha (toy_sha b)) = 1000 + length b"
proof -
  have small: "le_val (put_le 32 n) = n" if "n < 2000" for n
  proof -
    have "(2000 :: nat) \<le> 256 ^ 32" by simp
    with that show ?thesis by (simp only: le_val_put_le mod_less less_le_trans)
  qed
  show v: "le_val (toy_sha b) = length b" using assms small [of "length b"] by (simp add: toy_sha_def)
  have "toy_sha (toy_sha b) = put_le 32 (1000 + le_val (toy_sha b))"
    unfolding toy_sha_def [of "toy_sha b"] by simp
  then show "le_val (toy_sha (toy_sha b)) = 1000 + length b"
    using v small [of "1000 + length b"] assms by simp
qed

lemma toy_sha_inj:
  "inj_on toy_sha (sighash_strings toy_sha [] (spend_tx 3) 0 9)"
proof -
  let ?a = "prevouts_bytes (spend_tx 3)" and ?b = "sequence_bytes (spend_tx 3)"
    and ?c = "outputs_bytes (spend_tx 3)" and ?d = "all_preimage toy_sha [] (spend_tx 3) 0 9"
  have l: "length ?a = 36" "length ?b = 8" "length ?c = 9" "length ?d = 164"
    by (simp_all add: prevouts_bytes_def sequence_bytes_def outputs_bytes_def all_preimage_def spend_tx_def
        WriteTxOut_def WriteUint64_def WriteVarBytes_def calcHashPrevOuts_def calcHashSequence_def
        calcHashOutputs_def DoubleHashH_def)
  note v = toy_sha_value [of ?a] toy_sha_value [of ?b] toy_sha_value [of ?c] toy_sha_value [of ?d]
  have "inj_on (le_val \<circ> toy_sha) {?a, ?b, ?c, ?d, toy_sha ?a, toy_sha ?b, toy_sha ?c, toy_sha ?d}"
    by (simp add: inj_on_def v l)
  then have "inj_on toy_sha {?a, ?b, ?c, ?d, toy_sha ?a, toy_sha ?b, toy_sha ?c, toy_sha ?d}"
    by (rule inj_on_imageI2)
  moreover have "sighash_strings toy_sha [] (spend_tx 3) 0 9 =
      {?a, ?b, ?c, ?d, toy_sha ?a, toy_sha ?b, toy_sha ?c, toy_sha ?d}"
    unfolding sighash_strings_def hashed_def by blast
  ultimately show ?thesis by (simp only:)
qed

text \<open>The same transaction with its witnesses filled in: a different transaction with the same digest.\<close>

definition signed_tx :: MsgTx where
  "signed_tx = (spend_tx 3)\<lparr>tx_TxIn := map (\<lambda>ti. ti\<lparr>in_Witness := [[1], [0x51]]\<rparr>) (tx_TxIn (spend_tx 3))\<rparr>"

lemma signed_tx_strings: "sighash_strings sha [] signed_tx 0 9 = sighash_strings sha [] (spend_tx 3) 0 9"
  by (simp add: sighash_strings_def prevouts_bytes_def sequence_bytes_def outputs_bytes_def all_preimage_def signed_tx_def spend_tx_def
      calcHashPrevOuts_def calcHashSequence_def calcHashOutputs_def)

theorem sighash_all_commits_witness:
  "signed_tx \<noteq> spend_tx 3 \<and> tx_Version signed_tx = tx_Version (spend_tx 3) \<and> outpoints signed_tx = outpoints (spend_tx 3) \<and>
     map in_Sequence (tx_TxIn signed_tx) = map in_Sequence (tx_TxIn (spend_tx 3)) \<and>
     in_PreviousOutPoint (tx_TxIn signed_tx ! 0) = in_PreviousOutPoint (tx_TxIn (spend_tx 3) ! 0) \<and>
     tx_Payload signed_tx = tx_Payload (spend_tx 3) \<and> tx_LockTime signed_tx = tx_LockTime (spend_tx 3) \<and>
     concat (map WriteTxOut (tx_TxOut signed_tx)) = concat (map WriteTxOut (tx_TxOut (spend_tx 3)))"
proof -
  have "signed_tx \<noteq> spend_tx 3" by (simp add: signed_tx_def spend_tx_def)
  moreover have "inj_on toy_sha (sighash_strings toy_sha [] signed_tx 0 9 \<union> sighash_strings toy_sha [] (spend_tx 3) 0 9)"
    unfolding signed_tx_strings Un_absorb by (rule toy_sha_inj)
  moreover have "calcWitnessSignatureHash toy_sha [] (NewTxSigHashes toy_sha signed_tx) SigHashAll signed_tx (int 0) 9 =
      calcWitnessSignatureHash toy_sha [] (NewTxSigHashes toy_sha (spend_tx 3)) SigHashAll (spend_tx 3) (int 0) 9"
    by (simp add: calcWitnessSignatureHash_def NewTxSigHashes_def signed_tx_def spend_tx_def calcHashPrevOuts_def
        calcHashSequence_def calcHashOutputs_def)
  moreover have "wf_tx signed_tx" "wf_tx (spend_tx 3)" "0 < length (tx_TxIn signed_tx)" "0 < length (tx_TxIn (spend_tx 3))"
    "length (tx_Payload signed_tx) = length (tx_Payload (spend_tx 3))"
    by (simp_all add: signed_tx_def spend_tx_def wf_tx_def)
  ultimately show ?thesis
    using sighash_all_commits [of toy_sha signed_tx "spend_tx 3" 0 0 "[]" "[]" "[]" "[]" 9 9] by (simp del: One_nat_def)
qed

text \<open>C31. A signature does not commit to where one output ends and the next begins, whatever the hash
  function: for a transaction with two final outputs and the one in which they are merged into a
  single output, the \<^verbatim>\<open>SigHashAll\<close> digests of every input are the same, because \<^verbatim>\<open>WriteTxOut\<close> writes
  no script length.\<close>

theorem sighash_output_collision:
  "let tx1 = tx\<lparr>tx_TxOut := outs @ [a, b]\<rparr>;
       tx2 = tx\<lparr>tx_TxOut := outs @ [a\<lparr>out_PkScript := out_PkScript a @ WriteTxOut b\<rparr>]\<rparr>
   in tx_TxOut tx1 \<noteq> tx_TxOut tx2 \<and>
      calcWitnessSignatureHash sha sub (NewTxSigHashes sha tx1) SigHashAll tx1 idx amt =
      calcWitnessSignatureHash sha sub (NewTxSigHashes sha tx2) SigHashAll tx2 idx amt"
  by (simp add: Let_def calcWitnessSignatureHash_def NewTxSigHashes_def calcHashOutputs_def
      calcHashPrevOuts_def calcHashSequence_def WriteTxOut_def WriteVarBytes_def)

text \<open>C22. What the cache of partial hashes answers was computed for a transaction that was added to it: after any sequence of additions and
  purges, the partial hashes found under a transaction id are those of a transaction of that id among the additions. So if
  the transactions added under the id are one and the same, the hit is what a fresh computation for it gives. (Ids of different
  transactions can agree, as \<open>Wire_Tx\<close> shows; then the hit may be that of the other.)\<close>

theorem hash_cache_sound:
  assumes "GetSigHashes txid (fold (hash_cache_step sha) ops (NewHashCache n)) = Some sh"
  shows "(\<exists>tx. OpAddSigHashes tx \<in> set ops \<and> TxHash sha tx = Some txid \<and> sh = NewTxSigHashes sha tx) \<and>
    (\<forall>t. (\<forall>tx. OpAddSigHashes tx \<in> set ops \<longrightarrow> TxHash sha tx = Some txid \<longrightarrow> tx = t) \<longrightarrow> sh = NewTxSigHashes sha t)"
proof -
  let ?good = "\<lambda>txid sh. \<exists>tx. OpAddSigHashes tx \<in> set ops \<and> TxHash sha tx = Some txid \<and> sh = NewTxSigHashes sha tx"
  have "hash_cache.sound ?good (fold (hash_cache_step sha) ops (NewHashCache n))"
  proof (rule hash_cache.sound_history)
    fix op c assume op: "op \<in> set ops"
    show "(\<exists>(r :: unit) k v. ?good k v \<and> hash_cache_step sha op c = c(k \<mapsto> v)) \<or>
        (\<exists>k. hash_cache_step sha op c = PurgeSigHashes k c) \<or> hash_cache_step sha op c = c"
    proof (cases op)
      case (OpAddSigHashes tx)
      with op show ?thesis by (auto simp: AddSigHashes_def TxHash_eq)
    next
      case (OpPurgeSigHashes txid)
      then show ?thesis by auto
    qed
  qed (rule hash_cache.sound_empty)
  then show ?thesis using hash_cache.soundD assms by blast
qed

theorem hash_cache_sound_witness:
  "\<exists>tx. OpAddSigHashes tx \<in> set [OpAddSigHashes signed_tx, OpPurgeSigHashes [], OpAddSigHashes (spend_tx 3)] \<and>
     TxHash toy_sha tx = Some (the (TxHash toy_sha (spend_tx 3))) \<and> NewTxSigHashes toy_sha (spend_tx 3) = NewTxSigHashes toy_sha tx"
proof -
  have "GetSigHashes (the (TxHash toy_sha (spend_tx 3)))
      (fold (hash_cache_step toy_sha) [OpAddSigHashes signed_tx, OpPurgeSigHashes [], OpAddSigHashes (spend_tx 3)] (NewHashCache 0)) =
    Some (NewTxSigHashes toy_sha (spend_tx 3))"
    by (simp add: AddSigHashes_def GetSigHashes_def)
  from hash_cache_sound [OF this] show ?thesis by blast
qed

end
