(* ===== verification/Sig_Cache.thy ===== *)
theory Sig_Cache
  imports Sighash
begin

text \<open>
  The cryptographic primitives the script engine calls (standard library hashes, package
  \<^verbatim>\<open>btcec\<close>) as one record of parameters, and the signature cache of \<^verbatim>\<open>src/txscript/sigcache.go\<close>. The cache
  evicts a random entry when it is full: the random bytes and the iteration order of Go's map are
  parameters too.
\<close>

section \<open>Model\<close>

record sigInfo =
  si_sigHash :: hash
  si_sig :: bytes
  si_pubKey :: bytes

text \<open>\<open>validSigs\<close> lists the keys of the map \<^verbatim>\<open>validSigs\<close>, each once.\<close>

record SigCache =
  validSigs :: "sigInfo list"
  maxEntries :: nat

text \<open>
  Parameters for code outside the repository. \<open>rand_Read\<close> and \<open>map_range\<close> are what
  \<^verbatim>\<open>rand.Read\<close> returns (\<open>None\<close> for an error) and the order in which \<^verbatim>\<open>range\<close> visits the map, for a given
  state of the cache.
\<close>

record ('pk, 'sg) crypto =
  sha256 :: "bytes \<Rightarrow> bytes"
  sha1 :: "bytes \<Rightarrow> bytes"
  ripemd160 :: "bytes \<Rightarrow> bytes"
  curveN :: nat
  IsCompressedPubKey :: "bytes \<Rightarrow> bool"
  ParsePubKey :: "bytes \<Rightarrow> 'pk option"
  ParseDERSignature :: "bytes \<Rightarrow> 'sg option"
  sig_Verify :: "'sg \<Rightarrow> bytes \<Rightarrow> 'pk \<Rightarrow> bool"
  sig_Serialize :: "'sg \<Rightarrow> bytes"
  SerializeCompressed :: "'pk \<Rightarrow> bytes"
  rand_Read :: "SigCache \<Rightarrow> bytes option"
  map_range :: "SigCache \<Rightarrow> sigInfo list"

text \<open>\<^verbatim>\<open>bytes.Compare(a, b) > 0\<close>.\<close>

fun bytes_greater :: "bytes \<Rightarrow> bytes \<Rightarrow> bool" where
  "bytes_greater [] _ = False"
| "bytes_greater (a # as) [] = True"
| "bytes_greater (a # as) (b # bs) = (if a = b then bytes_greater as bs else a > b)"

definition NewSigCache :: "nat \<Rightarrow> SigCache" where
  "NewSigCache n = \<lparr>validSigs = [], maxEntries = n\<rparr>"

definition cache_info :: "('pk, 'sg) crypto \<Rightarrow> hash \<Rightarrow> 'sg \<Rightarrow> 'pk \<Rightarrow> sigInfo" where
  "cache_info c sigHash sig pubKey =
     \<lparr>si_sigHash = sigHash, si_sig = sig_Serialize c sig, si_pubKey = SerializeCompressed c pubKey\<rparr>"

definition Exists :: "('pk, 'sg) crypto \<Rightarrow> hash \<Rightarrow> 'sg \<Rightarrow> 'pk \<Rightarrow> SigCache \<Rightarrow> bool" where
  "Exists c sigHash sig pubKey s = (cache_info c sigHash sig pubKey \<in> set (validSigs s))"

text \<open>The loop that looks for the entry to evict; \<open>found\<close> is \<^verbatim>\<open>foundEntry\<close>.\<close>

fun find_evict :: "bytes \<Rightarrow> sigInfo list \<Rightarrow> sigInfo \<Rightarrow> sigInfo" where
  "find_evict r [] found = found"
| "find_evict r (e # es) found =
     (let found = (if si_sig found = [] then e else found)
      in if bytes_greater (si_sigHash e) r then e else find_evict r es found)"

definition cache_Add :: "('pk, 'sg) crypto \<Rightarrow> hash \<Rightarrow> 'sg \<Rightarrow> 'pk \<Rightarrow> SigCache \<Rightarrow> SigCache" where
  "cache_Add c sigHash sig pubKey s =
     (if maxEntries s \<le> 0 then s
      else let info = cache_info c sigHash sig pubKey;
               insert = (\<lambda>vs. if info \<in> set vs then vs else vs @ [info])
           in if length (validSigs s) + 1 > maxEntries s
              then (case rand_Read c s of
                      None \<Rightarrow> s
                    | Some randHashBytes \<Rightarrow>
                       let foundEntry = find_evict randHashBytes (map_range c s)
                             \<lparr>si_sigHash = replicate HashSize 0, si_sig = [], si_pubKey = []\<rparr>
                       in s\<lparr>validSigs := insert (filter (\<lambda>e. e \<noteq> foundEntry) (validSigs s))\<rparr>)
              else s\<lparr>validSigs := insert (validSigs s)\<rparr>)"

text \<open>
  The verification of one signature in \<^verbatim>\<open>opcodeCheckSig\<close> and \<^verbatim>\<open>opcodeCheckMultiSig\<close>, with and without a
  cache; \<^verbatim>\<open>copy(sigHash[:], hash)\<close> takes 32 bytes.
\<close>

definition verifySig :: "('pk, 'sg) crypto \<Rightarrow> bytes \<Rightarrow> 'sg \<Rightarrow> 'pk \<Rightarrow> SigCache option \<Rightarrow> bool \<times> SigCache option" where
  "verifySig c hash signature pubKey sigCache =
     (case sigCache of
        Some s \<Rightarrow>
          let sigHash = take HashSize (hash @ replicate HashSize 0) in
          if Exists c sigHash signature pubKey s then (True, Some s)
          else if sig_Verify c signature hash pubKey then (True, Some (cache_Add c sigHash signature pubKey s))
          else (False, Some s)
      | None \<Rightarrow> (sig_Verify c signature hash pubKey, None))"

text \<open>A sequence of verifications sharing one cache, with the list of answers.\<close>

primrec verify_run :: "('pk, 'sg) crypto \<Rightarrow> (bytes \<times> 'sg \<times> 'pk) list \<Rightarrow> SigCache \<Rightarrow> bool list \<times> SigCache" where
  "verify_run c [] s = ([], s)"
| "verify_run c (q # qs) s =
     (case q of (h, sig, pk) \<Rightarrow>
        let (valid, s') = verifySig c h sig pk (Some s); (rest, s'') = verify_run c qs (the s')
        in (valid # rest, s''))"

section \<open>Eviction\<close>

text \<open>Every entry of a reachable cache has a non-empty signature: \<^verbatim>\<open>Serialize\<close> writes at least the DER header.\<close>

definition cache_wf :: "SigCache \<Rightarrow> bool" where
  "cache_wf s \<longleftrightarrow> distinct (validSigs s) \<and> length (validSigs s) \<le> maxEntries s \<and>
     (\<forall>e \<in> set (validSigs s). si_sig e \<noteq> [])"

text \<open>What the environment provides: \<^verbatim>\<open>range\<close> visits every key, and serialised signatures are not empty.\<close>

definition cache_env :: "('pk, 'sg) crypto \<Rightarrow> bool" where
  "cache_env c \<longleftrightarrow> (\<forall>s. set (map_range c s) = set (validSigs s)) \<and> (\<forall>sig. sig_Serialize c sig \<noteq> [])"

lemma find_evict_mem: "find_evict r es found \<in> set es \<or> find_evict r es found = found"
proof (induction es arbitrary: found)
  case (Cons e es)
  show ?case
    using Cons [of "if si_sig found = [] then e else found"] by (auto simp: Let_def)
qed simp

lemma find_evict_nonempty:
  "es \<noteq> [] \<Longrightarrow> si_sig found = [] \<Longrightarrow> \<forall>e \<in> set es. si_sig e \<noteq> [] \<Longrightarrow> find_evict r es found \<in> set es"
  using find_evict_mem [of r "tl es" "hd es"] by (cases es) (auto simp: Let_def)

lemma length_filter_neq:
  assumes "distinct xs" "x \<in> set xs"
  shows "length (filter (\<lambda>e. e \<noteq> x) xs) = length xs - 1"
proof -
  have "length (filter (\<lambda>e. e \<noteq> x) xs) = card (set xs - {x})"
    using assms(1) by (subst distinct_card [symmetric]) (auto intro: arg_cong [where f = card])
  then show ?thesis using assms by (simp add: distinct_card)
qed

lemma cache_Add_wf:
  assumes "cache_env c" "cache_wf s"
  shows "cache_wf (cache_Add c h sig pk s)"
proof -
  have ne: "si_sig (cache_info c h sig pk) \<noteq> []" using assms(1) by (simp add: cache_env_def cache_info_def)
  show ?thesis
  proof (cases "maxEntries s \<le> 0 \<or> \<not> length (validSigs s) + 1 > maxEntries s \<or> rand_Read c s = None")
    case True
    then show ?thesis using assms(2) ne by (auto simp: cache_Add_def cache_wf_def Let_def)
  next
    case False
    then obtain r where r: "rand_Read c s = Some r" and full: "length (validSigs s) = maxEntries s" "maxEntries s > 0"
      using assms(2) by (auto simp: cache_wf_def)
    let ?found = "find_evict r (map_range c s) \<lparr>si_sigHash = replicate HashSize 0, si_sig = [], si_pubKey = []\<rparr>"
    have rng: "set (map_range c s) = set (validSigs s)" using assms(1) by (simp add: cache_env_def)
    then have "map_range c s \<noteq> []" using full by auto
    then have "?found \<in> set (validSigs s)"
      using find_evict_nonempty [of "map_range c s"] rng assms(2) by (simp add: cache_wf_def)
    then have "length (filter (\<lambda>e. e \<noteq> ?found) (validSigs s)) = maxEntries s - 1"
      using length_filter_neq [of "validSigs s" ?found] assms(2) full by (simp add: cache_wf_def)
    then show ?thesis
      using assms(2) ne full r by (auto simp: cache_Add_def cache_wf_def Let_def)
  qed
qed

lemma cache_Add_set: "set (validSigs (cache_Add c h sig pk s)) \<subseteq> insert (cache_info c h sig pk) (set (validSigs s))"
  by (auto simp: cache_Add_def Let_def split: if_splits option.splits)

section \<open>The cache contract\<close>

definition cache_lookup :: "SigCache \<Rightarrow> sigInfo \<Rightarrow> unit option" where
  "cache_lookup s k = (if k \<in> set (validSigs s) then Some () else None)"

text \<open>The insertion as the contract sees it: whatever is evicted, only the new entry appears.\<close>

definition cache_put :: "(SigCache \<Rightarrow> sigInfo list) \<Rightarrow> sigInfo \<Rightarrow> unit \<Rightarrow> SigCache \<Rightarrow> SigCache" where
  "cache_put keep k u s = s\<lparr>validSigs := filter (\<lambda>e. e \<in> set (validSigs s) \<or> e = k) (keep s)\<rparr>"

interpretation sig_cache: cache_contract "NewSigCache n" cache_lookup cache_put "\<lambda>k s. s\<lparr>validSigs := removeAll k (validSigs s)\<rparr>"
  by unfold_locales (auto simp: NewSigCache_def cache_lookup_def cache_put_def split: if_splits)

lemma cache_Add_put:
  "cache_Add c h sig pk s = cache_put (\<lambda>_. validSigs (cache_Add c h sig pk s)) (cache_info c h sig pk) () s"
proof -
  have "filter (\<lambda>e. e \<in> set (validSigs s) \<or> e = cache_info c h sig pk) (validSigs (cache_Add c h sig pk s)) =
      validSigs (cache_Add c h sig pk s)"
    using cache_Add_set [of c h sig pk s] by (auto simp: filter_id_conv)
  moreover have "s\<lparr>validSigs := validSigs (cache_Add c h sig pk s)\<rparr> = cache_Add c h sig pk s"
    by (auto simp: cache_Add_def Let_def split: option.splits)
  ultimately show ?thesis by (simp add: cache_put_def)
qed

text \<open>An entry is good when it comes from a signature that verifies.\<close>

definition good_entry :: "('pk, 'sg) crypto \<Rightarrow> sigInfo \<Rightarrow> unit \<Rightarrow> bool" where
  "good_entry c e u \<longleftrightarrow> (\<exists>h sig pk. e = cache_info c h sig pk \<and> sig_Verify c sig h pk)"

definition cache_sound :: "('pk, 'sg) crypto \<Rightarrow> SigCache \<Rightarrow> bool" where
  "cache_sound c s \<longleftrightarrow> sig_cache.sound (good_entry c) s"

text \<open>Signatures and keys with the same serialisation verify the same digests.\<close>

definition serialize_faithful :: "('pk, 'sg) crypto \<Rightarrow> bool" where
  "serialize_faithful c \<longleftrightarrow>
     (\<forall>sig sig' pk pk' h. sig_Serialize c sig = sig_Serialize c sig' \<and>
        SerializeCompressed c pk = SerializeCompressed c pk' \<longrightarrow> sig_Verify c sig h pk = sig_Verify c sig' h pk')"

lemma cache_sound_New: "cache_sound c (NewSigCache n)"
  unfolding cache_sound_def by (rule sig_cache.sound_empty)

lemma cache_sound_Add: "cache_sound c s \<Longrightarrow> sig_Verify c sig h pk \<Longrightarrow> cache_sound c (cache_Add c h sig pk s)"
proof -
  assume a: "cache_sound c s" "sig_Verify c sig h pk"
  have "sig_cache.sound (good_entry c)
      (cache_put (\<lambda>_. validSigs (cache_Add c h sig pk s)) (cache_info c h sig pk) () s)"
    using a unfolding cache_sound_def by (intro sig_cache.sound_add) (auto simp: good_entry_def)
  then show ?thesis by (simp only: cache_sound_def cache_Add_put [symmetric])
qed

lemma Exists_Verify:
  assumes "cache_sound c s" "serialize_faithful c" "Exists c h sig pk s"
  shows "sig_Verify c sig h pk"
proof -
  have "cache_lookup s (cache_info c h sig pk) = Some ()"
    using assms(3) by (simp add: Exists_def cache_lookup_def)
  then have "good_entry c (cache_info c h sig pk) ()"
    using assms(1) unfolding cache_sound_def by (rule sig_cache.soundD [rotated])
  then obtain h' sig' pk' where e: "cache_info c h sig pk = cache_info c h' sig' pk'" "sig_Verify c sig' h' pk'"
    by (auto simp: good_entry_def)
  then have "sig_Serialize c sig = sig_Serialize c sig'" "SerializeCompressed c pk = SerializeCompressed c pk'"
    "h = h'" by (simp_all add: cache_info_def)
  then show ?thesis using assms(2) e(2) unfolding serialize_faithful_def by blast
qed

lemma verifySig_sound:
  assumes "cache_sound c s" "serialize_faithful c" "length h = HashSize"
  shows "\<exists>s'. verifySig c h sig pk (Some s) = (sig_Verify c sig h pk, Some s') \<and> cache_sound c s' \<and>
    (cache_env c \<longrightarrow> cache_wf s \<longrightarrow> cache_wf s') \<and> maxEntries s' = maxEntries s"
proof -
  have h: "take HashSize (h @ replicate HashSize 0) = h" using assms(3) by simp
  show ?thesis
  proof (cases "Exists c h sig pk s")
    case True
    then show ?thesis using h assms Exists_Verify [OF assms(1,2) True] by (simp add: verifySig_def)
  next
    case False
    have "maxEntries (cache_Add c h sig pk s) = maxEntries s"
      by (simp add: cache_Add_def Let_def split: option.splits)
    then show ?thesis
      using h False assms cache_sound_Add [OF assms(1), of sig h pk] cache_Add_wf [of c s h sig pk]
      by (simp add: verifySig_def)
  qed
qed

section \<open>Properties\<close>

text \<open>C21. The signature cache is transparent and bounded. For any sequence of verifications that starts
  with a new cache of \<open>n\<close> entries, the answers with the cache are those of verifying every signature,
  whatever the random eviction does, and the cache never holds more than \<open>n\<close> entries. Assumed of
  the environment: signatures and keys with equal serialisations verify the same digests, serialised
  signatures are not empty, ranging over the map visits its keys, digests have 32 bytes.\<close>

theorem sig_cache_transparent:
  assumes "serialize_faithful c" "cache_env c" "\<forall>(h, sig, pk) \<in> set reqs. length h = HashSize"
  shows "fst (verify_run c reqs (NewSigCache n)) = map (\<lambda>(h, sig, pk). sig_Verify c sig h pk) reqs \<and>
    length (validSigs (snd (verify_run c reqs (NewSigCache n)))) \<le> n"
proof -
  have "fst (verify_run c reqs s) = map (\<lambda>(h, sig, pk). sig_Verify c sig h pk) reqs \<and>
      length (validSigs (snd (verify_run c reqs s))) \<le> n"
    if "cache_sound c s" "cache_wf s" "maxEntries s = n" for s
    using that assms(3)
  proof (induction reqs arbitrary: s)
    case Nil
    then show ?case by (simp add: cache_wf_def)
  next
    case (Cons q reqs)
    obtain h sig pk where q: "q = (h, sig, pk)" by (cases q)
    then have len: "length h = HashSize" using Cons.prems by auto
    obtain s' where s': "verifySig c h sig pk (Some s) = (sig_Verify c sig h pk, Some s')"
      "cache_sound c s'" "cache_wf s'" "maxEntries s' = n"
      using verifySig_sound [OF Cons.prems(1) assms(1) len] Cons.prems(2,3) assms(2) by blast
    show ?case using Cons.IH [OF s'(2,3,4)] s'(1) q Cons.prems(4) by (auto split: prod.splits)
  qed
  moreover have "cache_wf (NewSigCache n)" "maxEntries (NewSigCache n) = n"
    by (simp_all add: NewSigCache_def cache_wf_def)
  ultimately show ?thesis using cache_sound_New by blast
qed

text \<open>An example environment: one key, and a signature is the digest it signs.\<close>

definition unit_crypto :: "(unit, bytes) crypto" where
  "unit_crypto =
     \<lparr>sha256 = toy_sha, sha1 = toy_sha, ripemd160 = toy_sha, curveN = 0x1000,
      IsCompressedPubKey = (\<lambda>pk. length pk = 33), ParsePubKey = (\<lambda>_. Some ()),
      ParseDERSignature = Some, sig_Verify = (\<lambda>sig h pk. sig = h),
      sig_Serialize = (\<lambda>sig. 0x30 # sig), SerializeCompressed = (\<lambda>_. [2]),
      rand_Read = (\<lambda>_. Some (replicate 32 0x80)), map_range = validSigs\<rparr>"

theorem sig_cache_transparent_witness:
  "let reqs = [(replicate 32 1, replicate 32 1, ()), (replicate 32 2, [], ()), (replicate 32 1, replicate 32 1, ())]
   in fst (verify_run unit_crypto reqs (NewSigCache 1)) = map (\<lambda>(h, sig, pk). sig_Verify unit_crypto sig h pk) reqs \<and>
      length (validSigs (snd (verify_run unit_crypto reqs (NewSigCache 1)))) \<le> 1"
  unfolding Let_def
  by (rule sig_cache_transparent) (auto simp: unit_crypto_def serialize_faithful_def cache_env_def)

end
