(* ===== verification/Engine_Core.thy ===== *)
theory Engine_Core
  imports Sig_Cache Script_Builder
begin

text \<open>
  The state of the script engine and the checks its signature opcodes share
  (\<^verbatim>\<open>src/txscript/engine.go\<close>): hash type, public key and signature encodings. A handler that panics
  returns \<open>GoPanic\<close>; a handler that fails returns its error and the state is dropped, as the
  comment on \<^verbatim>\<open>Step\<close> says that nothing may be done with the engine after an error.
\<close>

section \<open>Model\<close>

abbreviation (input) OpCondFalse :: int where "OpCondFalse \<equiv> 0"
abbreviation (input) OpCondTrue :: int where "OpCondTrue \<equiv> 1"
abbreviation (input) OpCondSkip :: int where "OpCondSkip \<equiv> 2"

text \<open>\<^verbatim>\<open>witnessProgram\<close> is compared with nil in the code, hence the \<open>option\<close>.\<close>

record Engine =
  scripts :: "parsedOpcode list list"
  scriptIdx :: nat
  scriptOff :: nat
  lastCodeSep :: nat
  dstack :: stack
  astack :: stack
  vm_tx :: MsgTx
  txIdx :: nat
  condStack :: "int list"
  numOps :: nat
  flags :: u32
  vm_sigCache :: "SigCache option"
  vm_hashCache :: "TxSigHashes option"
  witnessVersion :: int
  witnessProgram :: "bytes option"
  witnessExtProg :: "parsedOpcode list"
  inputAmount :: int

definition hasFlag :: "u32 \<Rightarrow> Engine \<Rightarrow> bool" where
  "hasFlag flag vm = (flags vm AND flag = flag)"

definition isBranchExecuting :: "Engine \<Rightarrow> bool" where
  "isBranchExecuting vm =
     (if condStack vm = [] then True else last (condStack vm) = OpCondTrue)"

definition validPC :: "Engine \<Rightarrow> unit res" where
  "validPC vm =
     (if scriptIdx vm \<ge> length (scripts vm) then Inl (ErrorText ''past input scripts'')
      else if scriptOff vm \<ge> length (scripts vm ! scriptIdx vm) then Inl (ErrorText ''past input scripts'')
      else Inr ())"

definition isWitnessVersionActive :: "nat \<Rightarrow> Engine \<Rightarrow> bool" where
  "isWitnessVersionActive version vm =
     (witnessProgram vm \<noteq> None \<and> unat (word_of_int (witnessVersion vm) :: u64) = version)"

definition curPC :: "Engine \<Rightarrow> (nat \<times> nat) res" where
  "curPC vm = rbind (validPC vm) (\<lambda>_. Inr (scriptIdx vm, scriptOff vm))"

text \<open>The slice expression panics outside the bounds.\<close>

definition subScript :: "Engine \<Rightarrow> parsedOpcode list res" where
  "subScript vm =
     (if scriptIdx vm \<ge> length (scripts vm) then Inl GoPanic
      else if lastCodeSep vm > length (scripts vm ! scriptIdx vm) then Inl GoPanic
      else Inr (drop (lastCodeSep vm) (scripts vm ! scriptIdx vm)))"

definition cur_TxIn :: "Engine \<Rightarrow> TxIn res" where
  "cur_TxIn vm =
     (if txIdx vm \<ge> length (tx_TxIn (vm_tx vm)) then Inl GoPanic
      else Inr (tx_TxIn (vm_tx vm) ! txIdx vm))"

definition checkHashTypeEncoding :: "u32 \<Rightarrow> unit res" where
  "checkHashTypeEncoding hashType =
     (let sigHashType = hashType AND NOT SigHashAnyOneCanPay in
      if sigHashType < SigHashAll \<or> sigHashType > SigHashSingle
      then Inl (ErrorText ''invalid hashtype'') else Inr ())"

definition checkPubKeyEncoding :: "('pk, 'sg) crypto \<Rightarrow> bytes \<Rightarrow> Engine \<Rightarrow> unit res" where
  "checkPubKeyEncoding c pubKey vm =
     (if isWitnessVersionActive 0 vm \<and> \<not> IsCompressedPubKey c pubKey then Inl ErrWitnessPubKeyType
      else if length pubKey = 33 \<and> (pubKey ! 0 = 0x02 \<or> pubKey ! 0 = 0x03) then Inr ()
      else if length pubKey = 65 \<and> pubKey ! 0 = 0x04 then Inr ()
      else Inl ErrStackInvalidPubKey)"

definition halfOrder :: "('pk, 'sg) crypto \<Rightarrow> nat" where
  "halfOrder c = curveN c div 2"

text \<open>
  The check of a DER signature. The index expression \<^verbatim>\<open>sig[rLen+5]\<close> is guarded in the source only by
  \<^verbatim>\<open>rLen+5 > len(sig)\<close>, so it panics at \<^verbatim>\<open>rLen+5 == len(sig)\<close>; every other index is in range.
\<close>

definition checkSignatureEncoding :: "('pk, 'sg) crypto \<Rightarrow> bytes \<Rightarrow> unit res" where
  "checkSignatureEncoding c sig =
     (if length sig < 8 then Inl (ErrorText ''malformed signature: too short'')
      else if length sig > 72 then Inl (ErrorText ''malformed signature: too long'')
      else if sig ! 0 \<noteq> 0x30 then Inl (ErrorText ''malformed signature: format has wrong type'')
      else if unat (sig ! 1) \<noteq> length sig - 2 then Inl (ErrorText ''malformed signature: bad length'')
      else let rLen = unat (sig ! 3) in
        if rLen + 5 > length sig then Inl (ErrorText ''malformed signature: S out of bounds'')
        else if rLen + 5 = length sig then Inl GoPanic
        else let sLen = unat (sig ! (rLen + 5)) in
          if rLen + sLen + 6 \<noteq> length sig then Inl (ErrorText ''malformed signature: invalid R length'')
          else if sig ! 2 \<noteq> 0x02 then Inl (ErrorText ''malformed signature: missing first integer marker'')
          else if rLen = 0 then Inl (ErrorText ''malformed signature: R length is zero'')
          else if sig ! 4 AND 0x80 \<noteq> 0 then Inl (ErrorText ''malformed signature: R value is negative'')
          else if rLen > 1 \<and> sig ! 4 = 0x00 \<and> sig ! 5 AND 0x80 = 0
          then Inl (ErrorText ''malformed signature: invalid R value'')
          else if sig ! (rLen + 4) \<noteq> 0x02
          then Inl (ErrorText ''malformed signature: missing second integer marker'')
          else if sLen = 0 then Inl (ErrorText ''malformed signature: S length is zero'')
          else if sig ! (rLen + 6) AND 0x80 \<noteq> 0 then Inl (ErrorText ''malformed signature: S value is negative'')
          else if sLen > 1 \<and> sig ! (rLen + 6) = 0x00 \<and> sig ! (rLen + 7) AND 0x80 = 0
          then Inl (ErrorText ''malformed signature: invalid S value'')
          else let sValue = le_val (rev (drop (rLen + 6) (take (rLen + 6 + sLen) sig))) in
            if sValue > halfOrder c then Inl ErrStackInvalidLowSSignature
            else Inr ())"

definition sigHashes_of :: "('pk, 'sg) crypto \<Rightarrow> Engine \<Rightarrow> TxSigHashes" where
  "sigHashes_of c vm =
     (case vm_hashCache vm of Some h \<Rightarrow> h | None \<Rightarrow> NewTxSigHashes (sha256 c) (vm_tx vm))"

section \<open>Signature encodings\<close>

lemma take_4: "4 \<le> length xs \<Longrightarrow> take 4 xs = [xs ! 0, xs ! 1, xs ! 2, xs ! 3]"
  by (auto simp: numeral_eq_Suc Suc_le_length_iff)

lemma take_2: "2 \<le> length xs \<Longrightarrow> take 2 xs = [xs ! 0, xs ! 1]"
  by (auto simp: numeral_eq_Suc Suc_le_length_iff)

lemma checkSignatureEncoding_panic_iff:
  "checkSignatureEncoding c sig = Inl GoPanic \<longleftrightarrow>
     8 \<le> length sig \<and> length sig \<le> 72 \<and> sig ! 0 = 0x30 \<and> unat (sig ! 1) = length sig - 2 \<and>
     unat (sig ! 3) + 5 = length sig"
  by (simp add: checkSignatureEncoding_def Let_def)

text \<open>The shape of an accepted signature: two DER integers of the announced lengths and nothing else.\<close>

lemma checkSignatureEncoding_ok:
  assumes "checkSignatureEncoding c sig = Inr ()"
  shows "\<exists>r s. sig = [0x30, of_nat (length r + length s + 4), 0x02, of_nat (length r)] @ r @
      [0x02, of_nat (length s)] @ s \<and>
    0 < length r \<and> 0 < length s \<and> length r + length s \<le> 66 \<and> le_val (rev s) \<le> halfOrder c \<and>
    unat (r ! 0) < 128 \<and> unat (s ! 0) < 128"
proof -
  define rl where "rl = unat (sig ! 3)"
  define sl where "sl = unat (sig ! (rl + 5))"
  have a: "8 \<le> length sig" "length sig \<le> 72" "sig ! 0 = 0x30" "unat (sig ! 1) = length sig - 2"
    "rl + 5 < length sig" "rl + sl + 6 = length sig" "sig ! 2 = 0x02" "0 < rl" "sig ! 4 AND 0x80 = 0"
    "sig ! (rl + 4) = 0x02" "0 < sl" "sig ! (rl + 6) AND 0x80 = 0"
    "le_val (rev (drop (rl + 6) (take (rl + 6 + sl) sig))) \<le> halfOrder c"
    using assms by (auto simp: checkSignatureEncoding_def Let_def rl_def sl_def split: if_splits)
  define r where "r = take rl (drop 4 sig)"
  define s where "s = drop (rl + 6) sig"
  have len: "length r = rl" "length s = sl" using a by (simp_all add: r_def s_def)
  have u: "of_nat (unat b) = b" for b :: byte by simp
  have "unat (sig ! 1) = rl + sl + 4" using a(4,6) by linarith
  then have b1: "sig ! 1 = of_nat (rl + sl + 4)" using u [of "sig ! 1"] by (simp only:)
  have b2: "sig ! 3 = of_nat rl" "sig ! (rl + 5) = of_nat sl" by (simp_all add: rl_def sl_def)
  have "take 4 sig = [sig ! 0, sig ! 1, sig ! 2, sig ! 3]" using a(1) by (intro take_4) simp
  moreover have "take 2 (drop (4 + rl) sig) = [sig ! (4 + rl), sig ! (5 + rl)]"
    using a(5) take_2 [of "drop (4 + rl) sig"] by simp
  moreover have "drop 4 sig = r @ drop (4 + rl) sig"
    using append_take_drop_id [of rl "drop 4 sig"] by (simp add: r_def add.commute)
  moreover have "drop (4 + rl) sig = take 2 (drop (4 + rl) sig) @ s"
    using append_take_drop_id [of 2 "drop (4 + rl) sig"] by (simp add: s_def add.commute)
  moreover have "sig = take 4 sig @ drop 4 sig" by simp
  ultimately have "sig = [0x30, of_nat (length r + length s + 4), 0x02, of_nat (length r)] @ r @
      [0x02, of_nat (length s)] @ s"
    using a(3,7,10) b1 b2 len by (metis add.commute append_Cons append_Nil append_assoc)
  moreover have "r ! 0 = sig ! 4" "s ! 0 = sig ! (rl + 6)" using a len by (simp_all add: r_def s_def)
  moreover have "drop (rl + 6) (take (rl + 6 + sl) sig) = s" using a(6) by (simp add: s_def)
  ultimately show ?thesis
    using a len by (intro exI [of _ r] exI [of _ s]) (simp add: and_0x80_eq_0)
qed

end
