(* ===== verification/Engine_Ops.thy ===== *)
theory Engine_Ops
  imports Engine_Core
begin

text \<open>
  The opcode handlers of \<^verbatim>\<open>src/txscript/opcode.go\<close>, in the order of the source, and the handler
  column of \<^verbatim>\<open>opcodeArray\<close> as the function \<open>opfunc\<close>. A handler maps the instruction and the engine
  to the new engine or an error; the handlers that use cryptography take its parameters first.
\<close>

section \<open>Model\<close>

type_synonym handler = "parsedOpcode \<Rightarrow> Engine \<Rightarrow> Engine res"

text \<open>An operation on the data stack.\<close>

definition on_dstack :: "(stack \<Rightarrow> stack res) \<Rightarrow> Engine \<Rightarrow> Engine res" where
  "on_dstack f vm = rbind (f (dstack vm)) (\<lambda>s. Inr (vm\<lparr>dstack := s\<rparr>))"

text \<open>
  The arithmetic opcodes pop one, two or three numbers (topmost first) and push one; results are
  \<^verbatim>\<open>int64\<close>.
\<close>

definition num1 :: "(int \<Rightarrow> int) \<Rightarrow> Engine \<Rightarrow> Engine res" where
  "num1 f vm = on_dstack (\<lambda>s. rbind (PopInt s) (\<lambda>(m, s). PushInt (f m) s)) vm"

definition num2 :: "(int \<Rightarrow> int \<Rightarrow> int) \<Rightarrow> Engine \<Rightarrow> Engine res" where
  "num2 f vm = on_dstack (\<lambda>s. rbind (PopInt s) (\<lambda>(v0, s). rbind (PopInt s) (\<lambda>(v1, s). PushInt (f v0 v1) s))) vm"

definition num3 :: "(int \<Rightarrow> int \<Rightarrow> int \<Rightarrow> int) \<Rightarrow> Engine \<Rightarrow> Engine res" where
  "num3 f vm = on_dstack (\<lambda>s. rbind (PopInt s) (\<lambda>(a, s). rbind (PopInt s) (\<lambda>(b, s).
     rbind (PopInt s) (\<lambda>(x, s). PushInt (f a b x) s)))) vm"

text \<open>The hash opcodes replace the top item by its hash.\<close>

definition hash_top :: "(bytes \<Rightarrow> bytes) \<Rightarrow> Engine \<Rightarrow> Engine res" where
  "hash_top h vm = on_dstack (\<lambda>s. rbind (PopByteArray s) (\<lambda>(buf, s). Inr (PushByteArray (h buf) s))) vm"

subsection \<open>Constants and control\<close>

definition opcodeDisabled :: handler where
  "opcodeDisabled op vm = Inl ErrStackOpDisabled"

definition opcodeReserved :: handler where
  "opcodeReserved op vm = Inl ErrStackReservedOpcode"

definition opcodeInvalid :: handler where
  "opcodeInvalid op vm = Inl ErrStackInvalidOpcode"

definition opcodeFalse :: handler where
  "opcodeFalse op vm = on_dstack (\<lambda>s. Inr (PushByteArray [] s)) vm"

definition opcodePushData :: handler where
  "opcodePushData op vm = on_dstack (\<lambda>s. Inr (PushByteArray (pop_data op) s)) vm"

definition opcode1Negate :: handler where
  "opcode1Negate op vm = on_dstack (PushInt (- 1)) vm"

definition opcodeN :: handler where
  "opcodeN op vm = on_dstack (PushInt (int (unat (pop_value op - (OP_1 - 1))))) vm"

definition opcodeNop :: handler where
  "opcodeNop op vm =
     (let v = pop_value op in
      if v = OP_NOP1 \<or> v = OP_NOP4 \<or> v = OP_NOP5 \<or> v = OP_NOP6 \<or> v = OP_NOP7 \<or> v = OP_NOP8 \<or>
         v = OP_NOP9 \<or> v = OP_NOP10
      then (if hasFlag ScriptDiscourageUpgradableNops vm
            then Inl (ErrorText ''OP_NOP reserved for soft-fork upgrades'') else Inr vm)
      else Inr vm)"

definition opcodeIf :: handler where
  "opcodeIf op vm =
     rbind (if isBranchExecuting vm
            then rbind (PopBool (dstack vm)) (\<lambda>(ok, s).
                   Inr (if ok then OpCondTrue else OpCondFalse, vm\<lparr>dstack := s\<rparr>))
            else Inr (OpCondSkip, vm))
       (\<lambda>(condVal, vm). Inr (vm\<lparr>condStack := condStack vm @ [condVal]\<rparr>))"

definition opcodeNotIf :: handler where
  "opcodeNotIf op vm =
     rbind (if isBranchExecuting vm
            then rbind (PopBool (dstack vm)) (\<lambda>(ok, s).
                   Inr (if \<not> ok then OpCondTrue else OpCondFalse, vm\<lparr>dstack := s\<rparr>))
            else Inr (OpCondSkip, vm))
       (\<lambda>(condVal, vm). Inr (vm\<lparr>condStack := condStack vm @ [condVal]\<rparr>))"

definition opcodeElse :: handler where
  "opcodeElse op vm =
     (if condStack vm = [] then Inl ErrStackNoIf
      else let conditionalIdx = length (condStack vm) - 1; v = condStack vm ! conditionalIdx in
        if v = OpCondTrue then Inr (vm\<lparr>condStack := (condStack vm)[conditionalIdx := OpCondFalse]\<rparr>)
        else if v = OpCondFalse then Inr (vm\<lparr>condStack := (condStack vm)[conditionalIdx := OpCondTrue]\<rparr>)
        else Inr vm)"

definition opcodeEndif :: handler where
  "opcodeEndif op vm =
     (if condStack vm = [] then Inl ErrStackNoIf
      else Inr (vm\<lparr>condStack := take (length (condStack vm) - 1) (condStack vm)\<rparr>))"

definition opcodeVerify :: handler where
  "opcodeVerify op vm =
     rbind (PopBool (dstack vm)) (\<lambda>(verified, s).
       if \<not> verified then Inl ErrStackVerifyFailed else Inr (vm\<lparr>dstack := s\<rparr>))"

definition opcodeReturn :: handler where
  "opcodeReturn op vm = Inl ErrStackEarlyReturn"

subsection \<open>Lock times\<close>

definition verifyLockTime :: "u64 \<Rightarrow> u64 \<Rightarrow> u64 \<Rightarrow> unit res" where
  "verifyLockTime txLockTime threshold lockTime =
     (if \<not> ((txLockTime < threshold \<and> lockTime < threshold) \<or> (txLockTime \<ge> threshold \<and> lockTime \<ge> threshold))
      then Inl (ErrorText ''[CSV] mismatched locktime types'')
      else if lockTime > txLockTime then Inl (ErrorText ''[CSV] locktime requirement not satisfied'')
      else Inr ())"

definition opcodeCheckLockTimeVerify :: handler where
  "opcodeCheckLockTimeVerify op vm =
     rbind (PeekByteArray 0 (dstack vm)) (\<lambda>so.
     rbind (makeScriptNum so (verifyMinimalData (dstack vm)) 5) (\<lambda>lockTime.
     if lockTime < 0 then Inl (ErrorText ''negative locktime'')
     else let txLockTime = tx_LockTime (vm_tx vm) in
       if \<not> ((unat txLockTime < LockTimeThreshold \<and> lockTime < int LockTimeThreshold) \<or>
             (unat txLockTime \<ge> LockTimeThreshold \<and> lockTime \<ge> int LockTimeThreshold))
       then Inl (ErrorText ''mismatched locktime types'')
       else if lockTime > sint txLockTime then Inl (ErrorText ''locktime requirement not satisfied'')
       else rbind (cur_TxIn vm) (\<lambda>txIn.
         if in_Sequence txIn = MaxTxInSequenceNum then Inl (ErrorText ''transaction input is finalized'')
         else Inr vm)))"

definition opcodeCheckSequenceVerify :: handler where
  "opcodeCheckSequenceVerify op vm =
     rbind (PeekByteArray 0 (dstack vm)) (\<lambda>so.
     rbind (makeScriptNum so (verifyMinimalData (dstack vm)) 9) (\<lambda>stackSequence.
     if stackSequence < 0 then Inl (ErrorText ''negative locktime'')
     else let sequence = (word_of_int stackSequence :: u64) in
       if sequence AND SequenceLockTimeDisabled \<noteq> 0 then Inr vm
       else rbind (cur_TxIn vm) (\<lambda>txIn.
         let txSequence = in_Sequence txIn in
         if txSequence AND SequenceLockTimeDisabled \<noteq> 0
         then Inl (ErrorText ''transaction sequence has sequence locktime disabled bit set'')
         else let lockTimeMask = SequenceLockTimeIsSeconds OR SequenceLockTimeMask in
           rbind (verifyLockTime (txSequence AND lockTimeMask) SequenceLockTimeIsSeconds
             (sequence AND lockTimeMask)) (\<lambda>_. Inr vm))))"

subsection \<open>Stack operations\<close>

definition opcodeToAltStack :: handler where
  "opcodeToAltStack op vm = rbind (PopByteArray (dstack vm)) (\<lambda>(so, s).
     Inr (vm\<lparr>dstack := s, astack := PushByteArray so (astack vm)\<rparr>))"

definition opcodeFromAltStack :: handler where
  "opcodeFromAltStack op vm = rbind (PopByteArray (astack vm)) (\<lambda>(so, s).
     Inr (vm\<lparr>astack := s, dstack := PushByteArray so (dstack vm)\<rparr>))"

definition opcode2Drop :: handler where
  "opcode2Drop op vm = on_dstack (DropN 2) vm"

definition opcode2Dup :: handler where
  "opcode2Dup op vm = on_dstack (DupN 2) vm"

definition opcode3Dup :: handler where
  "opcode3Dup op vm = on_dstack (DupN 3) vm"

definition opcode2Over :: handler where
  "opcode2Over op vm = on_dstack (OverN 2) vm"

definition opcode2Rot :: handler where
  "opcode2Rot op vm = on_dstack (RotN 2) vm"

definition opcode2Swap :: handler where
  "opcode2Swap op vm = on_dstack (SwapN 2) vm"

definition opcodeIfDup :: handler where
  "opcodeIfDup op vm = on_dstack (\<lambda>s. rbind (PeekByteArray 0 s) (\<lambda>so.
     Inr (if asBool so then PushByteArray so s else s))) vm"

definition opcodeDepth :: handler where
  "opcodeDepth op vm = on_dstack (\<lambda>s. PushInt (Depth s) s) vm"

definition opcodeDrop :: handler where
  "opcodeDrop op vm = on_dstack (DropN 1) vm"

definition opcodeDup :: handler where
  "opcodeDup op vm = on_dstack (DupN 1) vm"

definition opcodeNip :: handler where
  "opcodeNip op vm = on_dstack (NipN 1) vm"

definition opcodeOver :: handler where
  "opcodeOver op vm = on_dstack (OverN 1) vm"

definition opcodePick :: handler where
  "opcodePick op vm = on_dstack (\<lambda>s. rbind (PopInt s) (\<lambda>(n, s). PickN (num_Int32 n) s)) vm"

definition opcodeRoll :: handler where
  "opcodeRoll op vm = on_dstack (\<lambda>s. rbind (PopInt s) (\<lambda>(n, s). RollN (num_Int32 n) s)) vm"

definition opcodeRot :: handler where
  "opcodeRot op vm = on_dstack (RotN 1) vm"

definition opcodeSwap :: handler where
  "opcodeSwap op vm = on_dstack (SwapN 1) vm"

definition opcodeTuck :: handler where
  "opcodeTuck op vm = on_dstack Tuck vm"

definition opcodeSize :: handler where
  "opcodeSize op vm = on_dstack (\<lambda>s. rbind (PeekByteArray 0 s) (\<lambda>so. PushInt (int (length so)) s)) vm"

definition opcodeEqual :: handler where
  "opcodeEqual op vm = on_dstack (\<lambda>s. rbind (PopByteArray s) (\<lambda>(a, s). rbind (PopByteArray s) (\<lambda>(b, s).
     Inr (PushBool (a = b) s)))) vm"

definition opcodeEqualVerify :: handler where
  "opcodeEqualVerify op vm = rbind (opcodeEqual op vm) (opcodeVerify op)"

subsection \<open>Arithmetic\<close>

definition opcode1Add :: handler where
  "opcode1Add op vm = num1 (\<lambda>m. i64 (m + 1)) vm"

definition opcode1Sub :: handler where
  "opcode1Sub op vm = num1 (\<lambda>m. i64 (m - 1)) vm"

definition opcodeNegate :: handler where
  "opcodeNegate op vm = num1 (\<lambda>m. i64 (- m)) vm"

definition opcodeAbs :: handler where
  "opcodeAbs op vm = num1 (\<lambda>m. if m < 0 then i64 (- m) else m) vm"

definition opcodeNot :: handler where
  "opcodeNot op vm = num1 (\<lambda>m. if m = 0 then 1 else 0) vm"

definition opcode0NotEqual :: handler where
  "opcode0NotEqual op vm = num1 (\<lambda>m. if m \<noteq> 0 then 1 else m) vm"

definition opcodeAdd :: handler where
  "opcodeAdd op vm = num2 (\<lambda>v0 v1. i64 (v0 + v1)) vm"

definition opcodeSub :: handler where
  "opcodeSub op vm = num2 (\<lambda>v0 v1. i64 (v1 - v0)) vm"

definition opcodeBoolAnd :: handler where
  "opcodeBoolAnd op vm = num2 (\<lambda>v0 v1. if v0 \<noteq> 0 \<and> v1 \<noteq> 0 then 1 else 0) vm"

definition opcodeBoolOr :: handler where
  "opcodeBoolOr op vm = num2 (\<lambda>v0 v1. if v0 \<noteq> 0 \<or> v1 \<noteq> 0 then 1 else 0) vm"

definition opcodeNumEqual :: handler where
  "opcodeNumEqual op vm = num2 (\<lambda>v0 v1. if v0 = v1 then 1 else 0) vm"

definition opcodeNumEqualVerify :: handler where
  "opcodeNumEqualVerify op vm = rbind (opcodeNumEqual op vm) (opcodeVerify op)"

definition opcodeNumNotEqual :: handler where
  "opcodeNumNotEqual op vm = num2 (\<lambda>v0 v1. if v0 \<noteq> v1 then 1 else 0) vm"

definition opcodeLessThan :: handler where
  "opcodeLessThan op vm = num2 (\<lambda>v0 v1. if v1 < v0 then 1 else 0) vm"

definition opcodeGreaterThan :: handler where
  "opcodeGreaterThan op vm = num2 (\<lambda>v0 v1. if v1 > v0 then 1 else 0) vm"

definition opcodeLessThanOrEqual :: handler where
  "opcodeLessThanOrEqual op vm = num2 (\<lambda>v0 v1. if v1 \<le> v0 then 1 else 0) vm"

definition opcodeGreaterThanOrEqual :: handler where
  "opcodeGreaterThanOrEqual op vm = num2 (\<lambda>v0 v1. if v1 \<ge> v0 then 1 else 0) vm"

definition opcodeMin :: handler where
  "opcodeMin op vm = num2 (\<lambda>v0 v1. if v1 < v0 then v1 else v0) vm"

definition opcodeMax :: handler where
  "opcodeMax op vm = num2 (\<lambda>v0 v1. if v1 > v0 then v1 else v0) vm"

definition opcodeWithin :: handler where
  "opcodeWithin op vm = num3 (\<lambda>maxVal minVal x. if x \<ge> minVal \<and> x < maxVal then 1 else 0) vm"

subsection \<open>Cryptographic opcodes\<close>

definition opcodeRipemd160 :: "('pk, 'sg) crypto \<Rightarrow> handler" where
  "opcodeRipemd160 c op vm = hash_top (ripemd160 c) vm"

definition opcodeSha1 :: "('pk, 'sg) crypto \<Rightarrow> handler" where
  "opcodeSha1 c op vm = hash_top (sha1 c) vm"

definition opcodeSha256 :: "('pk, 'sg) crypto \<Rightarrow> handler" where
  "opcodeSha256 c op vm = hash_top (sha256 c) vm"

definition opcodeHash160 :: "('pk, 'sg) crypto \<Rightarrow> handler" where
  "opcodeHash160 c op vm = hash_top (\<lambda>buf. ripemd160 c (sha256 c buf)) vm"

definition opcodeHash256 :: "('pk, 'sg) crypto \<Rightarrow> handler" where
  "opcodeHash256 c op vm = hash_top (DoubleHashB (sha256 c)) vm"

definition opcodeCodeSeparator :: handler where
  "opcodeCodeSeparator op vm = Inr (vm\<lparr>lastCodeSep := scriptOff vm\<rparr>)"

definition opcodeCheckSig :: "('pk, 'sg) crypto \<Rightarrow> handler" where
  "opcodeCheckSig c op vm =
     rbind (PopByteArray (dstack vm)) (\<lambda>(pkBytes, s).
     rbind (PopByteArray s) (\<lambda>(fullSigBytes, s).
     if length fullSigBytes < 1 then Inr (vm\<lparr>dstack := PushBool False s\<rparr>)
     else let hashType = (ucast (last fullSigBytes) :: u32); sigBytes = butlast fullSigBytes in
       rbind (checkHashTypeEncoding hashType) (\<lambda>_.
       rbind (checkSignatureEncoding c sigBytes) (\<lambda>_.
       rbind (checkPubKeyEncoding c pkBytes vm) (\<lambda>_.
       rbind (subScript vm) (\<lambda>script.
       rbind (calcWitnessSignatureHash (sha256 c) script (sigHashes_of c vm) hashType (vm_tx vm)
                (int (txIdx vm)) (inputAmount vm)) (\<lambda>hash.
       case ParsePubKey c pkBytes of
         None \<Rightarrow> Inr (vm\<lparr>dstack := PushBool False s\<rparr>)
       | Some pubKey \<Rightarrow>
         (case ParseDERSignature c sigBytes of
            None \<Rightarrow> Inr (vm\<lparr>dstack := PushBool False s\<rparr>)
          | Some signature \<Rightarrow>
            (let (valid, cache) = verifySig c hash signature pubKey (vm_sigCache vm) in
             if \<not> valid \<and> length sigBytes > 0 then Inl ErrNullFail
             else Inr (vm\<lparr>dstack := PushBool valid s, vm_sigCache := cache\<rparr>))))))))))"

definition opcodeCheckSigVerify :: "('pk, 'sg) crypto \<Rightarrow> handler" where
  "opcodeCheckSigVerify c op vm = rbind (opcodeCheckSig c op vm) (opcodeVerify op)"

record 'sg parsedSigInfo =
  psi_signature :: bytes
  psi_parsedSignature :: "'sg option"
  psi_parsed :: bool

text \<open>The two loops that pop public keys and signatures.\<close>

primrec popN :: "nat \<Rightarrow> stack \<Rightarrow> (bytes list \<times> stack) res" where
  "popN 0 s = Inr ([], s)"
| "popN (Suc k) s = rbind (PopByteArray s) (\<lambda>(x, s). rbind (popN k s) (\<lambda>(xs, s). Inr (x # xs, s)))"

text \<open>
  The verification loop. \<open>pks\<close> is \<^verbatim>\<open>pubKeys[pubKeyIdx+1:]\<close> and \<open>sigs\<close> is
  \<^verbatim>\<open>signatures[signatureIdx:]\<close> at the head of the loop, so \<^verbatim>\<open>numSignatures\<close> is the length of \<open>sigs\<close> and
  \<^verbatim>\<open>numPubKeys\<close>, after its decrement, the length of \<open>pks\<close>. The result is \<^verbatim>\<open>success\<close> and the cache.
\<close>

fun multisig_loop :: "('pk, 'sg) crypto \<Rightarrow> Engine \<Rightarrow> parsedOpcode list \<Rightarrow> bytes list \<Rightarrow>
    'sg parsedSigInfo list \<Rightarrow> SigCache option \<Rightarrow> (bool \<times> SigCache option) res" where
  "multisig_loop c vm script pks [] cache = Inr (True, cache)"
| "multisig_loop c vm script [] (sigInfo # sigs) cache = Inr (False, cache)"
| "multisig_loop c vm script (pubKey # pks) (sigInfo # sigs) cache =
     (if length (sigInfo # sigs) > length (pubKey # pks) then Inr (False, cache)
      else let rawSig = psi_signature sigInfo in
        if length rawSig = 0 then multisig_loop c vm script pks (sigInfo # sigs) cache
        else let hashType = (ucast (last rawSig) :: u32); signature = butlast rawSig in
          rbind (if \<not> psi_parsed sigInfo
                 then rbind (checkHashTypeEncoding hashType) (\<lambda>_.
                      rbind (checkSignatureEncoding c signature) (\<lambda>_.
                      Inr (sigInfo\<lparr>psi_parsed := True, psi_parsedSignature := ParseDERSignature c signature\<rparr>)))
                 else Inr sigInfo) (\<lambda>sigInfo.
          case psi_parsedSignature sigInfo of
            None \<Rightarrow> multisig_loop c vm script pks (sigInfo # sigs) cache
          | Some parsedSig \<Rightarrow>
            rbind (checkPubKeyEncoding c pubKey vm) (\<lambda>_.
            case ParsePubKey c pubKey of
              None \<Rightarrow> multisig_loop c vm script pks (sigInfo # sigs) cache
            | Some parsedPubKey \<Rightarrow>
              rbind (calcWitnessSignatureHash (sha256 c) script (sigHashes_of c vm) hashType (vm_tx vm)
                       (int (txIdx vm)) (inputAmount vm)) (\<lambda>hash.
              let (valid, cache) = verifySig c hash parsedSig parsedPubKey cache in
              if valid then multisig_loop c vm script pks sigs cache
              else multisig_loop c vm script pks (sigInfo # sigs) cache))))"

definition opcodeCheckMultiSig :: "('pk, 'sg) crypto \<Rightarrow> handler" where
  "opcodeCheckMultiSig c op vm =
     rbind (PopInt (dstack vm)) (\<lambda>(numKeys, s).
     let numPubKeys = num_Int32 numKeys in
     if numPubKeys < 0 then Inl ErrStackInvalidPubKey
     else if numPubKeys > int MaxPubKeysPerMultiSig then Inl ErrStackTooManyPubKeys
     else let vm = vm\<lparr>numOps := numOps vm + nat numPubKeys\<rparr> in
       if numOps vm > MaxOpsPerScript then Inl ErrTooManyOperations
       else rbind (popN (nat numPubKeys) s) (\<lambda>(pubKeys, s).
       rbind (PopInt s) (\<lambda>(numSigs, s).
       let numSignatures = num_Int32 numSigs in
       if numSignatures < 0 then Inl ErrStackTooManyPubKeys
       else if numSignatures > numPubKeys then Inl ErrStackTooManyPubKeys
       else rbind (popN (nat numSignatures) s) (\<lambda>(signatures, s).
       rbind (subScript vm) (\<lambda>script.
       let script = (if \<not> isWitnessVersionActive 0 vm then foldl removeOpcodeByData script signatures else script)
       in rbind (multisig_loop c vm script pubKeys
              (map (\<lambda>sg. \<lparr>psi_signature = sg, psi_parsedSignature = None, psi_parsed = False\<rparr>) signatures)
              (vm_sigCache vm)) (\<lambda>(success, cache).
          if \<not> success \<and> (\<exists>sg \<in> set signatures. length sg > 0) then Inl ErrNullFail
          else Inr (vm\<lparr>dstack := PushBool success s, vm_sigCache := cache\<rparr>)))))))"

definition opcodeCheckMultiSigVerify :: "('pk, 'sg) crypto \<Rightarrow> handler" where
  "opcodeCheckMultiSigVerify c op vm = rbind (opcodeCheckMultiSig c op vm) (opcodeVerify op)"

subsection \<open>The handler column of the opcode table\<close>

definition opfunc_push :: "byte \<Rightarrow> handler" where
  "opfunc_push v =
     (if v = OP_0 then opcodeFalse
      else if v \<le> OP_PUSHDATA4 then opcodePushData
      else if v = OP_1NEGATE then opcode1Negate
      else if v = OP_RESERVED then opcodeReserved
      else opcodeN)"

definition opfunc_control :: "byte \<Rightarrow> handler" where
  "opfunc_control v =
     (if v = OP_NOP then opcodeNop
      else if v = OP_VER then opcodeReserved
      else if v = OP_IF then opcodeIf
      else if v = OP_NOTIF then opcodeNotIf
      else if v = OP_VERIF then opcodeReserved
      else if v = OP_VERNOTIF then opcodeReserved
      else if v = OP_ELSE then opcodeElse
      else if v = OP_ENDIF then opcodeEndif
      else if v = OP_VERIFY then opcodeVerify
      else opcodeReturn)"

definition opfunc_stack :: "byte \<Rightarrow> handler" where
  "opfunc_stack v =
     (if v = OP_TOALTSTACK then opcodeToAltStack
      else if v = OP_FROMALTSTACK then opcodeFromAltStack
      else if v = OP_2DROP then opcode2Drop
      else if v = OP_2DUP then opcode2Dup
      else if v = OP_3DUP then opcode3Dup
      else if v = OP_2OVER then opcode2Over
      else if v = OP_2ROT then opcode2Rot
      else if v = OP_2SWAP then opcode2Swap
      else if v = OP_IFDUP then opcodeIfDup
      else if v = OP_DEPTH then opcodeDepth
      else if v = OP_DROP then opcodeDrop
      else if v = OP_DUP then opcodeDup
      else if v = OP_NIP then opcodeNip
      else if v = OP_OVER then opcodeOver
      else if v = OP_PICK then opcodePick
      else if v = OP_ROLL then opcodeRoll
      else if v = OP_ROT then opcodeRot
      else if v = OP_SWAP then opcodeSwap
      else opcodeTuck)"

definition opfunc_splice_bitwise :: "byte \<Rightarrow> handler" where
  "opfunc_splice_bitwise v =
     (if v = OP_CAT then opcodeDisabled
      else if v = OP_SUBSTR then opcodeDisabled
      else if v = OP_LEFT then opcodeDisabled
      else if v = OP_RIGHT then opcodeDisabled
      else if v = OP_SIZE then opcodeSize
      else if v = OP_INVERT then opcodeDisabled
      else if v = OP_AND then opcodeDisabled
      else if v = OP_OR then opcodeDisabled
      else if v = OP_XOR then opcodeDisabled
      else if v = OP_EQUAL then opcodeEqual
      else if v = OP_EQUALVERIFY then opcodeEqualVerify
      else opcodeReserved)"

definition opfunc_numeric :: "byte \<Rightarrow> handler" where
  "opfunc_numeric v =
     (if v = OP_1ADD then opcode1Add
      else if v = OP_1SUB then opcode1Sub
      else if v = OP_2MUL then opcodeDisabled
      else if v = OP_2DIV then opcodeDisabled
      else if v = OP_NEGATE then opcodeNegate
      else if v = OP_ABS then opcodeAbs
      else if v = OP_NOT then opcodeNot
      else if v = OP_0NOTEQUAL then opcode0NotEqual
      else if v = OP_ADD then opcodeAdd
      else if v = OP_SUB then opcodeSub
      else if v = OP_MUL then opcodeDisabled
      else if v = OP_DIV then opcodeDisabled
      else if v = OP_MOD then opcodeDisabled
      else if v = OP_LSHIFT then opcodeDisabled
      else if v = OP_RSHIFT then opcodeDisabled
      else if v = OP_BOOLAND then opcodeBoolAnd
      else if v = OP_BOOLOR then opcodeBoolOr
      else if v = OP_NUMEQUAL then opcodeNumEqual
      else if v = OP_NUMEQUALVERIFY then opcodeNumEqualVerify
      else if v = OP_NUMNOTEQUAL then opcodeNumNotEqual
      else if v = OP_LESSTHAN then opcodeLessThan
      else if v = OP_GREATERTHAN then opcodeGreaterThan
      else if v = OP_LESSTHANOREQUAL then opcodeLessThanOrEqual
      else if v = OP_GREATERTHANOREQUAL then opcodeGreaterThanOrEqual
      else if v = OP_MIN then opcodeMin
      else if v = OP_MAX then opcodeMax
      else opcodeWithin)"

definition opfunc_crypto :: "('pk, 'sg) crypto \<Rightarrow> byte \<Rightarrow> handler" where
  "opfunc_crypto c v =
     (if v = OP_RIPEMD160 then opcodeRipemd160 c
      else if v = OP_SHA1 then opcodeSha1 c
      else if v = OP_SHA256 then opcodeSha256 c
      else if v = OP_HASH160 then opcodeHash160 c
      else if v = OP_HASH256 then opcodeHash256 c
      else if v = OP_CODESEPARATOR then opcodeCodeSeparator
      else if v = OP_CHECKSIG then opcodeCheckSig c
      else if v = OP_CHECKSIGVERIFY then opcodeCheckSigVerify c
      else if v = OP_CHECKMULTISIG then opcodeCheckMultiSig c
      else opcodeCheckMultiSigVerify c)"

text \<open>The reserved opcodes 0xb0 to 0xb9: the two lock time checks have taken the place of NOP2 and NOP3.\<close>

definition opfunc_nop :: "byte \<Rightarrow> handler" where
  "opfunc_nop v =
     (if v = OP_CHECKLOCKTIMEVERIFY then opcodeCheckLockTimeVerify
      else if v = OP_CHECKSEQUENCEVERIFY then opcodeCheckSequenceVerify
      else opcodeNop)"

definition opfunc :: "('pk, 'sg) crypto \<Rightarrow> byte \<Rightarrow> handler" where
  "opfunc c v =
     (if v \<le> OP_16 then opfunc_push v
      else if v \<le> OP_RETURN then opfunc_control v
      else if v \<le> OP_TUCK then opfunc_stack v
      else if v \<le> OP_RESERVED2 then opfunc_splice_bitwise v
      else if v \<le> OP_WITHIN then opfunc_numeric v
      else if v \<le> OP_CHECKMULTISIGVERIFY then opfunc_crypto c v
      else if v \<le> OP_NOP10 then opfunc_nop v
      else opcodeInvalid)"

end
