(* ===== verification/Script_Engine.thy ===== *)
theory Script_Engine
  imports Engine_Ops
begin

text \<open>
  The script engine of \<^verbatim>\<open>src/txscript/engine.go\<close>: execution of one opcode under the conditional
  stack, the step function with its switch to the witness scripts, the run loop and the
  construction of an engine for a transaction input. The run loop is a \<open>partial_function\<close>; that it
  returns on every engine is proved in theory \<open>Engine_Run\<close>. Logging and disassembly are left out.
\<close>

section \<open>Model\<close>

definition executeOpcode :: "('pk, 'sg) crypto \<Rightarrow> parsedOpcode \<Rightarrow> Engine \<Rightarrow> Engine res" where
  "executeOpcode c pop vm =
     (if isDisabled pop then Inl ErrStackOpDisabled
      else if alwaysIllegal pop then Inl ErrStackReservedOpcode
      else rbind (if pop_value pop > OP_16
                  then (let vm = vm\<lparr>numOps := numOps vm + 1\<rparr> in
                        if numOps vm > MaxOpsPerScript then Inl ErrStackTooManyOperations else Inr vm)
                  else if length (pop_data pop) > MaxScriptElementSize then Inl ErrStackElementTooBig
                  else Inr vm) (\<lambda>vm.
        if \<not> isBranchExecuting vm \<and> \<not> isConditional pop then Inr vm
        else rbind (if verifyMinimalData (dstack vm) \<and> isBranchExecuting vm \<and> pop_value pop \<ge> 0 \<and>
                       pop_value pop \<le> OP_PUSHDATA4
                    then checkMinimalDataPush pop else Inr ()) (\<lambda>_.
          opfunc c (pop_value pop) pop vm)))"

definition CheckErrorCondition :: "bool \<Rightarrow> Engine \<Rightarrow> unit res" where
  "CheckErrorCondition finalScript vm =
     (if scriptIdx vm < length (scripts vm) then Inl ErrStackScriptUnfinished
      else if finalScript \<and> Depth (dstack vm) \<noteq> 1 then Inl ErrStackCleanStack
      else if Depth (dstack vm) < 1 then Inl ErrStackEmptyStack
      else rbind (PopBool (dstack vm)) (\<lambda>(v, _). if \<not> v then Inl ErrStackScriptFailed else Inr ()))"

text \<open>\<^verbatim>\<open>_ = s.DropN(s.Depth())\<close>: the error is ignored. \<^verbatim>\<open>DropN(0)\<close> fails without changing the stack.\<close>

definition drop_all :: "stack \<Rightarrow> stack" where
  "drop_all s = (case DropN (Depth s) s of Inr s' \<Rightarrow> s' | Inl _ \<Rightarrow> s)"

text \<open>\<^verbatim>\<open>PeekByteArray\<close> cannot fail here; its error would leave a nil element.\<close>

definition getStack :: "stack \<Rightarrow> bytes list" where
  "getStack s = rev (map (\<lambda>i. case PeekByteArray (int i) s of Inr b \<Rightarrow> b | Inl _ \<Rightarrow> []) [0 ..< nat (Depth s)])"

definition setStack :: "bytes list \<Rightarrow> stack \<Rightarrow> stack" where
  "setStack data s = foldl (\<lambda>s b. PushByteArray b s) (drop_all s) data"

definition GetStack :: "Engine \<Rightarrow> bytes list" where
  "GetStack vm = getStack (dstack vm)"

definition SetStack :: "bytes list \<Rightarrow> Engine \<Rightarrow> Engine" where
  "SetStack data vm = vm\<lparr>dstack := setStack data (dstack vm)\<rparr>"

abbreviation (input) BindingTxFrozenPeriod :: nat where "BindingTxFrozenPeriod \<equiv> 172800"

text \<open>
  \<^verbatim>\<open>NewScriptBuilder().AddData(buf).AddOp(OP_CHECKSEQUENCEVERIFY).AddOp(OP_DROP).Script()\<close>, parsed:
  the script that enforces a relative lock.
\<close>

definition lock_pops :: "bytes \<Rightarrow> parsedOpcode list res" where
  "lock_pops buf =
     (case Script (AddOp OP_DROP (AddOp OP_CHECKSEQUENCEVERIFY (AddData buf NewScriptBuilder))) of
        (_, Some err) \<Rightarrow> Inl err
      | (pkScript, None) \<Rightarrow>
         (case parseScript pkScript of (_, Some err) \<Rightarrow> Inl err | (pops, None) \<Rightarrow> Inr pops))"

definition frozen_pops :: "bytes \<Rightarrow> bool \<Rightarrow> parsedOpcode list res" where
  "frozen_pops data minimal =
     rbind (makeScriptNum data minimal 9) (\<lambda>frozenPeriod.
       if frozenPeriod < 0 \<or> i64 (frozenPeriod + 1) < 0 then Inl (ErrorText ''invalid frozen period'')
       else lock_pops (put_le 8 (unat (word_of_int (i64 (frozenPeriod + 1)) :: u64))))"

text \<open>The scripts the extension program adds in front of the witness.\<close>

definition ext_scripts :: "Engine \<Rightarrow> parsedOpcode list list res" where
  "ext_scripts vm =
     (let ext = witnessExtProg vm in
      if length ext = 0 then Inr []
      else if length ext = 1
      then (let d = pop_data (ext ! 0) in
            if length d = WitnessV0FrozenPeriodDataSize
            then rbind (frozen_pops d (verifyMinimalData (dstack vm))) (\<lambda>pops. Inr [pops])
            else if length d = WitnessV0PoCPubKeyHashDataSize
            then rbind (lock_pops (put_le 8 BindingTxFrozenPeriod)) (\<lambda>pops. Inr [pops])
            else if length d = WitnessV0PoolTypeDataSize then Inr []
            else Inl ErrWitnessExtProgUnknown)
      else if length ext = 2
      then (if length (pop_data (ext ! 0)) = WitnessV0PoolTypeDataSize \<and>
               length (pop_data (ext ! 1)) = WitnessV0FrozenPeriodDataSize
            then rbind (frozen_pops (pop_data (ext ! 1)) (verifyMinimalData (dstack vm))) (\<lambda>pops. Inr [pops])
            else Inl ErrWitnessExtProgUnknown)
      else Inl ErrWitnessExtProgUnknown)"

text \<open>The loop over the witness: each element must fit the size limit and parse.\<close>

primrec witness_scripts :: "bytes list \<Rightarrow> parsedOpcode list list res" where
  "witness_scripts [] = Inr []"
| "witness_scripts (script # ws) =
     (if length script > maxScriptSize then Inl ErrScriptTooBig
      else (case parseScript script of
              (_, Some err) \<Rightarrow> Inl err
            | (pops, None) \<Rightarrow> rbind (witness_scripts ws) (\<lambda>ps. Inr (pops # ps))))"

definition verifyWitnessProgram :: "('pk, 'sg) crypto \<Rightarrow> bytes list \<Rightarrow> Engine \<Rightarrow> Engine res" where
  "verifyWitnessProgram c witness vm =
     (if \<not> isWitnessVersionActive 0 vm then Inl ErrDiscourageUpgradableWitnessProgram
      else if length witness \<noteq> 2 then Inl ErrWitnessLength
      else if length (witness ! 0) = 0 \<or> length (witness ! 1) = 0 then Inl ErrWitnessLength
      else if Some (sha256 c (witness ! 1)) \<noteq> witnessProgram vm then Inl ErrWitnessProgramMismatch
      else rbind (ext_scripts vm) (\<lambda>ext.
        rbind (witness_scripts witness) (\<lambda>ws.
          let vm = vm\<lparr>scripts := scripts vm @ ext @ ws\<rparr> in
          if (\<exists>witElement \<in> set (GetStack vm). length witElement > MaxScriptElementSize)
          then Inl ErrStackElementTooBig else Inr vm)))"

text \<open>The preparation for the next script, when the current one is at its end.\<close>

definition next_script :: "('pk, 'sg) crypto \<Rightarrow> Engine \<Rightarrow> (bool \<times> Engine) res" where
  "next_script c vm =
     (if condStack vm \<noteq> [] then Inl ErrStackMissingEndif
      else let vm = vm\<lparr>astack := drop_all (astack vm), numOps := 0, scriptOff := 0\<rparr> in
        rbind (if scriptIdx vm = 0 \<and> witnessProgram vm \<noteq> None
               then (let vm = vm\<lparr>scriptIdx := scriptIdx vm + 1\<rparr> in
                     if Depth (dstack vm) \<noteq> 2 \<and> Depth (dstack vm) \<noteq> 3 then Inl ErrStackUnderflow
                     else let vm = vm\<lparr>dstack := drop_all (dstack vm)\<rparr> in
                       rbind (cur_TxIn vm) (\<lambda>txIn. verifyWitnessProgram c (in_Witness txIn) vm))
               else Inr (vm\<lparr>scriptIdx := scriptIdx vm + 1\<rparr>)) (\<lambda>vm.
          let vm = (if scriptIdx vm < length (scripts vm) \<and> scriptOff vm \<ge> length (scripts vm ! scriptIdx vm)
                    then vm\<lparr>scriptIdx := scriptIdx vm + 1\<rparr> else vm);
              vm = vm\<lparr>lastCodeSep := 0\<rparr>
          in Inr (scriptIdx vm \<ge> length (scripts vm), vm)))"

definition Step :: "('pk, 'sg) crypto \<Rightarrow> Engine \<Rightarrow> (bool \<times> Engine) res" where
  "Step c vm =
     rbind (validPC vm) (\<lambda>_.
     let opcode = scripts vm ! scriptIdx vm ! scriptOff vm; vm = vm\<lparr>scriptOff := scriptOff vm + 1\<rparr> in
     rbind (executeOpcode c opcode vm) (\<lambda>vm.
       if i32 (Depth (dstack vm) + Depth (astack vm)) > maxStackSize then Inl ErrStackOverflow
       else if scriptOff vm \<ge> length (scripts vm ! scriptIdx vm) then next_script c vm
       else Inr (False, vm)))"

partial_function (option) Execute :: "('pk, 'sg) crypto \<Rightarrow> Engine \<Rightarrow> unit res option" where
  "Execute c vm =
     (case Step c vm of
        Inl err \<Rightarrow> Some (Inl err)
      | Inr r \<Rightarrow> (if fst r then Some (CheckErrorCondition True (snd r)) else Execute c (snd r)))"

text \<open>
  In the source \<^verbatim>\<open>NewEngine\<close> also refuses a witness when the extracted program is nil; a witness program
  has at least two bytes, so the program is never nil there.
\<close>

definition NewEngine ::
  "bytes \<Rightarrow> MsgTx \<Rightarrow> int \<Rightarrow> u32 \<Rightarrow> SigCache option \<Rightarrow> TxSigHashes option \<Rightarrow> int \<Rightarrow> Engine res" where
  "NewEngine pkScript tx idx fl sigCache hashCache amount =
     (if idx < 0 \<or> idx \<ge> int (length (tx_TxIn tx)) then Inl ErrStackInvalidIndex
      else if length pkScript = 0 then Inl ErrWitnessUnexpected
      else if length pkScript > maxScriptSize then Inl ErrScriptTooBig
      else (case parseScript pkScript of
        (_, Some err) \<Rightarrow> Inl err
      | (pops, None) \<Rightarrow>
        (let vm = \<lparr>scripts = [pops], scriptIdx = 0, scriptOff = 0, lastCodeSep = 0,
             dstack = \<lparr>stk = [], verifyMinimalData = False\<rparr>, astack = \<lparr>stk = [], verifyMinimalData = False\<rparr>,
             vm_tx = tx, txIdx = nat idx, condStack = [], numOps = 0, flags = fl, vm_sigCache = sigCache,
             vm_hashCache = hashCache, witnessVersion = 0, witnessProgram = None, witnessExtProg = [],
             inputAmount = amount\<rparr>
         in if isWitnessProgram pops
            then rbind (extractWitnessProgramInfo pops) (\<lambda>(ver, prog, ext).
                   Inr (vm\<lparr>witnessVersion := ver, witnessProgram := Some prog, witnessExtProg := ext\<rparr>))
            else Inr vm)))"

end
