(* ===== verification/Engine_Inv.thy ===== *)
theory Engine_Inv
  imports Script_Engine
begin

text \<open>
  What every opcode handler keeps: which fields of the engine it may touch, how far the stacks can
  grow, the size of stack elements, and that it does not panic. The contracts are stated once for
  stack transformers (\<open>grows\<close>) and once for handlers (\<open>handler_ok\<close>, \<open>no_panic\<close>), proved for the
  building blocks, and combined for the whole dispatch table.
\<close>

section \<open>Stack transformers\<close>

named_theorems grow_intros \<open>introduction rules for the growth contract of stack transformers\<close>

definition stack_wf :: "nat \<Rightarrow> stack \<Rightarrow> bool" where
  "stack_wf n s \<longleftrightarrow> length (stk s) \<le> n \<and> (\<forall>x \<in> set (stk s). length x \<le> MaxScriptElementSize)"

text \<open>\<open>f\<close> adds at most \<open>k\<close> elements, none above the size limit, and does not panic.\<close>

definition grows :: "nat \<Rightarrow> (stack \<Rightarrow> stack res) \<Rightarrow> bool" where
  "grows k f \<longleftrightarrow> (\<forall>n s. n + k \<le> 100000 \<longrightarrow> stack_wf n s \<longrightarrow>
     (case f s of Inl e \<Rightarrow> e \<noteq> GoPanic
      | Inr s' \<Rightarrow> stack_wf (n + k) s' \<and> verifyMinimalData s' = verifyMinimalData s))"

lemma stack_wf_mono: "stack_wf n s \<Longrightarrow> n \<le> m \<Longrightarrow> stack_wf m s"
  by (simp add: stack_wf_def)

lemma stack_wf_sized: "stack_wf n s \<Longrightarrow> n \<le> 100000 \<Longrightarrow> sized s"
  by (simp add: stack_wf_def)

lemma growsI:
  assumes "\<And>n s. n + k \<le> 100000 \<Longrightarrow> stack_wf n s \<Longrightarrow> f s \<noteq> Inl GoPanic"
    and "\<And>n s s'. n + k \<le> 100000 \<Longrightarrow> stack_wf n s \<Longrightarrow> f s = Inr s' \<Longrightarrow>
      stack_wf (n + k) s' \<and> verifyMinimalData s' = verifyMinimalData s"
  shows "grows k f"
  using assms unfolding grows_def by (auto split: sum.splits)

lemma growsD:
  assumes "grows k f" "n + k \<le> 100000" "stack_wf n s"
  shows "f s \<noteq> Inl GoPanic"
    and "f s = Inr s' \<Longrightarrow> stack_wf (n + k) s' \<and> verifyMinimalData s' = verifyMinimalData s"
  using assms unfolding grows_def by (force split: sum.splits)+

lemma grows_mono:
  assumes "grows k f" "k \<le> m"
  shows "grows m f"
proof (rule growsI)
  fix n s assume "n + m \<le> 100000" "stack_wf n s"
  then show "f s \<noteq> Inl GoPanic" using growsD(1) [OF assms(1), of n s] assms(2) by simp
next
  fix n s s' assume a: "n + m \<le> 100000" "stack_wf n s" "f s = Inr s'"
  then have "stack_wf (n + k) s' \<and> verifyMinimalData s' = verifyMinimalData s"
    using growsD(2) [OF assms(1), of n s s'] assms(2) by simp
  then show "stack_wf (n + m) s' \<and> verifyMinimalData s' = verifyMinimalData s"
    using assms(2) stack_wf_mono [of "n + k" s' "n + m"] by simp
qed

lemma grows_fail [grow_intros]: "e \<noteq> GoPanic \<Longrightarrow> grows k (\<lambda>s. Inl e)"
  by (rule growsI) auto

lemma grows_id [grow_intros]: "grows k Inr"
  by (rule growsI) (auto elim: stack_wf_mono)

lemma grows_if [grow_intros]: "grows k f \<Longrightarrow> grows k g \<Longrightarrow> grows k (\<lambda>s. if b then f s else g s)"
  by (cases b) simp_all

lemma grows_push: "length x \<le> MaxScriptElementSize \<Longrightarrow> grows 1 (\<lambda>s. Inr (PushByteArray x s))"
  by (rule growsI) (auto simp: stack_wf_def)

lemma grows_PushBool: "grows 1 (\<lambda>s. Inr (PushBool b s))"
  unfolding PushBool_def by (rule grows_push) (simp add: fromBool_def)

lemma num_Bytes_short:
  assumes "\<bar>v\<bar> < 2 ^ 62"
  shows "\<exists>b. num_Bytes v = Inr b \<and> length b \<le> 8"
proof -
  have "\<bar>v\<bar> < 128 * 256 ^ 7" using assms by simp
  from num_Bytes_encodes [OF this] show ?thesis by auto
qed

lemma grows_PushInt: "\<bar>v\<bar> < 2 ^ 62 \<Longrightarrow> grows 1 (PushInt v)"
proof -
  assume "\<bar>v\<bar> < 2 ^ 62"
  then obtain b where b: "num_Bytes v = Inr b" "length b \<le> 8" using num_Bytes_short by blast
  then have "PushInt v = (\<lambda>s. Inr (PushByteArray b s))" by (simp add: PushInt_def fun_eq_iff)
  then show ?thesis using b grows_push [of b] by simp
qed

text \<open>Taking an item off the stack, or looking at one, before continuing with it.\<close>

lemma grows_nip:
  assumes "\<And>x. length x \<le> MaxScriptElementSize \<Longrightarrow> grows k (g x)"
  shows "grows k (\<lambda>s. rbind (nipN i s) (\<lambda>(x, s). g x s))"
proof -
  have *: "nipN i s = Inl ErrStackUnderflow \<or>
      (\<exists>x s'. nipN i s = Inr (x, s') \<and> length x \<le> MaxScriptElementSize \<and> stack_wf n s' \<and>
        verifyMinimalData s' = verifyMinimalData s)" if "n + k \<le> 100000" "stack_wf n s" for n s
  proof (rule nipN_cases [of s i])
    show "sized s" using that stack_wf_sized by auto
  next
    fix xs y ys assume "stk s = xs @ y # ys" "nipN i s = Inr (y, s\<lparr>stk := xs @ ys\<rparr>)"
    then show ?thesis using that(2) by (auto simp: stack_wf_def)
  qed simp
  show ?thesis
  proof (rule growsI)
    fix n s assume a: "n + k \<le> 100000" "stack_wf n s"
    then show "rbind (nipN i s) (\<lambda>(x, s). g x s) \<noteq> Inl GoPanic" using * [OF a] growsD(1) [OF assms] by (auto simp: rbind_eq_Inl)
  next
    fix n s s' assume a: "n + k \<le> 100000" "stack_wf n s" "rbind (nipN i s) (\<lambda>(x, s). g x s) = Inr s'"
    then show "stack_wf (n + k) s' \<and> verifyMinimalData s' = verifyMinimalData s"
      using * [OF a(1,2)] growsD(2) [OF assms] by (auto simp: rbind_eq_Inr)
  qed
qed

lemma grows_pop:
  assumes "\<And>x. length x \<le> MaxScriptElementSize \<Longrightarrow> grows k (g x)"
  shows "grows k (\<lambda>s. rbind (PopByteArray s) (\<lambda>(x, s). g x s))"
  unfolding PopByteArray_def by (rule grows_nip [OF assms])

lemma grows_peek:
  assumes "\<And>x. length x \<le> MaxScriptElementSize \<Longrightarrow> grows k (g x)"
  shows "grows k (\<lambda>s. rbind (PeekByteArray i s) (\<lambda>x. g x s))"
proof -
  have *: "PeekByteArray i s = Inl ErrStackUnderflow \<or>
      (\<exists>x. PeekByteArray i s = Inr x \<and> length x \<le> MaxScriptElementSize)"
    if "n + k \<le> 100000" "stack_wf n s" for n s
  proof (cases "i < 0 \<or> i \<ge> int (length (stk s))")
    case True
    then show ?thesis using Peek_underflow stack_wf_sized that by auto
  next
    case False
    then obtain xs y ys where d: "stk s = xs @ y # ys" "i = int (length ys)"
      using nth_from_top [of i "stk s"] by auto
    have "sized s" using that stack_wf_sized by auto
    then have "PeekByteArray i s = Inr y" using Peek_append d by blast
    then show ?thesis using d that(2) by (auto simp: stack_wf_def)
  qed
  show ?thesis
  proof (rule growsI)
    fix n s assume a: "n + k \<le> 100000" "stack_wf n s"
    then show "rbind (PeekByteArray i s) (\<lambda>x. g x s) \<noteq> Inl GoPanic" using * [OF a] growsD(1) [OF assms] by (auto simp: rbind_eq_Inl)
  next
    fix n s s' assume a: "n + k \<le> 100000" "stack_wf n s" "rbind (PeekByteArray i s) (\<lambda>x. g x s) = Inr s'"
    then show "stack_wf (n + k) s' \<and> verifyMinimalData s' = verifyMinimalData s"
      using * [OF a(1,2)] growsD(2) [OF assms] by (auto simp: rbind_eq_Inr)
  qed
qed

lemma makeScriptNum_range:
  assumes "makeScriptNum b m (Suc k) = Inr v" "k < 8"
  shows "\<bar>v\<bar> < 128 * 256 ^ k"
proof -
  have len: "length b \<le> Suc k" using assms(1) by (simp add: makeScriptNum_def split: if_splits)
  then have "v = sm_val b" using assms by (auto simp: makeScriptNum_eq rbind_eq_Inr split: if_splits)
  then show ?thesis using sm_val_bound [OF len] by simp
qed

lemma makeScriptNum_no_panic: "makeScriptNum b m k \<noteq> Inl GoPanic"
  by (auto simp: makeScriptNum_def checkMinimalDataEncoding_def Let_def rbind_eq_Inl split: if_splits)

lemma grows_PopInt:
  assumes "\<And>v. \<bar>v\<bar> < 2147483648 \<Longrightarrow> grows k (g v)"
  shows "grows k (\<lambda>s. rbind (PopInt s) (\<lambda>(v, s). g v s))"
proof -
  have eq: "(\<lambda>s. rbind (PopInt s) (\<lambda>(v, s). g v s)) = (\<lambda>s. rbind (PopByteArray s) (\<lambda>(x, s').
      rbind (makeScriptNum x (verifyMinimalData s) 4) (\<lambda>v. g v s')))"
    by (auto simp: PopInt_def rbind_assoc fun_eq_iff intro!: rbind_cong split: prod.splits)
  have *: "grows k (\<lambda>s'. rbind (makeScriptNum x m 4) (\<lambda>v. g v s'))" for x m
  proof (cases "makeScriptNum x m 4")
    case (Inl e)
    then show ?thesis using makeScriptNum_no_panic [of x m 4] grows_fail by auto
  next
    case (Inr v)
    then have "\<bar>v\<bar> < 2147483648" using makeScriptNum_range [of x m 3 v] by simp
    then show ?thesis using Inr assms by simp
  qed
  note pop = grows_pop [of k "\<lambda>x s'. rbind (makeScriptNum x (verifyMinimalData s) 4) (\<lambda>v. g v s')" for s, OF *]
  show ?thesis unfolding eq
  proof (rule growsI)
    fix n s assume a: "n + k \<le> 100000" "stack_wf n s"
    show "rbind (PopByteArray s) (\<lambda>(x, s'). rbind (makeScriptNum x (verifyMinimalData s) 4) (\<lambda>v. g v s')) \<noteq> Inl GoPanic"
      by (rule growsD(1) [OF pop a])
  next
    fix n s s' assume a: "n + k \<le> 100000" "stack_wf n s"
      "rbind (PopByteArray s) (\<lambda>(x, s'). rbind (makeScriptNum x (verifyMinimalData s) 4) (\<lambda>v. g v s')) = Inr s'"
    then show "stack_wf (n + k) s' \<and> verifyMinimalData s' = verifyMinimalData s"
      by (intro growsD(2) [OF pop a(1,2)])
  qed
qed

lemma grows_PopBool:
  assumes "\<And>b. grows k (g b)"
  shows "grows k (\<lambda>s. rbind (PopBool s) (\<lambda>(b, s). g b s))"
proof -
  have "(\<lambda>s. rbind (PopBool s) (\<lambda>(b, s). g b s)) = (\<lambda>s. rbind (PopByteArray s) (\<lambda>(x, s). g (asBool x) s))"
    by (auto simp: PopBool_def rbind_assoc fun_eq_iff intro!: rbind_cong split: prod.splits)
  then show ?thesis using grows_pop [of k "\<lambda>x. g (asBool x)"] assms by simp
qed

lemma grows_rloop: "grows 1 f \<Longrightarrow> grows k (rloop k f)"
proof (induction k)
  case 0
  have "rloop 0 f = Inr" by (simp add: fun_eq_iff)
  then show ?case using grows_id by simp
next
  case (Suc k)
  show ?case
  proof (rule growsI)
    fix n s assume a: "n + Suc k \<le> 100000" "stack_wf n s"
    show "rloop (Suc k) f s \<noteq> Inl GoPanic"
    proof (cases "f s")
      case (Inl e')
      then show ?thesis using a growsD(1) [OF Suc.prems, of n s] by simp
    next
      case (Inr s1)
      then have "stack_wf (n + 1) s1" using growsD(2) [OF Suc.prems, of n s s1] a by simp
      then show ?thesis using growsD(1) [OF Suc.IH [OF Suc.prems], of "n + 1" s1] a Inr by simp
    qed
  next
    fix n s s' assume a: "n + Suc k \<le> 100000" "stack_wf n s" "rloop (Suc k) f s = Inr s'"
    then obtain s1 where s1: "f s = Inr s1" "rloop k f s1 = Inr s'" by (auto simp: rbind_eq_Inr)
    then have "stack_wf (n + 1) s1 \<and> verifyMinimalData s1 = verifyMinimalData s"
      using growsD(2) [OF Suc.prems, of n s s1] a by simp
    then show "stack_wf (n + Suc k) s' \<and> verifyMinimalData s' = verifyMinimalData s"
      using growsD(2) [OF Suc.IH [OF Suc.prems], of "n + 1" s1 s'] a s1 by simp
  qed
qed

section \<open>The stack words\<close>

lemma grows_DropN: "grows (nat n) (DropN n)"
proof -
  have "grows 1 (\<lambda>s. rbind (PopByteArray s) (\<lambda>(_, s'). Inr s'))"
    using grows_pop [of 1 "\<lambda>_. Inr"] grows_id by simp
  then show ?thesis unfolding DropN_def by (intro grows_if grows_fail grows_rloop) simp_all
qed

lemma grows_pick: "grows 1 (\<lambda>s. rbind (PeekByteArray i s) (\<lambda>so. Inr (PushByteArray so s)))"
  by (rule grows_peek) (rule grows_push)

lemma grows_roll: "grows 1 (\<lambda>s. rbind (nipN i s) (\<lambda>(so, s'). Inr (PushByteArray so s')))"
  by (rule grows_nip) (rule grows_push)

lemma grows_words:
  "grows (nat n) (DupN n)" "grows (nat n) (RotN n)" "grows (nat n) (SwapN n)" "grows (nat n) (OverN n)"
  unfolding DupN_def RotN_def SwapN_def OverN_def Let_def
  by (intro grows_if grows_fail grows_rloop grows_pick grows_roll; simp)+

lemma grows_PickN: "grows 1 (PickN n)"
  unfolding PickN_def by (rule grows_pick)

lemma grows_RollN: "grows 1 (RollN n)"
  unfolding RollN_def by (rule grows_roll)

lemma grows_NipN: "grows 0 (NipN n)"
  unfolding NipN_def using grows_nip [of 0 "\<lambda>_. Inr"] grows_id by simp

lemma grows_Tuck: "grows 3 Tuck"
  unfolding Tuck_def
proof (intro grows_pop)
  fix x y :: bytes assume "length x \<le> MaxScriptElementSize" "length y \<le> MaxScriptElementSize"
  then show "grows 3 (\<lambda>s. Inr (PushByteArray x (PushByteArray y (PushByteArray x s))))"
    by (intro growsI) (auto simp: stack_wf_def)
qed

section \<open>Handlers\<close>

definition frame :: "Engine \<Rightarrow> Engine \<Rightarrow> bool" where
  "frame vm vm' \<longleftrightarrow>
     scripts vm' = scripts vm \<and> scriptIdx vm' = scriptIdx vm \<and> scriptOff vm' = scriptOff vm \<and>
     vm_tx vm' = vm_tx vm \<and> txIdx vm' = txIdx vm \<and> flags vm' = flags vm \<and>
     vm_hashCache vm' = vm_hashCache vm \<and> witnessVersion vm' = witnessVersion vm \<and>
     witnessProgram vm' = witnessProgram vm \<and> witnessExtProg vm' = witnessExtProg vm \<and>
     inputAmount vm' = inputAmount vm \<and>
     verifyMinimalData (dstack vm') = verifyMinimalData (dstack vm) \<and>
     verifyMinimalData (astack vm') = verifyMinimalData (astack vm)"

definition engine_wf :: "nat \<Rightarrow> Engine \<Rightarrow> bool" where
  "engine_wf n vm \<longleftrightarrow> stack_wf n (dstack vm) \<and> stack_wf n (astack vm)"

definition small_op :: "parsedOpcode \<Rightarrow> bool" where
  "small_op op \<longleftrightarrow> length (pop_data op) \<le> MaxScriptElementSize"

definition handler_ok :: "nat \<Rightarrow> handler \<Rightarrow> bool" where
  "handler_ok k h \<longleftrightarrow> (\<forall>n op vm vm'. n + k \<le> 90000 \<longrightarrow> engine_wf n vm \<longrightarrow> small_op op \<longrightarrow> h op vm = Inr vm' \<longrightarrow>
     frame vm vm' \<and> engine_wf (n + k) vm' \<and> condStack vm' = condStack vm \<and>
     numOps vm \<le> numOps vm' \<and> (numOps vm \<le> MaxOpsPerScript \<longrightarrow> numOps vm' \<le> MaxOpsPerScript) \<and>
     (lastCodeSep vm' = lastCodeSep vm \<or> lastCodeSep vm' = scriptOff vm))"

definition no_panic :: "handler \<Rightarrow> bool" where
  "no_panic h \<longleftrightarrow> (\<forall>n op vm. n \<le> 80000 \<longrightarrow> engine_wf n vm \<longrightarrow> small_op op \<longrightarrow>
     txIdx vm < length (tx_TxIn (vm_tx vm)) \<longrightarrow> h op vm \<noteq> Inl GoPanic)"

lemma frame_refl [simp]: "frame vm vm"
  by (simp add: frame_def)

lemma frame_trans: "frame a b \<Longrightarrow> frame b c \<Longrightarrow> frame a c"
  by (simp add: frame_def)

lemma engine_wf_mono: "engine_wf n vm \<Longrightarrow> n \<le> m \<Longrightarrow> engine_wf m vm"
  unfolding engine_wf_def stack_wf_def by auto

lemma handler_okD:
  assumes "handler_ok k h" "n + k \<le> 90000" "engine_wf n vm" "small_op op" "h op vm = Inr vm'"
  shows "frame vm vm'" "engine_wf (n + k) vm'" "condStack vm' = condStack vm" "numOps vm \<le> numOps vm'"
    "numOps vm \<le> MaxOpsPerScript \<Longrightarrow> numOps vm' \<le> MaxOpsPerScript"
    "lastCodeSep vm' = lastCodeSep vm \<or> lastCodeSep vm' = scriptOff vm"
  using assms unfolding handler_ok_def by blast+

lemma handler_ok_mono:
  assumes "handler_ok k h" "k \<le> m"
  shows "handler_ok m h"
  unfolding handler_ok_def
proof (intro allI impI)
  fix n op vm vm' assume a: "n + m \<le> 90000" "engine_wf n vm" "small_op op" "h op vm = Inr vm'"
  then have "n + k \<le> 90000" using assms(2) by simp
  note d = handler_okD [OF assms(1) this a(2-4)]
  have "engine_wf (n + m) vm'" using d(2) assms(2) by (auto elim: engine_wf_mono)
  with d show "frame vm vm' \<and> engine_wf (n + m) vm' \<and> condStack vm' = condStack vm \<and>
     numOps vm \<le> numOps vm' \<and> (numOps vm \<le> MaxOpsPerScript \<longrightarrow> numOps vm' \<le> MaxOpsPerScript) \<and>
     (lastCodeSep vm' = lastCodeSep vm \<or> lastCodeSep vm' = scriptOff vm)" by blast
qed

lemma handler_ok_dstack:
  assumes "\<And>op. small_op op \<Longrightarrow> grows k (f op)"
  shows "handler_ok k (\<lambda>op vm. on_dstack (f op) vm)"
  unfolding handler_ok_def
proof (intro allI impI)
  fix n op vm vm'
  assume a: "n + k \<le> 90000" "engine_wf n vm" "small_op op" "on_dstack (f op) vm = Inr vm'"
  then obtain s where s: "f op (dstack vm) = Inr s" "vm' = vm\<lparr>dstack := s\<rparr>"
    unfolding on_dstack_def by (auto simp: rbind_eq_Inr)
  note d = growsD(2) [OF assms [OF a(3)], of n "dstack vm" s]
  then show "frame vm vm' \<and> engine_wf (n + k) vm' \<and> condStack vm' = condStack vm \<and>
     numOps vm \<le> numOps vm' \<and> (numOps vm \<le> MaxOpsPerScript \<longrightarrow> numOps vm' \<le> MaxOpsPerScript) \<and>
     (lastCodeSep vm' = lastCodeSep vm \<or> lastCodeSep vm' = scriptOff vm)"
    using a s engine_wf_mono [OF a(2), of "n + k"] by (auto simp: frame_def engine_wf_def)
qed

lemma no_panic_dstack:
  assumes "\<And>op. small_op op \<Longrightarrow> grows 3 (f op)"
  shows "no_panic (\<lambda>op vm. on_dstack (f op) vm)"
  unfolding no_panic_def
proof (intro allI impI)
  fix n op vm assume "n \<le> 80000" "engine_wf n vm" "small_op op"
  then have "f op (dstack vm) \<noteq> Inl GoPanic"
    using growsD(1) [OF assms [of op], of n "dstack vm"] by (simp add: engine_wf_def)
  then show "on_dstack (f op) vm \<noteq> Inl GoPanic"
    unfolding on_dstack_def by (cases "f op (dstack vm)") simp_all
qed

lemma handler_ok_seq:
  assumes "handler_ok k h" "handler_ok m h'"
  shows "handler_ok (k + m) (\<lambda>op vm. rbind (h op vm) (h' op))"
  unfolding handler_ok_def
proof (intro allI impI)
  fix n op vm vm'
  assume a: "n + (k + m) \<le> 90000" "engine_wf n vm" "small_op op" "rbind (h op vm) (h' op) = Inr vm'"
  then obtain v where v: "h op vm = Inr v" "h' op v = Inr vm'" by (auto simp: rbind_eq_Inr)
  have "n + k \<le> 90000" using a(1) by simp
  note d1 = handler_okD [OF assms(1) this a(2,3) v(1)]
  have "n + k + m \<le> 90000" using a(1) by simp
  note d2 = handler_okD [OF assms(2) this d1(2) a(3) v(2)]
  have "scriptOff v = scriptOff vm" using d1(1) by (simp add: frame_def)
  then show "frame vm vm' \<and> engine_wf (n + (k + m)) vm' \<and> condStack vm' = condStack vm \<and>
     numOps vm \<le> numOps vm' \<and> (numOps vm \<le> MaxOpsPerScript \<longrightarrow> numOps vm' \<le> MaxOpsPerScript) \<and>
     (lastCodeSep vm' = lastCodeSep vm \<or> lastCodeSep vm' = scriptOff vm)"
    using d1(3-6) d2(2-6) frame_trans [OF d1(1) d2(1)] by (auto simp: add.assoc)
qed

lemma no_panic_seq:
  assumes "handler_ok 3 h" "no_panic h"
    and "\<And>n op vm. n \<le> 80003 \<Longrightarrow> engine_wf n vm \<Longrightarrow> small_op op \<Longrightarrow>
      txIdx vm < length (tx_TxIn (vm_tx vm)) \<Longrightarrow> h' op vm \<noteq> Inl GoPanic"
  shows "no_panic (\<lambda>op vm. rbind (h op vm) (h' op))"
  unfolding no_panic_def
proof (intro allI impI)
  fix n op vm assume a: "n \<le> 80000" "engine_wf n vm" "small_op op" "txIdx vm < length (tx_TxIn (vm_tx vm))"
  have "h op vm \<noteq> Inl GoPanic" using assms(2) a unfolding no_panic_def by blast
  moreover have "h' op v \<noteq> Inl GoPanic" if "h op vm = Inr v" for v
  proof -
    have "n + 3 \<le> 90000" using a(1) by simp
    note d = handler_okD [OF assms(1) this a(2,3) that]
    have "txIdx v < length (tx_TxIn (vm_tx v))" using d(1) a(4) by (simp add: frame_def)
    then show ?thesis using assms(3) [of "n + 3" v op] d(2) a by simp
  qed
  ultimately show "rbind (h op vm) (h' op) \<noteq> Inl GoPanic" by (cases "h op vm") simp_all
qed

end
