(* ===== verification/Engine_Handlers.thy ===== *)
theory Engine_Handlers
  imports Engine_Inv
begin

text \<open>
  Every entry of the opcode table meets the handler contract of theory \<open>Engine_Inv\<close>. A handler is
  \<open>calm\<close> when it meets the contract and never panics; all handlers are calm except the four signature
  opcodes, whose contract is proved here and whose panics are characterised, and the four
  conditionals, whose effect on the condition stack is described by \<open>cond_step\<close>.
\<close>

named_theorems calms

definition calm :: "handler \<Rightarrow> bool" where
  "calm h \<longleftrightarrow> handler_ok 3 h \<and> no_panic h"

text \<open>What the code relies on from the hash functions: digests are at most 32 bytes.\<close>

definition hash_env :: "('pk, 'sg) crypto \<Rightarrow> bool" where
  "hash_env c \<longleftrightarrow> (\<forall>b. length (sha256 c b) = 32) \<and> (\<forall>b. length (sha1 c b) = 20) \<and>
     (\<forall>b. length (ripemd160 c b) = 20)"

section \<open>Rules for calm handlers\<close>

lemma calm_dstack:
  assumes "\<And>op. small_op op \<Longrightarrow> grows 3 (f op)"
  shows "calm (\<lambda>op vm. on_dstack (f op) vm)"
  unfolding calm_def using handler_ok_dstack [of 3 f] no_panic_dstack [of f] assms by blast

lemma calm_dstack':
  assumes "h = (\<lambda>op vm. on_dstack f vm)" "grows k f" "k \<le> 3"
  shows "calm h"
  using calm_dstack [of "\<lambda>_. f"] grows_mono [OF assms(2,3)] assms(1) by simp

lemma calm_if [calms]: "(b \<Longrightarrow> calm f) \<Longrightarrow> (\<not> b \<Longrightarrow> calm g) \<Longrightarrow> calm (if b then f else g)"
  by simp

text \<open>A check: it fails, or keeps the engine; it panics only when \<open>p\<close>.\<close>

definition checks :: "bool \<Rightarrow> Engine \<Rightarrow> Engine res \<Rightarrow> bool" where
  "checks p vm r \<longleftrightarrow> r = Inr vm \<or> (\<exists>e. r = Inl e \<and> (e = GoPanic \<longrightarrow> p))"

lemma checks_Inr: "checks p vm (Inr vm)"
  by (simp add: checks_def)

lemma checks_Inl: "(e = GoPanic \<Longrightarrow> p) \<Longrightarrow> checks p vm (Inl e)"
  by (simp add: checks_def)

lemma checks_if: "(b \<Longrightarrow> checks p vm x) \<Longrightarrow> (\<not> b \<Longrightarrow> checks p vm y) \<Longrightarrow> checks p vm (if b then x else y)"
  by simp

lemma checks_rbind:
  "(m = Inl GoPanic \<Longrightarrow> p) \<Longrightarrow> (\<And>x. m = Inr x \<Longrightarrow> checks p vm (f x)) \<Longrightarrow> checks p vm (rbind m f)"
  by (cases m) (auto simp: checks_def)

lemma calm_checks:
  assumes "\<And>op vm. checks (txIdx vm \<ge> length (tx_TxIn (vm_tx vm))) vm (h op vm)"
  shows "calm h"
proof -
  have "handler_ok 3 h"
    unfolding handler_ok_def
  proof (intro allI impI)
    fix n op vm vm' assume a: "engine_wf n vm" "h op vm = Inr vm'"
    then have "vm' = vm" using assms [of vm op] by (auto simp: checks_def)
    then show "frame vm vm' \<and> engine_wf (n + 3) vm' \<and> condStack vm' = condStack vm \<and> numOps vm \<le> numOps vm' \<and>
      (numOps vm \<le> MaxOpsPerScript \<longrightarrow> numOps vm' \<le> MaxOpsPerScript) \<and>
      (lastCodeSep vm' = lastCodeSep vm \<or> lastCodeSep vm' = scriptOff vm)"
      using engine_wf_mono [OF a(1)] by simp
  qed
  moreover have "no_panic h"
    unfolding no_panic_def
  proof (intro allI impI notI)
    fix op vm assume "txIdx vm < length (tx_TxIn (vm_tx vm))" "h op vm = Inl GoPanic"
    then show False using assms [of vm op] by (simp add: checks_def)
  qed
  ultimately show ?thesis by (simp add: calm_def)
qed

section \<open>Constants and stack words\<close>

lemma calm_fails [calms]: "calm opcodeDisabled" "calm opcodeReserved" "calm opcodeInvalid" "calm opcodeReturn"
  by (simp_all add: calm_def handler_ok_def no_panic_def opcodeDisabled_def opcodeReserved_def
      opcodeInvalid_def opcodeReturn_def)

lemma calm_pushes [calms]: "calm opcodeFalse" "calm opcodePushData" "calm opcode1Negate" "calm opcodeN"
proof -
  show "calm opcodeFalse"
    by (rule calm_dstack' [OF _ grows_push [of "[]"]]) (simp_all add: opcodeFalse_def fun_eq_iff)
  have "opcodePushData = (\<lambda>op. on_dstack (\<lambda>s. Inr (PushByteArray (pop_data op) s)))"
    by (simp add: opcodePushData_def fun_eq_iff)
  then show "calm opcodePushData"
    using calm_dstack [of "\<lambda>op s. Inr (PushByteArray (pop_data op) s)"] grows_mono [OF grows_push]
    by (simp add: small_op_def)
  show "calm opcode1Negate"
    by (rule calm_dstack' [OF _ grows_PushInt [of "- 1"]]) (simp_all add: opcode1Negate_def fun_eq_iff)
  have eq: "opcodeN = (\<lambda>op. on_dstack (PushInt (int (unat (pop_value op - (OP_1 - 1))))))"
    by (simp only: opcodeN_def fun_eq_iff simp_thms)
  have "grows 3 (PushInt (int (unat b)))" for b :: byte
  proof (rule grows_mono [OF grows_PushInt])
    have "\<bar>int (unat b)\<bar> < 256" using unat_byte_less [of b] by linarith
    also have "\<dots> < 2 ^ 62" by simp
    finally show "\<bar>int (unat b)\<bar> < 2 ^ 62" .
  qed simp
  then show "calm opcodeN" unfolding eq by (intro calm_dstack)
qed

lemma calm_Nop [calms]: "calm opcodeNop"
  unfolding opcodeNop_def [abs_def] Let_def
  by (intro calm_checks checks_if checks_Inr checks_Inl) simp_all

lemma calm_words [calms]:
  "calm opcode2Drop" "calm opcode2Dup" "calm opcode3Dup" "calm opcode2Over" "calm opcode2Rot"
  "calm opcode2Swap" "calm opcodeDrop" "calm opcodeDup" "calm opcodeOver" "calm opcodeRot" "calm opcodeSwap"
  by (rule calm_dstack' [OF _ grows_DropN [of 2]] calm_dstack' [OF _ grows_words(1) [of 2]]
      calm_dstack' [OF _ grows_words(1) [of 3]] calm_dstack' [OF _ grows_words(4) [of 2]]
      calm_dstack' [OF _ grows_words(2) [of 2]] calm_dstack' [OF _ grows_words(3) [of 2]]
      calm_dstack' [OF _ grows_DropN [of 1]] calm_dstack' [OF _ grows_words(1) [of 1]]
      calm_dstack' [OF _ grows_words(4) [of 1]] calm_dstack' [OF _ grows_words(2) [of 1]]
      calm_dstack' [OF _ grows_words(3) [of 1]];
      simp add: opcode2Drop_def opcode2Dup_def opcode3Dup_def opcode2Over_def opcode2Rot_def opcode2Swap_def
        opcodeDrop_def opcodeDup_def opcodeOver_def opcodeRot_def opcodeSwap_def fun_eq_iff; fail)+

abbreviation verify_top :: "stack \<Rightarrow> stack res" where
  "verify_top s \<equiv> rbind (PopBool s) (\<lambda>(v, s). if \<not> v then Inl ErrStackVerifyFailed else Inr s)"

lemma opcodeVerify_dstack: "opcodeVerify = (\<lambda>op vm. on_dstack verify_top vm)"
  by (auto simp: opcodeVerify_def on_dstack_def rbind_assoc fun_eq_iff intro!: rbind_cong)

lemma grows_verify: "grows 0 verify_top"
  by (intro grows_PopBool grows_if grows_fail grows_id) simp

abbreviation equal_top :: "stack \<Rightarrow> stack res" where
  "equal_top s \<equiv> rbind (PopByteArray s) (\<lambda>(a, s). rbind (PopByteArray s) (\<lambda>(b, s). Inr (PushBool (a = b) s)))"

lemma grows_equal: "grows 1 equal_top"
  by (intro grows_pop grows_PushBool)

lemma calm_words2 [calms]:
  "calm opcodeNip" "calm opcodeTuck" "calm opcodePick" "calm opcodeRoll" "calm opcodeSize" "calm opcodeEqual"
  "calm opcodeVerify"
proof -
  show "calm opcodeNip"
    by (rule calm_dstack' [OF _ grows_NipN [of 1]]) (simp_all add: opcodeNip_def fun_eq_iff)
  show "calm opcodeTuck"
    by (rule calm_dstack' [OF _ grows_Tuck]) (simp_all add: opcodeTuck_def fun_eq_iff)
  show "calm opcodePick"
    by (rule calm_dstack' [OF _ grows_PopInt [of 1 "\<lambda>n. PickN (num_Int32 n)"]])
      (simp_all add: opcodePick_def fun_eq_iff grows_PickN del: One_nat_def)
  show "calm opcodeRoll"
    by (rule calm_dstack' [OF _ grows_PopInt [of 1 "\<lambda>n. RollN (num_Int32 n)"]])
      (simp_all add: opcodeRoll_def fun_eq_iff grows_RollN del: One_nat_def)
  show "calm opcodeSize"
    by (rule calm_dstack' [OF _ grows_peek [of 1 "\<lambda>so. PushInt (int (length so))" 0]])
      (simp_all add: opcodeSize_def fun_eq_iff grows_PushInt del: One_nat_def)
  show "calm opcodeEqual"
    by (rule calm_dstack' [OF _ grows_equal]) (simp_all add: opcodeEqual_def fun_eq_iff)
  show "calm opcodeVerify" using calm_dstack' [OF opcodeVerify_dstack grows_verify] by simp
qed

lemma calm_IfDup [calms]: "calm opcodeIfDup"
proof -
  have "grows 1 (\<lambda>s. Inr (if asBool so then PushByteArray so s else s))" if "length so \<le> MaxScriptElementSize" for so
    using that grows_push [of so] grows_id [of 1] by (cases "asBool so") simp_all
  then show ?thesis
    by (intro calm_dstack' [OF _ grows_peek [of 1 "\<lambda>so s. Inr (if asBool so then PushByteArray so s else s)" 0]])
      (simp_all add: opcodeIfDup_def fun_eq_iff)
qed

lemma calm_Depth [calms]: "calm opcodeDepth"
proof (rule calm_dstack')
  show "grows 1 (\<lambda>s. PushInt (Depth s) s)"
  proof (rule growsI)
    fix n s assume a: "n + 1 \<le> 100000" "stack_wf n s"
    then have *: "\<bar>Depth s\<bar> < 2 ^ 62" by (simp add: Depth_def stack_wf_def i32_id)
    show "PushInt (Depth s) s \<noteq> Inl GoPanic" by (rule growsD(1) [OF grows_PushInt [OF *] a])
  next
    fix n s s' assume a: "n + 1 \<le> 100000" "stack_wf n s" "PushInt (Depth s) s = Inr s'"
    then have *: "\<bar>Depth s\<bar> < 2 ^ 62" by (simp add: Depth_def stack_wf_def i32_id)
    show "stack_wf (n + 1) s' \<and> verifyMinimalData s' = verifyMinimalData s"
      by (rule growsD(2) [OF grows_PushInt [OF *] a])
  qed
qed (simp_all add: opcodeDepth_def fun_eq_iff)

section \<open>Arithmetic\<close>

lemma grows_seq:
  assumes "grows k f" "grows m g"
  shows "grows (k + m) (\<lambda>s. rbind (f s) g)"
proof (rule growsI)
  fix n s assume a: "n + (k + m) \<le> 100000" "stack_wf n s"
  then have 1: "f s \<noteq> Inl GoPanic" using growsD(1) [OF assms(1), of n s] by simp
  show "rbind (f s) g \<noteq> Inl GoPanic"
  proof (cases "f s")
    case (Inr s1)
    then have "stack_wf (n + k) s1" using growsD(2) [OF assms(1), of n s s1] a by simp
    then show ?thesis using Inr growsD(1) [OF assms(2), of "n + k" s1] a(1) by simp
  qed (use 1 in simp)
next
  fix n s s' assume a: "n + (k + m) \<le> 100000" "stack_wf n s" "rbind (f s) g = Inr s'"
  then obtain s1 where s1: "f s = Inr s1" "g s1 = Inr s'" by (auto simp: rbind_eq_Inr)
  have "stack_wf (n + k) s1 \<and> verifyMinimalData s1 = verifyMinimalData s"
    using growsD(2) [OF assms(1), of n s s1] a s1 by simp
  then show "stack_wf (n + (k + m)) s' \<and> verifyMinimalData s' = verifyMinimalData s"
    using growsD(2) [OF assms(2), of "n + k" s1 s'] a s1 by (simp add: add.assoc)
qed

lemma on_dstack_seq: "rbind (on_dstack f vm) (\<lambda>vm. on_dstack g vm) = on_dstack (\<lambda>s. rbind (f s) g) vm"
  by (cases "f (dstack vm)") (auto simp: on_dstack_def rbind_assoc)

lemma grows_nums:
  "(\<And>m. \<bar>m\<bar> < 2147483648 \<Longrightarrow> \<bar>f1 m\<bar> < 2 ^ 62) \<Longrightarrow>
     grows 1 (\<lambda>s. rbind (PopInt s) (\<lambda>(m, s). PushInt (f1 m) s))"
  "(\<And>a b. \<bar>a\<bar> < 2147483648 \<Longrightarrow> \<bar>b\<bar> < 2147483648 \<Longrightarrow> \<bar>f2 a b\<bar> < 2 ^ 62) \<Longrightarrow>
     grows 1 (\<lambda>s. rbind (PopInt s) (\<lambda>(a, s). rbind (PopInt s) (\<lambda>(b, s). PushInt (f2 a b) s)))"
  "(\<And>a b x. \<bar>f3 a b x\<bar> < 2 ^ 62) \<Longrightarrow>
     grows 1 (\<lambda>s. rbind (PopInt s) (\<lambda>(a, s). rbind (PopInt s) (\<lambda>(b, s). rbind (PopInt s) (\<lambda>(x, s).
       PushInt (f3 a b x) s))))"
  by (intro grows_PopInt grows_PushInt; simp)+

lemma calm_num1: "(\<And>m. \<bar>m\<bar> < 2147483648 \<Longrightarrow> \<bar>f m\<bar> < 2 ^ 62) \<Longrightarrow> calm (\<lambda>op vm. num1 f vm)"
  unfolding num1_def by (rule calm_dstack' [OF refl grows_nums(1)]) simp_all

lemma calm_num2: "(\<And>a b. \<bar>a\<bar> < 2147483648 \<Longrightarrow> \<bar>b\<bar> < 2147483648 \<Longrightarrow> \<bar>f a b\<bar> < 2 ^ 62) \<Longrightarrow> calm (\<lambda>op vm. num2 f vm)"
  unfolding num2_def by (rule calm_dstack' [OF refl grows_nums(2)]) simp_all

lemmas arith_handler_defs = opcode1Add_def opcode1Sub_def opcodeNegate_def opcodeAbs_def opcodeNot_def
  opcode0NotEqual_def opcodeAdd_def opcodeSub_def opcodeBoolAnd_def opcodeBoolOr_def opcodeNumEqual_def
  opcodeNumNotEqual_def opcodeLessThan_def opcodeGreaterThan_def opcodeLessThanOrEqual_def
  opcodeGreaterThanOrEqual_def opcodeMin_def opcodeMax_def opcodeWithin_def

lemma calm_arith1 [calms]: "calm opcode1Add" "calm opcode1Sub" "calm opcodeNegate" "calm opcodeAbs" "calm opcodeNot"
  "calm opcode0NotEqual"
  unfolding arith_handler_defs [abs_def] by (rule calm_num1, fastforce simp: i64_id)+

lemma calm_arith2 [calms]: "calm opcodeAdd" "calm opcodeSub" "calm opcodeBoolAnd" "calm opcodeBoolOr" "calm opcodeNumEqual"
  "calm opcodeNumNotEqual" "calm opcodeLessThan" "calm opcodeGreaterThan" "calm opcodeLessThanOrEqual"
  "calm opcodeGreaterThanOrEqual" "calm opcodeMin" "calm opcodeMax"
  unfolding arith_handler_defs [abs_def] by (rule calm_num2, simp add: i64_id)+

lemma calm_Within [calms]: "calm opcodeWithin"
  unfolding arith_handler_defs [abs_def] num3_def by (rule calm_dstack' [OF refl grows_nums(3)]) simp_all

lemma calm_verifies [calms]: "calm opcodeEqualVerify" "calm opcodeNumEqualVerify"
proof -
  show "calm opcodeEqualVerify"
    by (rule calm_dstack' [OF _ grows_seq [OF grows_equal grows_verify]])
      (simp_all add: opcodeEqualVerify_def opcodeEqual_def opcodeVerify_dstack on_dstack_seq fun_eq_iff)
  show "calm opcodeNumEqualVerify"
    by (rule calm_dstack' [OF _ grows_seq [OF grows_nums(2) [of "\<lambda>v0 v1. if v0 = v1 then 1 else 0"] grows_verify]])
      (simp_all add: opcodeNumEqualVerify_def opcodeNumEqual_def num2_def opcodeVerify_dstack on_dstack_seq fun_eq_iff)
qed

section \<open>Alternative stack, lock times and hashes\<close>

lemma pop_wf:
  assumes "stack_wf n s" "n \<le> 100000"
  shows "PopByteArray s = Inl ErrStackUnderflow \<or> (\<exists>x s'. PopByteArray s = Inr (x, s') \<and>
    length x \<le> MaxScriptElementSize \<and> stack_wf n s' \<and> verifyMinimalData s' = verifyMinimalData s)"
  unfolding PopByteArray_def
proof (rule nipN_cases [of s 0])
  show "sized s" using assms stack_wf_sized by blast
next
  fix xs y ys assume "stk s = xs @ y # ys" "nipN 0 s = Inr (y, s\<lparr>stk := xs @ ys\<rparr>)"
  then show "nipN 0 s = Inl ErrStackUnderflow \<or> (\<exists>x s'. nipN 0 s = Inr (x, s') \<and>
    length x \<le> MaxScriptElementSize \<and> stack_wf n s' \<and> verifyMinimalData s' = verifyMinimalData s)"
    using assms(1) by (auto simp: stack_wf_def)
qed simp

lemma push_wf: "stack_wf n s \<Longrightarrow> length x \<le> MaxScriptElementSize \<Longrightarrow> stack_wf (n + 3) (PushByteArray x s)"
  by (simp add: stack_wf_def)

lemma PushByteArray_minimal [simp]: "verifyMinimalData (PushByteArray x s) = verifyMinimalData s"
  by (simp add: PushByteArray_def)

lemma calm_alt [calms]: "calm opcodeToAltStack" "calm opcodeFromAltStack"
proof -
  have pop_x: "length x \<le> MaxScriptElementSize" and pop_s: "stack_wf (n + 3) s'"
    and pop_m: "verifyMinimalData s' = verifyMinimalData s"
    if "stack_wf n s" "n \<le> 89997" "PopByteArray s = Inr (x, s')" for n s x s'
    using pop_wf [OF that(1)] that(2,3) stack_wf_mono [of n s' "n + 3"] by auto
  have pop_p: "PopByteArray s \<noteq> Inl GoPanic" if "stack_wf n s" "n \<le> 80000" for n s
    using pop_wf [OF that(1)] that(2) by auto
  show "calm opcodeToAltStack" "calm opcodeFromAltStack"
    unfolding calm_def handler_ok_def no_panic_def opcodeToAltStack_def opcodeFromAltStack_def engine_wf_def
    by (auto simp: rbind_eq_Inr rbind_eq_Inl frame_def pop_m)
      (blast intro: push_wf pop_x pop_s dest: pop_p)+
qed

lemma calm_hash:
  assumes "\<And>b. length (h b) \<le> MaxScriptElementSize"
  shows "calm (\<lambda>op vm. hash_top h vm)"
  unfolding hash_top_def
  by (rule calm_dstack' [OF refl grows_pop [of 1 "\<lambda>buf s. Inr (PushByteArray (h buf) s)", OF grows_push [OF assms]]]) simp

lemma calm_hashes [calms]:
  assumes "hash_env c"
  shows "calm (opcodeRipemd160 c)" "calm (opcodeSha1 c)" "calm (opcodeSha256 c)" "calm (opcodeHash160 c)"
    "calm (opcodeHash256 c)"
  using assms unfolding opcodeRipemd160_def [abs_def] opcodeSha1_def [abs_def] opcodeSha256_def [abs_def]
    opcodeHash160_def [abs_def] opcodeHash256_def [abs_def]
  by (auto intro!: calm_hash simp: hash_env_def DoubleHashB_def HashB_def)

lemma calm_CodeSeparator [calms]: "calm opcodeCodeSeparator"
  unfolding calm_def handler_ok_def no_panic_def opcodeCodeSeparator_def
  by (auto simp: frame_def engine_wf_def intro: stack_wf_mono)

lemma Peek_no_panic: "PeekByteArray i s \<noteq> Inl GoPanic"
  by (simp add: PeekByteArray_def Let_def)

lemma cur_TxIn_panic: "cur_TxIn vm = Inl GoPanic \<Longrightarrow> txIdx vm \<ge> length (tx_TxIn (vm_tx vm))"
  by (simp add: cur_TxIn_def split: if_splits)

lemma calm_locktimes [calms]: "calm opcodeCheckLockTimeVerify" "calm opcodeCheckSequenceVerify"
  unfolding opcodeCheckLockTimeVerify_def [abs_def] opcodeCheckSequenceVerify_def [abs_def] Let_def
  by (intro calm_checks checks_rbind checks_if checks_Inr checks_Inl;
      (simp add: Peek_no_panic makeScriptNum_no_panic; fail | erule cur_TxIn_panic |
       simp add: verifyLockTime_def split: if_splits; fail))+

section \<open>Conditionals\<close>

text \<open>
  How an instruction changes the condition stack: a conditional that is not executed pushes the skip
  mark, \<^verbatim>\<open>OP_ELSE\<close> flips a condition but not a skip mark, \<^verbatim>\<open>OP_ENDIF\<close> pops.
\<close>

inductive cond_step :: "byte \<Rightarrow> int list \<Rightarrow> int list \<Rightarrow> bool" where
  enter: "b = OP_IF \<or> b = OP_NOTIF \<Longrightarrow> cs = [] \<or> last cs = OpCondTrue \<Longrightarrow> v = OpCondTrue \<or> v = OpCondFalse \<Longrightarrow>
    cond_step b cs (cs @ [v])"
| skip: "b = OP_IF \<or> b = OP_NOTIF \<Longrightarrow> cs \<noteq> [] \<Longrightarrow> last cs \<noteq> OpCondTrue \<Longrightarrow> cond_step b cs (cs @ [OpCondSkip])"
| flip: "v = OpCondTrue \<or> v = OpCondFalse \<Longrightarrow> cond_step OP_ELSE (cs @ [v]) (cs @ [1 - v])"
| stay: "v \<noteq> OpCondTrue \<Longrightarrow> v \<noteq> OpCondFalse \<Longrightarrow> cond_step OP_ELSE (cs @ [v]) (cs @ [v])"
| leave: "cond_step OP_ENDIF (cs @ [v]) cs"
| plain: "b \<notin> {OP_IF, OP_NOTIF, OP_ELSE, OP_ENDIF} \<Longrightarrow> cond_step b cs cs"

definition cond_handler :: "byte \<Rightarrow> handler \<Rightarrow> bool" where
  "cond_handler b h \<longleftrightarrow> (\<forall>n op vm vm'. n \<le> 90000 \<longrightarrow> engine_wf n vm \<longrightarrow> h op vm = Inr vm' \<longrightarrow>
     frame vm vm' \<and> engine_wf n vm' \<and> cond_step b (condStack vm) (condStack vm') \<and> numOps vm' = numOps vm \<and>
     lastCodeSep vm' = lastCodeSep vm) \<and> no_panic h"

lemma PopBool_wf:
  assumes "stack_wf n s" "n \<le> 100000"
  shows "PopBool s \<noteq> Inl GoPanic"
    and "PopBool s = Inr (b, s') \<Longrightarrow> stack_wf n s' \<and> verifyMinimalData s' = verifyMinimalData s"
  using pop_wf [OF assms] by (auto simp: PopBool_def rbind_eq_Inr rbind_eq_Inl)

lemma cond_handler_If: "cond_handler OP_IF opcodeIf" "cond_handler OP_NOTIF opcodeNotIf"
proof -
  have np: "PopBool (dstack vm) \<noteq> Inl GoPanic" if "n \<le> 80000" "engine_wf n vm" for n vm
    using that PopBool_wf(1) [of n "dstack vm"] by (simp add: engine_wf_def)
  have no: "no_panic opcodeIf" "no_panic opcodeNotIf"
    unfolding no_panic_def opcodeIf_def opcodeNotIf_def
    by (auto simp: rbind_eq_Inl split: if_splits dest: np)
  have eff: "frame vm vm' \<and> engine_wf n vm' \<and> cond_step b (condStack vm) (condStack vm') \<and> numOps vm' = numOps vm \<and>
     lastCodeSep vm' = lastCodeSep vm"
    if a: "n \<le> 90000" "engine_wf n vm" "b = OP_IF \<or> b = OP_NOTIF"
      and h: "opcodeIf op vm = Inr vm' \<or> opcodeNotIf op vm = Inr vm'" for n op vm vm' b
  proof (cases "isBranchExecuting vm")
    case True
    then obtain ok s where pb: "PopBool (dstack vm) = Inr (ok, s)"
      using h by (auto simp: opcodeIf_def opcodeNotIf_def rbind_eq_Inr)
    define v where "v = (if opcodeIf op vm = Inr vm' then (if ok then OpCondTrue else OpCondFalse)
      else (if \<not> ok then OpCondTrue else OpCondFalse))"
    have s: "v = OpCondTrue \<or> v = OpCondFalse" "vm' = vm\<lparr>dstack := s, condStack := condStack vm @ [v]\<rparr>"
      using h pb True by (auto simp: opcodeIf_def opcodeNotIf_def v_def)
    then show ?thesis using pb
      using PopBool_wf(2) [of n "dstack vm" ok s] a True cond_step.enter [OF a(3), of "condStack vm" v]
      by (auto simp: engine_wf_def frame_def isBranchExecuting_def split: if_splits)
  next
    case False
    then have "vm' = vm\<lparr>condStack := condStack vm @ [OpCondSkip]\<rparr>"
      using h by (auto simp: opcodeIf_def opcodeNotIf_def)
    then show ?thesis
      using a False cond_step.skip [OF a(3), of "condStack vm"]
      by (auto simp: engine_wf_def frame_def isBranchExecuting_def split: if_splits)
  qed
  show "cond_handler OP_IF opcodeIf" "cond_handler OP_NOTIF opcodeNotIf"
    unfolding cond_handler_def using eff no by blast+
qed

lemma cond_handler_Else: "cond_handler OP_ELSE opcodeElse"
  unfolding cond_handler_def
proof (intro conjI allI impI)
  show "no_panic opcodeElse" by (simp add: no_panic_def opcodeElse_def Let_def)
next
  fix n op vm vm' assume a: "engine_wf n vm" "opcodeElse op vm = Inr vm'"
  then obtain cs v where cs: "condStack vm = cs @ [v]"
    by (cases "condStack vm" rule: rev_cases) (auto simp: opcodeElse_def)
  then have vm': "vm' = vm\<lparr>condStack := cs @ [if v = OpCondTrue \<or> v = OpCondFalse then 1 - v else v]\<rparr>"
    using a(2) by (auto simp: opcodeElse_def Let_def nth_append split: if_splits)
  then show "frame vm vm'" "engine_wf n vm'" "numOps vm' = numOps vm" "lastCodeSep vm' = lastCodeSep vm"
    using a(1) by (simp_all add: frame_def engine_wf_def)
  show "cond_step OP_ELSE (condStack vm) (condStack vm')"
    using vm' cs cond_step.flip [of v cs] cond_step.stay [of v cs] by auto
qed

lemma cond_handler_Endif: "cond_handler OP_ENDIF opcodeEndif"
  unfolding cond_handler_def
proof (intro conjI allI impI)
  show "no_panic opcodeEndif" by (simp add: no_panic_def opcodeEndif_def)
next
  fix n op vm vm' assume a: "engine_wf n vm" "opcodeEndif op vm = Inr vm'"
  then obtain cs v where cs: "condStack vm = cs @ [v]" "vm' = vm\<lparr>condStack := cs\<rparr>"
    by (cases "condStack vm" rule: rev_cases) (auto simp: opcodeEndif_def)
  then show "frame vm vm'" "engine_wf n vm'" "numOps vm' = numOps vm" "lastCodeSep vm' = lastCodeSep vm"
    "cond_step OP_ENDIF (condStack vm) (condStack vm')"
    using a(1) cond_step.leave [of cs v] by (simp_all add: frame_def engine_wf_def)
qed

section \<open>Signature opcodes\<close>

lemma grows_popN:
  assumes "\<And>xs. grows k (g xs)"
  shows "grows k (\<lambda>s. rbind (popN m s) (\<lambda>(xs, s). g xs s))"
  using assms
proof (induction m arbitrary: g)
  case (Suc m)
  have "grows k (\<lambda>s. rbind (popN m s) (\<lambda>(xs, s). g (x # xs) s))" for x
    by (rule Suc.IH [of "\<lambda>xs. g (x # xs)"]) (rule Suc.prems)
  then have "grows k (\<lambda>s. rbind (PopByteArray s) (\<lambda>(x, s). rbind (popN m s) (\<lambda>(xs, s). g (x # xs) s)))"
    by (rule grows_pop)
  then show ?case by (simp add: rbind_assoc case_prod_unfold)
qed simp

lemma handler_ok_effect:
  assumes "\<And>op vm vm'. h op vm = Inr vm' \<Longrightarrow> \<exists>f s sc m. grows k f \<and> f (dstack vm) = Inr s \<and>
    vm' = vm\<lparr>dstack := s, vm_sigCache := sc, numOps := m\<rparr> \<and> numOps vm \<le> m \<and>
    (numOps vm \<le> MaxOpsPerScript \<longrightarrow> m \<le> MaxOpsPerScript)"
  shows "handler_ok k h"
  unfolding handler_ok_def
proof (intro allI impI)
  fix n op vm vm' assume a: "n + k \<le> 90000" "engine_wf n vm" "h op vm = Inr vm'"
  then obtain f s sc m where f: "grows k f" "f (dstack vm) = Inr s"
    "vm' = vm\<lparr>dstack := s, vm_sigCache := sc, numOps := m\<rparr>" "numOps vm \<le> m"
    "numOps vm \<le> MaxOpsPerScript \<longrightarrow> m \<le> MaxOpsPerScript"
    using assms by blast
  then show "frame vm vm' \<and> engine_wf (n + k) vm' \<and> condStack vm' = condStack vm \<and>
     numOps vm \<le> numOps vm' \<and> (numOps vm \<le> MaxOpsPerScript \<longrightarrow> numOps vm' \<le> MaxOpsPerScript) \<and>
     (lastCodeSep vm' = lastCodeSep vm \<or> lastCodeSep vm' = scriptOff vm)"
    using growsD(2) [OF f(1), of n "dstack vm" s] a engine_wf_mono [OF a(2), of "n + k"]
    by (simp add: frame_def engine_wf_def)
qed

text \<open>A result, if there is one, has a property: a compositional form of reasoning on long \<open>rbind\<close> chains.\<close>

definition yields :: "('a \<Rightarrow> bool) \<Rightarrow> 'a res \<Rightarrow> bool" where
  "yields P r \<longleftrightarrow> (\<forall>x. r = Inr x \<longrightarrow> P x)"

lemma yields_Inl: "yields P (Inl e)"
  by (simp add: yields_def)

lemma yields_Inr: "P x \<Longrightarrow> yields P (Inr x)"
  by (simp add: yields_def)

lemma yields_rbind: "(\<And>x. m = Inr x \<Longrightarrow> yields P (f x)) \<Longrightarrow> yields P (rbind m f)"
  by (cases m) (auto simp: yields_def)

lemma yields_if: "(b \<Longrightarrow> yields P x) \<Longrightarrow> (\<not> b \<Longrightarrow> yields P y) \<Longrightarrow> yields P (if b then x else y)"
  by simp

lemma yields_option: "(r = None \<Longrightarrow> yields P x) \<Longrightarrow> (\<And>v. r = Some v \<Longrightarrow> yields P (f v)) \<Longrightarrow>
    yields P (case r of None \<Rightarrow> x | Some v \<Rightarrow> f v)"
  by (cases r) simp_all

lemma yields_prod: "(\<And>a b. p = (a, b) \<Longrightarrow> yields P (f a b)) \<Longrightarrow> yields P (case p of (a, b) \<Rightarrow> f a b)"
  by (cases p) simp

lemmas yield_rules = yields_Inl yields_rbind yields_if yields_option yields_prod

lemma yieldsD: "yields P r \<Longrightarrow> r = Inr x \<Longrightarrow> P x"
  by (simp add: yields_def)

text \<open>What a signature check that returns has done to the engine.\<close>

lemma opcodeCheckSig_effect:
  assumes "opcodeCheckSig c op vm = Inr vm'"
  obtains pk s1 sg s2 b sc where "PopByteArray (dstack vm) = Inr (pk, s1)" "PopByteArray s1 = Inr (sg, s2)"
    "vm' = vm\<lparr>dstack := PushBool b s2, vm_sigCache := sc\<rparr>"
proof -
  obtain pk s1 sg s2 where p: "PopByteArray (dstack vm) = Inr (pk, s1)" "PopByteArray s1 = Inr (sg, s2)"
    using assms by (auto simp: opcodeCheckSig_def rbind_eq_Inr)
  have same: "\<exists>b sc. vm\<lparr>dstack := PushBool v s2\<rparr> = vm\<lparr>dstack := PushBool b s2, vm_sigCache := sc\<rparr>" for v
    by (intro exI [of _ v] exI [of _ "vm_sigCache vm"]) simp
  have "yields (\<lambda>vm'. \<exists>b sc. vm' = vm\<lparr>dstack := PushBool b s2, vm_sigCache := sc\<rparr>) (opcodeCheckSig c op vm)"
    unfolding opcodeCheckSig_def p rbind_Inr prod.case Let_def
    by (intro yield_rules; rule yields_Inr; (rule same | blast))
  then have "\<exists>b sc. vm' = vm\<lparr>dstack := PushBool b s2, vm_sigCache := sc\<rparr>" using assms by (rule yieldsD)
  then show thesis using that p by blast
qed

lemma handler_ok_CheckSig: "handler_ok 1 (opcodeCheckSig c)"
proof (rule handler_ok_effect)
  fix op vm vm' assume "opcodeCheckSig c op vm = Inr vm'"
  then obtain pk s1 sg s2 b sc where e: "PopByteArray (dstack vm) = Inr (pk, s1)" "PopByteArray s1 = Inr (sg, s2)"
    "vm' = vm\<lparr>dstack := PushBool b s2, vm_sigCache := sc\<rparr>"
    by (rule opcodeCheckSig_effect)
  define f where "f = (\<lambda>s. rbind (PopByteArray s) (\<lambda>(pk, s). rbind (PopByteArray s) (\<lambda>(sg, s). Inr (PushBool b s))))"
  have "grows 1 f" unfolding f_def by (intro grows_pop grows_PushBool)
  moreover have "f (dstack vm) = Inr (PushBool b s2)" using e by (simp add: f_def)
  ultimately show "\<exists>f s sc m. grows 1 f \<and> f (dstack vm) = Inr s \<and>
    vm' = vm\<lparr>dstack := s, vm_sigCache := sc, numOps := m\<rparr> \<and> numOps vm \<le> m \<and>
    (numOps vm \<le> MaxOpsPerScript \<longrightarrow> m \<le> MaxOpsPerScript)"
    using e(3) by (intro exI [of _ f] exI [of _ "PushBool b s2"] exI [of _ sc] exI [of _ "numOps vm"]) simp
qed

lemma opcodeCheckMultiSig_effect:
  assumes "opcodeCheckMultiSig c op vm = Inr vm'"
  obtains nk s1 pks s2 ns s3 sgs s4 b sc where
    "PopInt (dstack vm) = Inr (nk, s1)" "0 \<le> num_Int32 nk" "num_Int32 nk \<le> int MaxPubKeysPerMultiSig"
    "numOps vm + nat (num_Int32 nk) \<le> MaxOpsPerScript" "popN (nat (num_Int32 nk)) s1 = Inr (pks, s2)"
    "PopInt s2 = Inr (ns, s3)" "0 \<le> num_Int32 ns" "num_Int32 ns \<le> num_Int32 nk"
    "popN (nat (num_Int32 ns)) s3 = Inr (sgs, s4)"
    "vm' = vm\<lparr>numOps := numOps vm + nat (num_Int32 nk), dstack := PushBool b s4, vm_sigCache := sc\<rparr>"
proof -
  from assms obtain nk s1 where 1: "PopInt (dstack vm) = Inr (nk, s1)" by (auto simp: opcodeCheckMultiSig_def rbind_eq_Inr)
  with assms have g: "0 \<le> num_Int32 nk" "num_Int32 nk \<le> int MaxPubKeysPerMultiSig"
    "numOps vm + nat (num_Int32 nk) \<le> MaxOpsPerScript" by (auto simp: opcodeCheckMultiSig_def Let_def split: if_splits)
  with assms 1 obtain pks s2 where 2: "popN (nat (num_Int32 nk)) s1 = Inr (pks, s2)"
    by (auto simp: opcodeCheckMultiSig_def Let_def rbind_eq_Inr)
  with assms 1 g obtain ns s3 where 3: "PopInt s2 = Inr (ns, s3)"
    by (auto simp: opcodeCheckMultiSig_def Let_def rbind_eq_Inr)
  with assms 1 2 g have h: "0 \<le> num_Int32 ns" "num_Int32 ns \<le> num_Int32 nk"
    by (auto simp: opcodeCheckMultiSig_def Let_def split: if_splits)
  with assms 1 2 3 g obtain sgs s4 where 4: "popN (nat (num_Int32 ns)) s3 = Inr (sgs, s4)"
    by (auto simp: opcodeCheckMultiSig_def Let_def rbind_eq_Inr)
  have guards: "\<not> num_Int32 nk < 0" "\<not> int MaxPubKeysPerMultiSig < num_Int32 nk"
    "\<not> MaxOpsPerScript < numOps (vm\<lparr>numOps := numOps vm + nat (num_Int32 nk)\<rparr>)"
    "\<not> num_Int32 ns < 0" "\<not> num_Int32 nk < num_Int32 ns" using g h by simp_all
  have "yields (\<lambda>vm'. \<exists>b sc. vm' = vm\<lparr>numOps := numOps vm + nat (num_Int32 nk), dstack := PushBool b s4,
      vm_sigCache := sc\<rparr>) (opcodeCheckMultiSig c op vm)"
    unfolding opcodeCheckMultiSig_def Let_def
    unfolding 1 2 3 4 rbind_Inr prod.case guards if_False
    by (intro yield_rules; rule yields_Inr; blast)
  then have "\<exists>b sc. vm' = vm\<lparr>numOps := numOps vm + nat (num_Int32 nk), dstack := PushBool b s4, vm_sigCache := sc\<rparr>"
    using assms by (rule yieldsD)
  then show thesis using that 1 2 3 4 g h by blast
qed

lemma handler_ok_CheckMultiSig: "handler_ok 1 (opcodeCheckMultiSig c)"
proof (rule handler_ok_effect)
  fix op vm vm' assume "opcodeCheckMultiSig c op vm = Inr vm'"
  then obtain nk s1 pks s2 ns s3 sgs s4 b sc where e: "PopInt (dstack vm) = Inr (nk, s1)"
    "numOps vm + nat (num_Int32 nk) \<le> MaxOpsPerScript" "popN (nat (num_Int32 nk)) s1 = Inr (pks, s2)"
    "PopInt s2 = Inr (ns, s3)" "popN (nat (num_Int32 ns)) s3 = Inr (sgs, s4)"
    "vm' = vm\<lparr>numOps := numOps vm + nat (num_Int32 nk), dstack := PushBool b s4, vm_sigCache := sc\<rparr>"
    by (rule opcodeCheckMultiSig_effect)
  define f where "f = (\<lambda>s. rbind (PopInt s) (\<lambda>(nk, s). rbind (popN (nat (num_Int32 nk)) s) (\<lambda>(pks, s).
    rbind (PopInt s) (\<lambda>(ns, s). rbind (popN (nat (num_Int32 ns)) s) (\<lambda>(sgs, s). Inr (PushBool b s))))))"
  have "grows 1 f" unfolding f_def by (intro grows_PopInt grows_popN grows_PushBool)
  moreover have "f (dstack vm) = Inr (PushBool b s4)" using e by (simp add: f_def)
  ultimately show "\<exists>f s sc m. grows 1 f \<and> f (dstack vm) = Inr s \<and>
    vm' = vm\<lparr>dstack := s, vm_sigCache := sc, numOps := m\<rparr> \<and> numOps vm \<le> m \<and>
    (numOps vm \<le> MaxOpsPerScript \<longrightarrow> m \<le> MaxOpsPerScript)"
    using e(2,6) by (intro exI [of _ f] exI [of _ "PushBool b s4"] exI [of _ sc]
      exI [of _ "numOps vm + nat (num_Int32 nk)"]) simp
qed

lemma handler_ok_Verify: "handler_ok 0 opcodeVerify"
  unfolding opcodeVerify_dstack by (rule handler_ok_dstack [OF grows_verify])

lemma handler_ok_signatures:
  "handler_ok 3 (opcodeCheckSig c)" "handler_ok 3 (opcodeCheckSigVerify c)"
  "handler_ok 3 (opcodeCheckMultiSig c)" "handler_ok 3 (opcodeCheckMultiSigVerify c)"
  unfolding opcodeCheckSigVerify_def [abs_def] opcodeCheckMultiSigVerify_def [abs_def]
  by (rule handler_ok_mono [OF handler_ok_CheckSig], simp,
      rule handler_ok_mono [OF handler_ok_seq [OF handler_ok_CheckSig handler_ok_Verify]], simp,
      rule handler_ok_mono [OF handler_ok_CheckMultiSig], simp,
      rule handler_ok_mono [OF handler_ok_seq [OF handler_ok_CheckMultiSig handler_ok_Verify]], simp)

end
