(* ===== verification/Engine_Table.thy ===== *)
theory Engine_Table
  imports Engine_Handlers
begin

text \<open>
  The opcode table as a whole: one contract for the handler of any opcode byte, and the only way a
  handler can panic, a signature on the stack whose announced R length runs to the end of the
  signature (\<^verbatim>\<open>checkSignatureEncoding\<close>).
\<close>

section \<open>The contract of the table\<close>

definition sig_opcodes :: "byte set" where
  "sig_opcodes = {OP_CHECKSIG, OP_CHECKSIGVERIFY, OP_CHECKMULTISIG, OP_CHECKMULTISIGVERIFY}"

definition cond_opcodes :: "byte set" where
  "cond_opcodes = {OP_IF, OP_NOTIF, OP_ELSE, OP_ENDIF}"

lemma calm_parts:
  "calm (opfunc_push v)" "calm (opfunc_stack v)" "calm (opfunc_splice_bitwise v)" "calm (opfunc_numeric v)"
  "calm (opfunc_nop v)"
  unfolding opfunc_push_def opfunc_stack_def opfunc_splice_bitwise_def opfunc_numeric_def opfunc_nop_def
  by (intro calms)+

lemma calm_control: "v \<notin> cond_opcodes \<Longrightarrow> calm (opfunc_control v)"
  unfolding opfunc_control_def cond_opcodes_def by (intro calms) simp_all

lemma crypto_range:
  assumes "OP_WITHIN < v" "v \<le> OP_CHECKMULTISIGVERIFY"
  shows "v \<in> {OP_RIPEMD160, OP_SHA1, OP_SHA256, OP_HASH160, OP_HASH256, OP_CODESEPARATOR} \<union> sig_opcodes"
proof -
  have u: "165 < unat v" "unat v \<le> 175" using assms by (simp_all add: word_less_nat_alt word_le_nat_alt)
  have "v = of_nat k" if "unat v = k" for k using that by auto
  moreover have "unat v = 166 \<or> unat v = 167 \<or> unat v = 168 \<or> unat v = 169 \<or> unat v = 170 \<or> unat v = 171 \<or>
    unat v = 172 \<or> unat v = 173 \<or> unat v = 174 \<or> unat v = 175" using u by presburger
  ultimately have "v = of_nat 166 \<or> v = of_nat 167 \<or> v = of_nat 168 \<or> v = of_nat 169 \<or> v = of_nat 170 \<or>
    v = of_nat 171 \<or> v = of_nat 172 \<or> v = of_nat 173 \<or> v = of_nat 174 \<or> v = of_nat 175" by blast
  then show ?thesis by (auto simp: sig_opcodes_def)
qed

lemma calm_crypto:
  assumes "hash_env c" "v \<notin> sig_opcodes" "OP_WITHIN < v" "v \<le> OP_CHECKMULTISIGVERIFY"
  shows "calm (opfunc_crypto c v)"
proof -
  have "v \<in> {OP_RIPEMD160, OP_SHA1, OP_SHA256, OP_HASH160, OP_HASH256, OP_CODESEPARATOR}"
    using crypto_range [OF assms(3,4)] assms(2) by blast
  then show ?thesis
    unfolding opfunc_crypto_def
    by (elim insertE; simp add: calm_hashes [OF assms(1)] calm_CodeSeparator)
qed

lemma calm_opfunc:
  assumes "hash_env c" "v \<notin> sig_opcodes" "v \<notin> cond_opcodes"
  shows "calm (opfunc c v)"
  unfolding opfunc_def
  using assms by (intro calm_if calm_parts calm_control calm_crypto calm_fails) (simp_all add: not_le)

lemma opfunc_cond:
  "opfunc c OP_IF = opcodeIf" "opfunc c OP_NOTIF = opcodeNotIf" "opfunc c OP_ELSE = opcodeElse"
  "opfunc c OP_ENDIF = opcodeEndif"
  by (simp_all add: opfunc_def opfunc_control_def)

lemma opfunc_sig:
  "opfunc c OP_CHECKSIG = opcodeCheckSig c" "opfunc c OP_CHECKSIGVERIFY = opcodeCheckSigVerify c"
  "opfunc c OP_CHECKMULTISIG = opcodeCheckMultiSig c" "opfunc c OP_CHECKMULTISIGVERIFY = opcodeCheckMultiSigVerify c"
  by (simp_all add: opfunc_def opfunc_crypto_def)

lemma cond_opfunc: "v \<in> cond_opcodes \<Longrightarrow> cond_handler v (opfunc c v)"
  unfolding cond_opcodes_def
  using cond_handler_If cond_handler_Else cond_handler_Endif by (auto simp: opfunc_cond)

lemma handler_ok_opfunc:
  assumes "hash_env c" "v \<notin> cond_opcodes"
  shows "handler_ok 3 (opfunc c v)"
proof (cases "v \<in> sig_opcodes")
  case True
  then show ?thesis using handler_ok_signatures [of c] by (auto simp: sig_opcodes_def opfunc_sig)
next
  case False
  then show ?thesis using calm_opfunc [OF assms(1) False assms(2)] by (simp add: calm_def)
qed

text \<open>Any handler that returns keeps what an instruction may not change and grows the stacks by three at most.\<close>

lemma opfunc_ok:
  assumes "hash_env c" "n + 3 \<le> 90000" "engine_wf n vm" "small_op op" "opfunc c v op vm = Inr vm'"
  shows "frame vm vm'" "engine_wf (n + 3) vm'" "cond_step v (condStack vm) (condStack vm')"
    "numOps vm \<le> numOps vm'" "numOps vm \<le> MaxOpsPerScript \<Longrightarrow> numOps vm' \<le> MaxOpsPerScript"
    "lastCodeSep vm' = lastCodeSep vm \<or> lastCodeSep vm' = scriptOff vm"
proof -
  have "frame vm vm' \<and> engine_wf (n + 3) vm' \<and> cond_step v (condStack vm) (condStack vm') \<and> numOps vm \<le> numOps vm' \<and>
    (numOps vm \<le> MaxOpsPerScript \<longrightarrow> numOps vm' \<le> MaxOpsPerScript) \<and>
    (lastCodeSep vm' = lastCodeSep vm \<or> lastCodeSep vm' = scriptOff vm)"
  proof (cases "v \<in> cond_opcodes")
    case True
    have "n \<le> 90000" using assms(2) by simp
    with True have d: "frame vm vm' \<and> engine_wf n vm' \<and> cond_step v (condStack vm) (condStack vm') \<and>
        numOps vm' = numOps vm \<and> lastCodeSep vm' = lastCodeSep vm"
      using cond_opfunc [of v c] assms(3,5) unfolding cond_handler_def by blast
    moreover have "engine_wf (n + 3) vm'" using d by (auto elim: engine_wf_mono)
    ultimately show ?thesis by simp
  next
    case False
    note d = handler_okD [OF handler_ok_opfunc [OF assms(1) False] assms(2-5)]
    moreover have "cond_step v (condStack vm) (condStack vm)"
      using False by (intro cond_step.plain) (simp add: cond_opcodes_def)
    ultimately show ?thesis by simp
  qed
  then show "frame vm vm'" "engine_wf (n + 3) vm'" "cond_step v (condStack vm) (condStack vm')"
    "numOps vm \<le> numOps vm'" "numOps vm \<le> MaxOpsPerScript \<Longrightarrow> numOps vm' \<le> MaxOpsPerScript"
    "lastCodeSep vm' = lastCodeSep vm \<or> lastCodeSep vm' = scriptOff vm" by blast+
qed

lemma opfunc_no_panic:
  assumes "hash_env c" "v \<notin> sig_opcodes"
  shows "no_panic (opfunc c v)"
proof (cases "v \<in> cond_opcodes")
  case True
  then show ?thesis using cond_opfunc [of v c] by (simp add: cond_handler_def)
next
  case False
  then show ?thesis using calm_opfunc [OF assms False] by (simp add: calm_def)
qed

section \<open>Panics\<close>

text \<open>A computation panics only if \<open>P\<close> holds.\<close>

definition panics_if :: "bool \<Rightarrow> 'a res \<Rightarrow> bool" where
  "panics_if P r \<longleftrightarrow> (r = Inl GoPanic \<longrightarrow> P)"

lemma panics_Inl: "(e = GoPanic \<Longrightarrow> P) \<Longrightarrow> panics_if P (Inl e)"
  by (simp add: panics_if_def)

lemma panics_Inr: "panics_if P (Inr x)"
  by (simp add: panics_if_def)

lemma panics_rbind: "panics_if P m \<Longrightarrow> (\<And>x. m = Inr x \<Longrightarrow> panics_if P (f x)) \<Longrightarrow> panics_if P (rbind m f)"
  by (cases m) (auto simp: panics_if_def)

lemma panics_if_then: "(b \<Longrightarrow> panics_if P x) \<Longrightarrow> (\<not> b \<Longrightarrow> panics_if P y) \<Longrightarrow> panics_if P (if b then x else y)"
  by simp

lemma panics_option: "(r = None \<Longrightarrow> panics_if P x) \<Longrightarrow> (\<And>v. r = Some v \<Longrightarrow> panics_if P (f v)) \<Longrightarrow>
    panics_if P (case r of None \<Rightarrow> x | Some v \<Rightarrow> f v)"
  by (cases r) simp_all

lemma panics_prod: "(\<And>a b. p = (a, b) \<Longrightarrow> panics_if P (f a b)) \<Longrightarrow> panics_if P (case p of (a, b) \<Rightarrow> f a b)"
  by (cases p) simp

lemma panics_mono: "panics_if P r \<Longrightarrow> (P \<Longrightarrow> Q) \<Longrightarrow> panics_if Q r"
  by (simp add: panics_if_def)

lemmas panic_rules = panics_Inr panics_rbind panics_if_then panics_option panics_prod

text \<open>A raw signature, hash type byte included, whose DER part makes \<^verbatim>\<open>checkSignatureEncoding\<close> panic.\<close>

definition bad_sig :: "('pk, 'sg) crypto \<Rightarrow> bytes \<Rightarrow> bool" where
  "bad_sig c sg \<longleftrightarrow> sg \<noteq> [] \<and> checkSignatureEncoding c (butlast sg) = Inl GoPanic"

lemma encoding_panics:
  "panics_if P (checkHashTypeEncoding ht)" "panics_if P (checkPubKeyEncoding c pk vm)"
  "panics_if P (calcWitnessSignatureHash sha script sh ht tx (int i) amt)"
  by (simp_all add: panics_if_def checkHashTypeEncoding_def checkPubKeyEncoding_def calcWitnessSignatureHash_def Let_def)

lemma multisig_loop_panics:
  "panics_if (\<exists>si \<in> set sigs. bad_sig c (psi_signature si)) (multisig_loop c vm script pks sigs cache)"
proof (induction pks arbitrary: sigs cache)
  case Nil
  then show ?case by (cases sigs) (simp_all add: panics_Inr)
next
  case (Cons pk pks)
  show ?case
  proof (cases sigs)
    case Nil
    then show ?thesis by (simp add: panics_Inr)
  next
    case (Cons si sigs')
    let ?P = "\<exists>si \<in> set (si # sigs'). bad_sig c (psi_signature si)"
    have IH: "panics_if ?P (multisig_loop c vm script pks (si' # sigs') ca)"
      if "psi_signature si' = psi_signature si" for si' ca
      using that by (intro panics_mono [OF Cons.IH]) auto
    have IH': "panics_if ?P (multisig_loop c vm script pks sigs' ca)" for ca
      by (intro panics_mono [OF Cons.IH]) auto
    have enc: "panics_if ?P (checkSignatureEncoding c (butlast (psi_signature si)))" if "length (psi_signature si) \<noteq> 0"
      using that by (auto simp: panics_if_def bad_sig_def)
    have "panics_if ?P (multisig_loop c vm script (pk # pks) (si # sigs') cache)"
      unfolding multisig_loop.simps Let_def
      by (intro panic_rules encoding_panics enc IH IH') (auto simp: rbind_eq_Inr split: if_splits)
    then show ?thesis using Cons by simp
  qed
qed

lemma pop_panics:
  "panics_if P (PopByteArray s)" "panics_if P (PopInt s)" "panics_if P (PopBool s)" "panics_if P (popN k s)"
proof -
  show 1: "panics_if P (PopByteArray s)" for s
    by (simp add: panics_if_def PopByteArray_def nipN_def Let_def)
  have 2: "panics_if P (makeScriptNum b m k)" for b m k
    using makeScriptNum_no_panic by (simp add: panics_if_def)
  show "panics_if P (PopInt s)" unfolding PopInt_def by (intro panic_rules 1 2)
  show "panics_if P (PopBool s)" unfolding PopBool_def by (intro panic_rules 1)
  show "panics_if P (popN k s)"
  proof (induction k arbitrary: s)
    case (Suc k)
    show ?case unfolding popN.simps by (intro panic_rules 1 Suc.IH)
  qed (simp add: panics_Inr)
qed

lemma pop_mem:
  assumes "sized s" "PopByteArray s = Inr (x, s')"
  shows "x \<in> set (stk s)" "set (stk s') \<subseteq> set (stk s)" "sized s'"
proof -
  have "x \<in> set (stk s) \<and> set (stk s') \<subseteq> set (stk s) \<and> sized s'"
  proof (rule nipN_cases [OF assms(1), of 0])
    fix xs y ys assume "stk s = xs @ y # ys" "nipN 0 s = Inr (y, s\<lparr>stk := xs @ ys\<rparr>)"
    then show ?thesis using assms by (auto simp: PopByteArray_def)
  qed (use assms in \<open>simp add: PopByteArray_def\<close>)
  then show "x \<in> set (stk s)" "set (stk s') \<subseteq> set (stk s)" "sized s'" by simp_all
qed

lemma PopInt_mem:
  assumes "sized s" "PopInt s = Inr (v, s')"
  shows "set (stk s') \<subseteq> set (stk s)" "sized s'"
  using assms pop_mem [OF assms(1)] by (auto simp: PopInt_def rbind_eq_Inr)

lemma popN_mem:
  "sized s \<Longrightarrow> popN k s = Inr (xs, s') \<Longrightarrow> set xs \<subseteq> set (stk s) \<and> set (stk s') \<subseteq> set (stk s) \<and> sized s' \<and> length xs = k"
proof (induction k arbitrary: s xs)
  case (Suc k)
  then obtain x s1 ys where p: "PopByteArray s = Inr (x, s1)" "popN k s1 = Inr (ys, s')" "xs = x # ys"
    by (auto simp: rbind_eq_Inr)
  then show ?case using pop_mem [OF Suc.prems(1) p(1)] Suc.IH [of s1 ys] by auto
qed auto

definition sub_ok :: "Engine \<Rightarrow> bool" where
  "sub_ok vm \<longleftrightarrow> scriptIdx vm < length (scripts vm) \<and> lastCodeSep vm \<le> length (scripts vm ! scriptIdx vm)"

lemma subScript_ok: "sub_ok vm \<Longrightarrow> subScript vm = Inr (drop (lastCodeSep vm) (scripts vm ! scriptIdx vm))"
  by (simp add: sub_ok_def subScript_def)

abbreviation holds_bad_sig :: "('pk, 'sg) crypto \<Rightarrow> Engine \<Rightarrow> bool" where
  "holds_bad_sig c vm \<equiv> \<exists>sg \<in> set (stk (dstack vm)). bad_sig c sg"

lemma CheckSig_panics:
  assumes "sized (dstack vm)" "sub_ok vm"
  shows "panics_if (holds_bad_sig c vm) (opcodeCheckSig c op vm)"
proof -
  have enc: "panics_if (holds_bad_sig c vm) (checkSignatureEncoding c (butlast sg))"
    if "PopByteArray (dstack vm) = Inr (pk, s1)" "PopByteArray s1 = Inr (sg, s2)" "\<not> length sg < 1" for pk s1 sg s2
    using that pop_mem [OF assms(1)] pop_mem [of s1 sg s2] by (auto simp: panics_if_def bad_sig_def)
  show ?thesis
    unfolding opcodeCheckSig_def Let_def subScript_ok [OF assms(2)] rbind_Inr
    by (intro panic_rules pop_panics encoding_panics; simp) (intro enc panics_Inl; simp)+
qed

lemma CheckMultiSig_panics:
  assumes "sized (dstack vm)" "sub_ok vm"
  shows "panics_if (holds_bad_sig c vm) (opcodeCheckMultiSig c op vm)"
proof -
  have sub: "subScript (vm\<lparr>numOps := m\<rparr>) = Inr (drop (lastCodeSep vm) (scripts vm ! scriptIdx vm))" for m
    using subScript_ok [of "vm\<lparr>numOps := m\<rparr>"] assms(2) by (simp add: sub_ok_def)
  have loop: "panics_if (holds_bad_sig c vm) (multisig_loop c vm' script pks
      (map (\<lambda>sg. \<lparr>psi_signature = sg, psi_parsedSignature = None, psi_parsed = False\<rparr>) sgs) ca)"
    if "PopInt (dstack vm) = Inr (nk, s1)" "popN k s1 = Inr (pks', s2)" "PopInt s2 = Inr (ns, s3)"
      "popN l s3 = Inr (sgs, s4)" for vm' script pks ca nk s1 k pks' s2 ns s3 l sgs s4
  proof -
    note m1 = PopInt_mem [OF assms(1) that(1)]
    note m2 = popN_mem [OF m1(2) that(2)]
    have m3: "set (stk s3) \<subseteq> set (stk s2)" "sized s3" using PopInt_mem [of s2] that(3) m2 by blast+
    have "set sgs \<subseteq> set (stk (dstack vm))" using popN_mem [OF m3(2) that(4)] m1 m2 m3 by blast
    then show ?thesis by (intro panics_mono [OF multisig_loop_panics]) auto
  qed
  show ?thesis
    unfolding opcodeCheckMultiSig_def Let_def sub rbind_Inr
    by (intro panic_rules pop_panics; (intro panics_Inl; simp; fail)?) (clarify, erule (3) loop)
qed

lemma opcodeVerify_panics: "panics_if P (opcodeVerify op vm)"
  unfolding opcodeVerify_def by (intro panic_rules pop_panics panics_Inl) simp

text \<open>The only panics of the table.\<close>

lemma opfunc_panics:
  assumes "hash_env c" "n \<le> 80000" "engine_wf n vm" "small_op op" "txIdx vm < length (tx_TxIn (vm_tx vm))" "sub_ok vm"
  shows "panics_if (v \<in> sig_opcodes \<and> holds_bad_sig c vm) (opfunc c v op vm)"
proof (cases "v \<in> sig_opcodes")
  case True
  have "sized (dstack vm)" using assms(2,3) stack_wf_sized [of n "dstack vm"] by (simp add: engine_wf_def)
  note p = CheckSig_panics [OF this assms(6), of c op] CheckMultiSig_panics [OF this assms(6), of c op]
  have "panics_if (holds_bad_sig c vm) (opcodeCheckSigVerify c op vm)"
    "panics_if (holds_bad_sig c vm) (opcodeCheckMultiSigVerify c op vm)"
    unfolding opcodeCheckSigVerify_def opcodeCheckMultiSigVerify_def by (intro panics_rbind p opcodeVerify_panics)+
  with p True show ?thesis by (auto simp: sig_opcodes_def opfunc_sig)
next
  case False
  then show ?thesis
    using opfunc_no_panic [OF assms(1) False] assms(2-5) unfolding no_panic_def panics_if_def by blast
qed

end
