(* ===== verification/Engine_Run.thy ===== *)
theory Engine_Run
  imports Engine_Table
begin

text \<open>
  Runs of the script engine: the invariant \<open>vm_inv\<close> of a running engine, that \<^verbatim>\<open>NewEngine\<close> establishes it
  and \<^verbatim>\<open>Step\<close> keeps it, termination of \<^verbatim>\<open>Execute\<close>, and what a successful run tells about the scripts it ran.
\<close>

section \<open>Well-formed scripts\<close>

definition instr_ok :: "parsedOpcode \<Rightarrow> bool" where
  "instr_ok p \<longleftrightarrow> from_table p \<and> data_fits p"

text \<open>The nesting depth after a sequence of instructions, if every \<^verbatim>\<open>OP_ELSE\<close> and \<^verbatim>\<open>OP_ENDIF\<close> has its \<^verbatim>\<open>OP_IF\<close>.\<close>

primrec nest :: "parsedOpcode list \<Rightarrow> nat \<Rightarrow> nat option" where
  "nest [] d = Some d"
| "nest (p # ps) d =
     (if pop_value p = OP_IF \<or> pop_value p = OP_NOTIF then nest ps (d + 1)
      else if pop_value p = OP_ELSE then (if d = 0 then None else nest ps d)
      else if pop_value p = OP_ENDIF then (if d = 0 then None else nest ps (d - 1))
      else nest ps d)"

text \<open>An instruction no script may contain unexecuted either, and the number of counted operations.\<close>

definition op_legal :: "parsedOpcode \<Rightarrow> bool" where
  "op_legal p \<longleftrightarrow> \<not> isDisabled p \<and> \<not> alwaysIllegal p \<and> small_op p"

definition ops_count :: "parsedOpcode list \<Rightarrow> nat" where
  "ops_count ps = length (filter (\<lambda>p. pop_value p > OP_16) ps)"

definition legal_script :: "parsedOpcode list \<Rightarrow> bool" where
  "legal_script ps \<longleftrightarrow> nest ps 0 = Some 0 \<and> list_all op_legal ps \<and> ops_count ps \<le> MaxOpsPerScript"

text \<open>
  The condition stack, innermost first: a condition is true or false when all the enclosing ones are
  true, and the skip mark otherwise.
\<close>

primrec cond_wf :: "int list \<Rightarrow> bool" where
  "cond_wf [] = True"
| "cond_wf (v # vs) = (cond_wf vs \<and>
     (if \<forall>w \<in> set vs. w = OpCondTrue then v = OpCondTrue \<or> v = OpCondFalse else v = OpCondSkip))"

lemma nest_append: "nest (ps @ qs) d = (case nest ps d of None \<Rightarrow> None | Some e \<Rightarrow> nest qs e)"
  by (induction ps arbitrary: d) simp_all

lemma legal_Nil [simp]: "legal_script []"
  by (simp add: legal_script_def ops_count_def)

lemma cond_wf_true: "cond_wf cs \<Longrightarrow> cs \<noteq> [] \<Longrightarrow> hd cs = OpCondTrue \<Longrightarrow> \<forall>w \<in> set cs. w = OpCondTrue"
  by (cases cs) (auto split: if_splits)

lemma cond_step_wf:
  assumes "cond_step b cs cs'" "cond_wf (rev cs)"
  shows "cond_wf (rev cs')"
  using assms
proof cases
  case (enter v)
  then have "\<forall>w \<in> set cs. w = OpCondTrue"
    using cond_wf_true [of "rev cs"] assms(2) by (cases "cs = []") (auto simp: hd_rev)
  with enter assms(2) show ?thesis by auto
next
  case skip
  then have "\<exists>w \<in> set cs. w \<noteq> OpCondTrue" using last_in_set by blast
  with skip assms(2) show ?thesis by auto
qed (use assms(2) in \<open>auto split: if_splits\<close>)

lemma cond_step_nest:
  assumes "cond_step (pop_value p) cs cs'" "nest ps 0 = Some (length cs)"
  shows "nest (ps @ [p]) 0 = Some (length cs')"
  using assms(1)
proof cases
qed (use assms(2) in \<open>auto simp: nest_append\<close>)

lemma instr_small:
  assumes "instr_ok p" "OP_16 < pop_value p"
  shows "small_op p"
proof -
  have "opcodeLength (pop_value p) = 1"
    using assms(2) by (auto simp: opcodeLength_def word_less_nat_alt word_le_nat_alt)
  then show ?thesis using assms(1) by (simp add: instr_ok_def data_fits_def small_op_def Let_def)
qed

section \<open>One instruction\<close>

lemma engine_wf_numOps [simp]: "engine_wf n (vm\<lparr>numOps := m\<rparr>) = engine_wf n vm"
  by (simp add: engine_wf_def)

lemma executeOpcode_ok:
  assumes "hash_env c" "n + 3 \<le> 90000" "engine_wf n vm" "instr_ok p" "numOps vm \<le> MaxOpsPerScript"
    "executeOpcode c p vm = Inr vm'"
  shows "frame vm vm'" "engine_wf (n + 3) vm'" "cond_step (pop_value p) (condStack vm) (condStack vm')"
    "numOps vm + ops_count [p] \<le> numOps vm'" "numOps vm' \<le> MaxOpsPerScript"
    "lastCodeSep vm' = lastCodeSep vm \<or> lastCodeSep vm' = scriptOff vm" "op_legal p"
proof -
  define m where "m = numOps vm + ops_count [p]"
  define v1 where "v1 = vm\<lparr>numOps := m\<rparr>"
  have legal: "\<not> isDisabled p" "\<not> alwaysIllegal p" using assms(6) by (auto simp: executeOpcode_def split: if_splits)
  have "small_op p"
    using assms(4,6) legal instr_small by (cases "OP_16 < pop_value p") (auto simp: executeOpcode_def small_op_def split: if_splits)
  with legal show "op_legal p" by (simp add: op_legal_def)
  have m: "m \<le> MaxOpsPerScript" "(if \<not> isBranchExecuting v1 \<and> \<not> isConditional p then Inr v1
      else opfunc c (pop_value p) p v1) = Inr vm'"
    using assms(5,6) legal
    by (auto simp: executeOpcode_def Let_def m_def v1_def ops_count_def rbind_eq_Inr isBranchExecuting_def split: if_splits)
  have eq: "engine_wf n v1" "numOps v1 = m" "condStack v1 = condStack vm" "lastCodeSep v1 = lastCodeSep vm"
    "scriptOff v1 = scriptOff vm" "frame v1 vm' = frame vm vm'"
    using assms(3) by (simp_all add: v1_def frame_def)
  have "frame vm vm' \<and> engine_wf (n + 3) vm' \<and> cond_step (pop_value p) (condStack vm) (condStack vm') \<and> m \<le> numOps vm' \<and>
    numOps vm' \<le> MaxOpsPerScript \<and> (lastCodeSep vm' = lastCodeSep vm \<or> lastCodeSep vm' = scriptOff vm)"
  proof (cases "\<not> isBranchExecuting v1 \<and> \<not> isConditional p")
    case True
    then have "vm' = v1" using m(2) by simp
    moreover have "cond_step (pop_value p) (condStack vm) (condStack vm)"
      using True by (intro cond_step.plain) (auto simp: isConditional_def Let_def)
    ultimately show ?thesis using m(1) eq engine_wf_mono [OF eq(1), of "n + 3"] by simp
  next
    case False
    then have "opfunc c (pop_value p) p v1 = Inr vm'" using m(2) by (simp split: if_splits)
    note d = opfunc_ok [OF assms(1,2) eq(1) \<open>small_op p\<close> this]
    then show ?thesis using m(1) eq by simp
  qed
  then show "frame vm vm'" "engine_wf (n + 3) vm'" "cond_step (pop_value p) (condStack vm) (condStack vm')"
    "numOps vm + ops_count [p] \<le> numOps vm'" "numOps vm' \<le> MaxOpsPerScript"
    "lastCodeSep vm' = lastCodeSep vm \<or> lastCodeSep vm' = scriptOff vm" by (simp_all add: m_def)
qed

section \<open>The invariant of a run\<close>

abbreviation cur_script :: "Engine \<Rightarrow> parsedOpcode list" where
  "cur_script vm \<equiv> scripts vm ! scriptIdx vm"

definition stacks_ok :: "Engine \<Rightarrow> bool" where
  "stacks_ok vm \<longleftrightarrow> length (stk (dstack vm)) + length (stk (astack vm)) \<le> 1000 \<and>
     (\<forall>x \<in> set (stk (dstack vm)) \<union> set (stk (astack vm)). length x \<le> MaxScriptElementSize)"

text \<open>The position: what holds of the part of the current script before the program counter.\<close>

definition pos_ok :: "Engine \<Rightarrow> bool" where
  "pos_ok vm \<longleftrightarrow> (let ps = take (scriptOff vm) (cur_script vm) in
     scriptOff vm \<le> length (cur_script vm) \<and> lastCodeSep vm \<le> scriptOff vm \<and>
     nest ps 0 = Some (length (condStack vm)) \<and> list_all op_legal ps \<and> ops_count ps \<le> numOps vm)"

definition vm_inv :: "Engine \<Rightarrow> bool" where
  "vm_inv vm \<longleftrightarrow> txIdx vm < length (tx_TxIn (vm_tx vm)) \<and> (\<forall>s \<in> set (scripts vm). list_all instr_ok s) \<and>
     stacks_ok vm \<and> numOps vm \<le> MaxOpsPerScript \<and> cond_wf (rev (condStack vm)) \<and>
     (\<forall>i < length (scripts vm). i < scriptIdx vm \<longrightarrow> legal_script (scripts vm ! i)) \<and>
     (scriptIdx vm < length (scripts vm) \<longrightarrow> pos_ok vm)"

lemma stacks_wf: "stacks_ok vm \<Longrightarrow> engine_wf 1000 vm"
  by (auto simp: stacks_ok_def engine_wf_def stack_wf_def)

lemma wf_stacks:
  assumes "engine_wf n vm" "n \<le> 90000" "\<not> i32 (Depth (dstack vm) + Depth (astack vm)) > maxStackSize"
  shows "stacks_ok vm"
proof -
  have "length (stk (dstack vm)) \<le> 90000" "length (stk (astack vm)) \<le> 90000"
    using assms(1,2) by (auto simp: engine_wf_def stack_wf_def)
  then have "i32 (Depth (dstack vm) + Depth (astack vm)) = int (length (stk (dstack vm)) + length (stk (astack vm)))"
    by (simp add: Depth_def i32_id)
  then show ?thesis using assms by (auto simp: stacks_ok_def engine_wf_def stack_wf_def)
qed

lemma validPC_ok: "validPC vm = Inr u \<longleftrightarrow> scriptIdx vm < length (scripts vm) \<and> scriptOff vm < length (cur_script vm)"
  by (auto simp: validPC_def)

lemma ops_count_snoc: "ops_count (ps @ [p]) = ops_count ps + ops_count [p]"
  by (simp add: ops_count_def)

lemma frame_fields:
  assumes "frame vm vm'"
  shows "scripts vm' = scripts vm" "scriptIdx vm' = scriptIdx vm" "scriptOff vm' = scriptOff vm" "vm_tx vm' = vm_tx vm"
    "txIdx vm' = txIdx vm" "witnessProgram vm' = witnessProgram vm" "witnessVersion vm' = witnessVersion vm"
    "witnessExtProg vm' = witnessExtProg vm" "flags vm' = flags vm" "vm_hashCache vm' = vm_hashCache vm"
    "inputAmount vm' = inputAmount vm" "verifyMinimalData (dstack vm') = verifyMinimalData (dstack vm)"
  using assms by (simp_all add: frame_def)

lemma executeOpcode_inv:
  assumes "hash_env c" "vm_inv vm" "validPC vm = Inr u" "p = cur_script vm ! scriptOff vm"
    "executeOpcode c p (vm\<lparr>scriptOff := scriptOff vm + 1\<rparr>) = Inr vm'"
    "\<not> i32 (Depth (dstack vm') + Depth (astack vm')) > maxStackSize"
  shows "vm_inv vm'" "frame (vm\<lparr>scriptOff := scriptOff vm + 1\<rparr>) vm'"
proof -
  let ?v = "vm\<lparr>scriptOff := scriptOff vm + 1\<rparr>"
  have pc: "scriptIdx vm < length (scripts vm)" "scriptOff vm < length (cur_script vm)"
    using assms(3) by (simp_all add: validPC_ok)
  have pos: "pos_ok vm" using assms(2) pc(1) by (simp add: vm_inv_def)
  have "cur_script vm \<in> set (scripts vm)" using pc(1) by simp
  then have "list_all instr_ok (cur_script vm)" using assms(2) unfolding vm_inv_def by blast
  then have p: "instr_ok p" using pc(2) assms(4) by (simp add: list_all_length)
  have wf: "engine_wf 1000 ?v" using stacks_wf [of vm] assms(2) by (simp add: vm_inv_def engine_wf_def)
  have n: "1000 + 3 \<le> (90000 :: nat)" "numOps ?v \<le> MaxOpsPerScript" using assms(2) by (simp_all add: vm_inv_def)
  note d = executeOpcode_ok [OF assms(1) n(1) wf p n(2) assms(5)]
  show "frame ?v vm'" by (rule d(1))
  note f = frame_fields [OF d(1), simplified]
  have take: "take (Suc (scriptOff vm)) (cur_script vm) = take (scriptOff vm) (cur_script vm) @ [p]"
    using pc(2) assms(4) by (simp add: take_Suc_conv_app_nth)
  have cs: "cond_step (pop_value p) (condStack vm) (condStack vm')" using d(3) by simp
  have "pos_ok vm'"
    using pos d(4,6,7) pc(2) cond_step_nest [OF cs]
    unfolding pos_ok_def Let_def f take by (auto simp: ops_count_snoc)
  moreover have "cond_wf (rev (condStack vm'))" using cond_step_wf [OF cs] assms(2) by (simp add: vm_inv_def)
  moreover have "stacks_ok vm'" using wf_stacks [OF d(2) _ assms(6)] by simp
  ultimately show "vm_inv vm'" using assms(2) d(5) unfolding vm_inv_def f by simp
qed

section \<open>The next script\<close>

lemma drop_all_eq:
  assumes "sized s"
  shows "drop_all s = s\<lparr>stk := []\<rparr>"
proof (cases "stk s = []")
  case True
  then show ?thesis by (simp add: drop_all_def Depth_def DropN_def i32_id)
next
  case False
  then have "DropN (Depth s) s = Inr (s\<lparr>stk := []\<rparr>)"
    using assms DropN_ok [of s "[]" "stk s"] by (simp add: Depth_def i32_length)
  then show ?thesis by (simp add: drop_all_def)
qed

lemma parse_instr_ok: "parseScript s = (ps, None) \<Longrightarrow> list_all instr_ok ps"
  using parse_ref_ok [of s ps] by (simp add: parseScript_ref instr_ok_def [abs_def])

lemma lock_pops_instr_ok: "lock_pops buf = Inr ps \<Longrightarrow> list_all instr_ok ps"
  by (auto simp: lock_pops_def intro: parse_instr_ok split: prod.splits option.splits)

lemma ext_scripts_instr_ok: "ext_scripts vm = Inr ext \<Longrightarrow> \<forall>s \<in> set ext. list_all instr_ok s"
  by (auto simp: ext_scripts_def frozen_pops_def Let_def rbind_eq_Inr intro: lock_pops_instr_ok split: if_splits)

lemma ext_scripts_cong:
  "witnessExtProg vm = witnessExtProg vm' \<Longrightarrow>
   verifyMinimalData (dstack vm) = verifyMinimalData (dstack vm') \<Longrightarrow> ext_scripts vm = ext_scripts vm'"
  unfolding ext_scripts_def by (simp only:)

lemma witness_scripts_ok:
  "witness_scripts ws = Inr ps \<Longrightarrow> list_all2 (\<lambda>w p. parseScript w = (p, None) \<and> length w \<le> maxScriptSize) ws ps"
proof (induction ws arbitrary: ps)
  case (Cons w ws)
  then obtain p qs where "parseScript w = (p, None)" "witness_scripts ws = Inr qs" "ps = p # qs" "length w \<le> maxScriptSize"
    by (auto simp: rbind_eq_Inr split: if_splits prod.splits option.splits)
  then show ?case using Cons.IH by simp
qed simp

text \<open>What \<^verbatim>\<open>verifyWitnessProgram\<close> has checked when it succeeds.\<close>

lemma verifyWitnessProgram_ok:
  assumes "verifyWitnessProgram c witness vm = Inr vm'"
  obtains w0 w1 ext p0 p1 where "witness = [w0, w1]" "w0 \<noteq> []" "w1 \<noteq> []" "witnessProgram vm = Some (sha256 c w1)"
    "ext_scripts vm = Inr ext"
    "parseScript w0 = (p0, None)" "parseScript w1 = (p1, None)" "length w0 \<le> maxScriptSize" "length w1 \<le> maxScriptSize"
    "vm' = vm\<lparr>scripts := scripts vm @ ext @ [p0, p1]\<rparr>"
proof -
  have a: "isWitnessVersionActive 0 vm" "length witness = 2" "witness ! 0 \<noteq> []" "witness ! 1 \<noteq> []"
    "Some (sha256 c (witness ! 1)) = witnessProgram vm"
    using assms by (auto simp: verifyWitnessProgram_def split: if_splits)
  then obtain w0 w1 where w: "witness = [w0, w1]" by (auto simp: numeral_2_eq_2 length_Suc_conv)
  obtain ext ws where e: "ext_scripts vm = Inr ext" "witness_scripts witness = Inr ws"
    "vm' = vm\<lparr>scripts := scripts vm @ ext @ ws\<rparr>"
    using assms by (auto simp: verifyWitnessProgram_def rbind_eq_Inr Let_def split: if_splits)
  have "list_all2 (\<lambda>w p. parseScript w = (p, None) \<and> length w \<le> maxScriptSize) [w0, w1] ws"
    using witness_scripts_ok [OF e(2)] w by simp
  then obtain p0 p1 where "ws = [p0, p1]" "parseScript w0 = (p0, None)" "parseScript w1 = (p1, None)"
    "length w0 \<le> maxScriptSize" "length w1 \<le> maxScriptSize" by (auto simp: list_all2_Cons1)
  then show thesis using that [of w0 w1 ext p0 p1] a w e by simp
qed

text \<open>The two ways on: a witness program brings in its scripts, any other script is just left behind.\<close>

lemma next_script_cases:
  assumes "next_script c vm = Inr (fin, vm')" "stacks_ok vm"
  obtains (witness) w0 w1 ext p0 p1 txIn v where "scriptIdx vm = 0" "cur_TxIn vm = Inr txIn" "in_Witness txIn = [w0, w1]"
      "w0 \<noteq> []" "w1 \<noteq> []" "witnessProgram vm = Some (sha256 c w1)" "parseScript w0 = (p0, None)" "parseScript w1 = (p1, None)"
      "ext_scripts vm = Inr ext" "v = vm\<lparr>scripts := scripts vm @ ext @ [p0, p1], scriptIdx := 1, scriptOff := 0,
        dstack := (dstack vm)\<lparr>stk := []\<rparr>, astack := (astack vm)\<lparr>stk := []\<rparr>, numOps := 0\<rparr>" "condStack vm = []"
      "vm' = v\<lparr>scriptIdx := (if scriptIdx v < length (scripts v) \<and> cur_script v = [] then scriptIdx v + 1 else scriptIdx v),
        lastCodeSep := 0\<rparr>" "fin = (scriptIdx vm' \<ge> length (scripts vm'))"
  | (other) v where "v = vm\<lparr>scriptIdx := scriptIdx vm + 1, scriptOff := 0, astack := (astack vm)\<lparr>stk := []\<rparr>, numOps := 0\<rparr>"
      "condStack vm = []" "scriptIdx vm = 0 \<longrightarrow> witnessProgram vm = None"
      "vm' = v\<lparr>scriptIdx := (if scriptIdx v < length (scripts v) \<and> cur_script v = [] then scriptIdx v + 1 else scriptIdx v),
        lastCodeSep := 0\<rparr>" "fin = (scriptIdx vm' \<ge> length (scripts vm'))"
proof -
  have sz: "sized (dstack vm)" "sized (astack vm)" using assms(2) by (auto simp: stacks_ok_def)
  have cs: "condStack vm = []" using assms(1) by (auto simp: next_script_def split: if_splits)
  define va where "va = vm\<lparr>astack := (astack vm)\<lparr>stk := []\<rparr>, numOps := 0, scriptOff := 0\<rparr>"
  show thesis
  proof (cases "scriptIdx vm = 0 \<and> witnessProgram vm \<noteq> None")
    case True
    define vb where "vb = va\<lparr>scriptIdx := 1, dstack := (dstack vm)\<lparr>stk := []\<rparr>\<rparr>"
    obtain txIn v where v: "cur_TxIn vb = Inr txIn" "verifyWitnessProgram c (in_Witness txIn) vb = Inr v"
      "vm' = (if scriptIdx v < length (scripts v) \<and> scriptOff v \<ge> length (cur_script v)
         then v\<lparr>scriptIdx := scriptIdx v + 1\<rparr> else v)\<lparr>lastCodeSep := 0\<rparr>" "fin = (scriptIdx vm' \<ge> length (scripts vm'))"
      using assms(1) cs True drop_all_eq [OF sz(1)] drop_all_eq [OF sz(2)]
      by (auto simp: next_script_def Let_def rbind_eq_Inr va_def vb_def split: if_splits)
    obtain w0 w1 ext p0 p1 where w: "in_Witness txIn = [w0, w1]" "w0 \<noteq> []" "w1 \<noteq> []" "witnessProgram vb = Some (sha256 c w1)"
      "ext_scripts vb = Inr ext" "parseScript w0 = (p0, None)" "parseScript w1 = (p1, None)"
      "v = vb\<lparr>scripts := scripts vb @ ext @ [p0, p1]\<rparr>"
      using verifyWitnessProgram_ok [OF v(2)] by metis
    have "ext_scripts vm = ext_scripts vb" by (rule ext_scripts_cong) (simp_all add: va_def vb_def)
    then have "ext_scripts vm = Inr ext" using w(5) by simp
    moreover have "cur_TxIn vm = Inr txIn" using v(1) by (simp add: cur_TxIn_def va_def vb_def split: if_splits)
    ultimately show thesis
      using witness [of txIn w0 w1 p0 p1 ext v] True v(3,4) w cs by (simp add: va_def vb_def)
  next
    case False
    define v where "v = va\<lparr>scriptIdx := scriptIdx vm + 1\<rparr>"
    have "vm' = (if scriptIdx v < length (scripts v) \<and> scriptOff v \<ge> length (cur_script v)
         then v\<lparr>scriptIdx := scriptIdx v + 1\<rparr> else v)\<lparr>lastCodeSep := 0\<rparr>" "fin = (scriptIdx vm' \<ge> length (scripts vm'))"
      using assms(1) cs False drop_all_eq [OF sz(2)]
      by (auto simp: next_script_def Let_def rbind_eq_Inr va_def v_def split: if_splits)
    then show thesis using other [of v] False cs by (auto simp: va_def v_def)
  qed
qed

lemma next_script_inv:
  assumes "next_script c vm = Inr (fin, vm')" "vm_inv vm" "scriptIdx vm < length (scripts vm)"
    "scriptOff vm \<ge> length (cur_script vm)"
  shows "vm_inv vm'" "fin = (scriptIdx vm' \<ge> length (scripts vm'))" "scriptIdx vm < scriptIdx vm'"
    "scriptIdx vm \<noteq> 0 \<Longrightarrow> scripts vm' = scripts vm" "\<exists>ext. scripts vm' = scripts vm @ ext"
    "vm_tx vm' = vm_tx vm \<and> txIdx vm' = txIdx vm \<and> witnessProgram vm' = witnessProgram vm \<and>
      witnessExtProg vm' = witnessExtProg vm \<and> witnessVersion vm' = witnessVersion vm"
proof -
  have st: "stacks_ok vm" and ins: "\<forall>s \<in> set (scripts vm). list_all instr_ok s"
    and tx: "txIdx vm < length (tx_TxIn (vm_tx vm))"
    and before: "\<And>i. i < length (scripts vm) \<Longrightarrow> i < scriptIdx vm \<Longrightarrow> legal_script (scripts vm ! i)"
    and pos: "pos_ok vm" and ops: "numOps vm \<le> MaxOpsPerScript"
    using assms(2,3) by (simp_all add: vm_inv_def)
  have cur: "condStack vm = [] \<Longrightarrow> legal_script (cur_script vm)"
    using pos assms(4) ops by (auto simp: pos_ok_def legal_script_def Let_def)
  have st0: "stacks_ok (vm\<lparr>astack := (astack vm)\<lparr>stk := []\<rparr>\<rparr>)" using st by (auto simp: stacks_ok_def)
  have done_i: "legal_script (scripts vm ! i)" if "condStack vm = []" "i < length (scripts vm)" "i < Suc (scriptIdx vm)" for i
    using that before [of i] cur by (cases "i = scriptIdx vm") auto
  have fresh: "pos_ok v" if "scriptOff v = 0" "lastCodeSep v = 0" "condStack v = []" for v
    using that by (simp add: pos_ok_def ops_count_def)
  have "vm_inv vm' \<and> fin = (scriptIdx vm' \<ge> length (scripts vm')) \<and> scriptIdx vm < scriptIdx vm' \<and>
    (scriptIdx vm \<noteq> 0 \<longrightarrow> scripts vm' = scripts vm) \<and> (\<exists>ext. scripts vm' = scripts vm @ ext) \<and>
    vm_tx vm' = vm_tx vm \<and> txIdx vm' = txIdx vm \<and> witnessProgram vm' = witnessProgram vm \<and>
      witnessExtProg vm' = witnessExtProg vm \<and> witnessVersion vm' = witnessVersion vm"
    using assms(1) st
  proof (cases rule: next_script_cases)
    case (witness w0 w1 ext p0 p1 txIn v)
    have ok: "\<forall>s \<in> set (scripts v). list_all instr_ok s"
      using witness ins ext_scripts_instr_ok [OF witness(9)] parse_instr_ok by auto
    have leg: "legal_script (scripts v ! i)" if "i < length (scripts v)" "i < scriptIdx vm'" for i
    proof (cases "i = 0")
      case True
      then show ?thesis using done_i [of 0] witness(1,10,11) assms(3) by (simp add: nth_append)
    next
      case False
      have "scriptIdx v = 1" using witness(10) by simp
      moreover have "scriptIdx vm' = (if scriptIdx v < length (scripts v) \<and> cur_script v = [] then scriptIdx v + 1
          else scriptIdx v)" using witness(12) by simp
      ultimately have "i = scriptIdx v \<and> cur_script v = []" using that(2) False by (simp split: if_splits)
      then show ?thesis by simp
    qed
    have "vm_inv vm'" using ok leg tx witness fresh [of vm'] by (auto simp: vm_inv_def stacks_ok_def)
    then show ?thesis using witness by simp
  next
    case (other v)
    have leg: "legal_script (scripts vm ! i)" if "i < length (scripts vm)" "i < scriptIdx vm'" for i
      using that other done_i [of i] by (auto split: if_splits simp: less_Suc_eq)
    have "vm_inv vm'" using ins leg tx st0 other fresh [of vm'] by (auto simp: vm_inv_def stacks_ok_def)
    then show ?thesis using other by simp
  qed
  then show "vm_inv vm'" "fin = (scriptIdx vm' \<ge> length (scripts vm'))" "scriptIdx vm < scriptIdx vm'"
    "scriptIdx vm \<noteq> 0 \<Longrightarrow> scripts vm' = scripts vm" "\<exists>ext. scripts vm' = scripts vm @ ext"
    "vm_tx vm' = vm_tx vm \<and> txIdx vm' = txIdx vm \<and> witnessProgram vm' = witnessProgram vm \<and>
      witnessExtProg vm' = witnessExtProg vm \<and> witnessVersion vm' = witnessVersion vm" by blast+
qed

section \<open>Steps and runs\<close>

lemma Step_cases:
  assumes "Step c vm = Inr (fin, vm')" "hash_env c" "vm_inv vm"
  obtains (inside) "vm_inv vm'" "\<not> fin" "frame (vm\<lparr>scriptOff := scriptOff vm + 1\<rparr>) vm'"
      "scriptIdx vm < length (scripts vm)" "scriptOff vm + 1 < length (cur_script vm)"
  | (last) v where "vm_inv v" "frame (vm\<lparr>scriptOff := scriptOff vm + 1\<rparr>) v" "scriptIdx vm < length (scripts vm)"
      "scriptOff vm + 1 = length (cur_script vm)" "next_script c v = Inr (fin, vm')"
proof -
  define p where "p = cur_script vm ! scriptOff vm"
  obtain v where v: "validPC vm = Inr ()" "executeOpcode c p (vm\<lparr>scriptOff := scriptOff vm + 1\<rparr>) = Inr v"
    "\<not> i32 (Depth (dstack v) + Depth (astack v)) > maxStackSize"
    "(if scriptOff v \<ge> length (cur_script v) then next_script c v else Inr (False, v)) = Inr (fin, vm')"
    using assms(1) by (auto simp: Step_def Let_def rbind_eq_Inr p_def split: if_splits)
  note i = executeOpcode_inv [OF assms(2,3) v(1) p_def v(2,3)]
  note f = frame_fields [OF i(2), simplified]
  have pc: "scriptIdx vm < length (scripts vm)" "scriptOff vm < length (cur_script vm)"
    using v(1) by (simp_all add: validPC_ok)
  show thesis
  proof (cases "scriptOff vm + 1 = length (cur_script vm)")
    case True
    then show thesis using last [OF i pc(1)] v(4) f by simp
  next
    case False
    then show thesis using inside v(4) i f pc by (simp split: if_splits)
  qed
qed

lemma Step_inv:
  assumes "Step c vm = Inr (fin, vm')" "hash_env c" "vm_inv vm"
  shows "vm_inv vm'" "fin = (scriptIdx vm' \<ge> length (scripts vm'))" "\<exists>ext. scripts vm' = scripts vm @ ext"
    "vm_tx vm' = vm_tx vm \<and> txIdx vm' = txIdx vm \<and> witnessProgram vm' = witnessProgram vm \<and>
      witnessExtProg vm' = witnessExtProg vm \<and> witnessVersion vm' = witnessVersion vm"
proof -
  have "vm_inv vm' \<and> fin = (scriptIdx vm' \<ge> length (scripts vm')) \<and> (\<exists>ext. scripts vm' = scripts vm @ ext) \<and>
    vm_tx vm' = vm_tx vm \<and> txIdx vm' = txIdx vm \<and> witnessProgram vm' = witnessProgram vm \<and>
      witnessExtProg vm' = witnessExtProg vm \<and> witnessVersion vm' = witnessVersion vm"
    using assms
  proof (cases rule: Step_cases)
    case inside
    then show ?thesis using frame_fields [OF inside(3)] by simp
  next
    case (last v)
    note f = frame_fields [OF last(2), simplified]
    have "scriptIdx v < length (scripts v)" "length (cur_script v) \<le> scriptOff v" using last(3,4) f by simp_all
    note n = next_script_inv [OF last(5,1) this]
    then show ?thesis using f by simp
  qed
  then show "vm_inv vm'" "fin = (scriptIdx vm' \<ge> length (scripts vm'))" "\<exists>ext. scripts vm' = scripts vm @ ext"
    "vm_tx vm' = vm_tx vm \<and> txIdx vm' = txIdx vm \<and> witnessProgram vm' = witnessProgram vm \<and>
      witnessExtProg vm' = witnessExtProg vm \<and> witnessVersion vm' = witnessVersion vm" by blast+
qed

text \<open>
  The run loop ends: the first script is left once and for all, then the scripts left, then the
  instructions left in the current one.
\<close>

definition run_measure :: "Engine \<Rightarrow> nat \<times> nat \<times> nat" where
  "run_measure vm = (if scriptIdx vm = 0 then 1 else 0, length (scripts vm) - scriptIdx vm,
     length (cur_script vm) - scriptOff vm)"

abbreviation run_less :: "((nat \<times> nat \<times> nat) \<times> nat \<times> nat \<times> nat) set" where
  "run_less \<equiv> less_than <*lex*> less_than <*lex*> less_than"

lemma Step_measure:
  assumes "Step c vm = Inr (fin, vm')" "hash_env c" "vm_inv vm"
  shows "(run_measure vm', run_measure vm) \<in> run_less"
  using assms
proof (cases rule: Step_cases)
  case inside
  then show ?thesis using frame_fields [OF inside(3), simplified] by (simp add: run_measure_def)
next
  case (last v)
  note f = frame_fields [OF last(2), simplified]
  have "scriptIdx v < length (scripts v)" "length (cur_script v) \<le> scriptOff v" using last(3,4) f by simp_all
  note n = next_script_inv [OF last(5,1) this]
  show ?thesis
  proof (cases "scriptIdx vm = 0")
    case True
    then show ?thesis using n(3) f by (simp add: run_measure_def)
  next
    case False
    then show ?thesis using n(3,4) f last(3) by (auto simp: run_measure_def)
  qed
qed

lemma run_induct [consumes 2, case_names step]:
  assumes "hash_env c" "vm_inv vm"
    and "\<And>vm. vm_inv vm \<Longrightarrow> (\<And>vm'. Step c vm = Inr (False, vm') \<Longrightarrow> vm_inv vm' \<Longrightarrow> P vm') \<Longrightarrow> P vm"
  shows "P vm"
proof -
  have wf: "wf (inv_image run_less run_measure)" by (intro wf_inv_image wf_lex_prod wf_less_than)
  show ?thesis
    using assms(2)
  proof (induction vm rule: wf_induct_rule [OF wf])
    case (1 vm)
    show ?case
    proof (rule assms(3) [OF 1(2)])
      fix vm' assume s: "Step c vm = Inr (False, vm')" "vm_inv vm'"
      have "(run_measure vm', run_measure vm) \<in> run_less" by (rule Step_measure [OF s(1) assms(1) 1(2)])
      then show "P vm'" using 1(1) [of vm'] s(2) by simp
    qed
  qed
qed

lemma Execute_total:
  assumes "hash_env c" "vm_inv vm"
  shows "\<exists>r. Execute c vm = Some r"
  using assms
proof (induction rule: run_induct)
  case (step vm)
  show ?case
  proof (cases "Step c vm")
    case (Inl e)
    then show ?thesis by (simp add: Execute.simps [of c vm])
  next
    case (Inr x)
    then show ?thesis using step(2) [of "snd x"] Step_inv(1) [OF _ assms(1) step(1)]
      by (cases x) (auto simp: Execute.simps [of c vm])
  qed
qed

end
