(* ===== verification/Engine_Props.thy ===== *)
theory Engine_Props
  imports Engine_Run
begin

text \<open>
  The properties of a whole script check, from \<^verbatim>\<open>NewEngine\<close> to the verdict of \<^verbatim>\<open>Execute\<close>: it returns, it
  stays within the limits, what it can crash on, and what its success says about scripts and witness.
\<close>

section \<open>New engines and their runs\<close>

inductive runs :: "('pk, 'sg) crypto \<Rightarrow> Engine \<Rightarrow> Engine \<Rightarrow> bool" for c vm0 where
  start: "runs c vm0 vm0"
| step: "runs c vm0 vm \<Longrightarrow> Step c vm = Inr (fin, vm') \<Longrightarrow> runs c vm0 vm'"

lemma NewEngine_cases:
  assumes "NewEngine pk tx idx fl sc hc amt = Inr vm"
  obtains ps where "parseScript pk = (ps, None)" "0 \<le> idx" "nat idx < length (tx_TxIn tx)" "length pk \<le> maxScriptSize"
    "pk \<noteq> []" "scripts vm = [ps]" "scriptIdx vm = 0" "scriptOff vm = 0" "lastCodeSep vm = 0" "stk (dstack vm) = []" "stk (astack vm) = []"
    "\<not> verifyMinimalData (dstack vm)" "vm_tx vm = tx" "txIdx vm = nat idx" "condStack vm = []" "numOps vm = 0"
    "isWitnessProgram ps \<Longrightarrow> \<exists>ver prog ext. extractWitnessProgramInfo ps = Inr (ver, prog, ext) \<and>
       witnessVersion vm = ver \<and> witnessProgram vm = Some prog \<and> witnessExtProg vm = ext"
    "\<not> isWitnessProgram ps \<Longrightarrow> witnessProgram vm = None"
proof -
  obtain ps where ps: "parseScript pk = (ps, None)"
    using assms by (auto simp: NewEngine_def split: if_splits prod.splits option.splits)
  show thesis
    using assms ps by (intro that [of ps]) (auto simp: NewEngine_def rbind_eq_Inr Let_def split: if_splits)
qed

lemma NewEngine_inv:
  assumes "NewEngine pk tx idx fl sc hc amt = Inr vm"
  shows "vm_inv vm"
  using assms
proof (cases rule: NewEngine_cases)
  case (1 ps)
  then show ?thesis
    using parse_instr_ok by (simp add: vm_inv_def stacks_ok_def pos_ok_def ops_count_def)
qed

lemma runs_inv:
  assumes "runs c vm0 vm" "hash_env c" "vm_inv vm0"
  shows "vm_inv vm"
  using assms by (induction rule: runs.induct) (auto dest: Step_inv(1))

lemma runs_Step: "Step c vm0 = Inr (fin, vm1) \<Longrightarrow> runs c vm1 vm \<Longrightarrow> runs c vm0 vm"
  by (rotate_tac, induction rule: runs.induct) (auto intro: runs.intros)

lemma Execute_unfold:
  "Execute c vm = Some (Inr ()) \<longleftrightarrow>
     (\<exists>fin vm'. Step c vm = Inr (fin, vm') \<and>
       (if fin then CheckErrorCondition True vm' = Inr () else Execute c vm' = Some (Inr ())))"
  by (auto simp: Execute.simps [of c vm] split: sum.splits if_splits prod.splits)

lemma Execute_success_runs:
  assumes "hash_env c" "vm_inv vm" "Execute c vm = Some (Inr ())"
  shows "\<exists>vm'. runs c vm vm' \<and> scriptIdx vm' \<ge> length (scripts vm') \<and> CheckErrorCondition True vm' = Inr ()"
  using assms
proof (induction rule: run_induct)
  case (step vm)
  then obtain fin v where v: "Step c vm = Inr (fin, v)"
    "if fin then CheckErrorCondition True v = Inr () else Execute c v = Some (Inr ())"
    by (auto simp: Execute_unfold [of c vm])
  note i = Step_inv [OF v(1) assms(1) step(1)]
  show ?case
  proof (cases fin)
    case True
    then show ?thesis using v i(2) runs.step [OF runs.start v(1)] by auto
  next
    case False
    then obtain vm' where "runs c v vm'" "scriptIdx vm' \<ge> length (scripts vm')" "CheckErrorCondition True vm' = Inr ()"
      using step(2) [of v] v i(1) by auto
    then show ?thesis using runs_Step [OF v(1)] by blast
  qed
qed

section \<open>The witness of a run\<close>

text \<open>What the engine has checked of the witness by the time it has left the output script.\<close>

definition witness_of :: "Engine \<Rightarrow> bytes list" where
  "witness_of vm = in_Witness (tx_TxIn (vm_tx vm) ! txIdx vm)"

definition wit_inv :: "('pk, 'sg) crypto \<Rightarrow> parsedOpcode list \<Rightarrow> Engine \<Rightarrow> bool" where
  "wit_inv c ps vm \<longleftrightarrow>
     (if scriptIdx vm = 0 \<or> witnessProgram vm = None then scripts vm = [ps]
      else \<exists>w0 w1 ext p0 p1. witness_of vm = [w0, w1] \<and> w0 \<noteq> [] \<and> w1 \<noteq> [] \<and> witnessProgram vm = Some (sha256 c w1) \<and>
        parseScript w0 = (p0, None) \<and> parseScript w1 = (p1, None) \<and> scripts vm = ps # ext @ [p0, p1])"

lemma wit_inv_cong:
  assumes "wit_inv c ps vm" "scriptIdx vm \<noteq> 0 \<or> witnessProgram vm = None \<or> scriptIdx vm' = 0" "scripts vm' = scripts vm"
    "vm_tx vm' = vm_tx vm" "txIdx vm' = txIdx vm" "witnessProgram vm' = witnessProgram vm" "scriptIdx vm \<noteq> 0 \<longrightarrow> scriptIdx vm' \<noteq> 0"
  shows "wit_inv c ps vm'"
  using assms by (auto simp: wit_inv_def witness_of_def)

lemma Step_wit_inv:
  assumes "Step c vm = Inr (fin, vm')" "hash_env c" "vm_inv vm" "wit_inv c ps vm"
  shows "wit_inv c ps vm'"
  using assms(1-3)
proof (cases rule: Step_cases)
  case inside
  note f = frame_fields [OF inside(3), simplified]
  show ?thesis by (rule wit_inv_cong [OF assms(4)]) (auto simp: f)
next
  case (last v)
  note f = frame_fields [OF last(2), simplified]
  have v: "wit_inv c ps v" by (rule wit_inv_cong [OF assms(4)]) (auto simp: f)
  have "stacks_ok v" using last(1) by (simp add: vm_inv_def)
  from last(5) this show ?thesis
  proof (cases rule: next_script_cases)
    case (witness w0 w1 ext p0 p1 txIn u)
    have "scripts v = [ps]" using v witness(1) by (simp add: wit_inv_def)
    moreover have "witness_of vm' = [w0, w1]"
      using witness by (simp add: witness_of_def cur_TxIn_def split: if_splits)
    moreover have "scriptIdx vm' \<noteq> 0" using witness by simp
    ultimately show ?thesis using witness unfolding wit_inv_def by simp
  next
    case (other u)
    show ?thesis by (rule wit_inv_cong [OF v]) (use other in auto)
  qed
qed

lemma runs_wit_inv:
  assumes "runs c vm0 vm" "hash_env c" "vm_inv vm0" "wit_inv c ps vm0"
  shows "wit_inv c ps vm"
  using assms by (induction rule: runs.induct) (auto dest: Step_wit_inv runs_inv)

lemma runs_same:
  assumes "runs c vm0 vm" "hash_env c" "vm_inv vm0"
  shows "vm_tx vm = vm_tx vm0 \<and> txIdx vm = txIdx vm0 \<and> witnessProgram vm = witnessProgram vm0"
  using assms by (induction rule: runs.induct) (auto dest: Step_inv(4) runs_inv)

section \<open>Panics of a step\<close>

lemma parse1_panics: "panics_if False (parse1 b bs)"
  by (auto simp: parse1_def panics_if_def Let_def split: if_splits)

lemma parse_panics: "snd (parse_ref s) \<noteq> Some GoPanic"
proof (induction s rule: parse_ref.induct)
  case (2 b bs)
  show ?case
  proof (cases "parse1 b bs")
    case (Inr x)
    then show ?thesis using 2 [OF Inr, of "fst x" "snd x"] by (auto split: prod.splits)
  qed (use parse1_panics [of b bs] in \<open>simp add: panics_if_def\<close>)
qed simp

lemma parseScript_panics: "parseScript s \<noteq> (ps, Some GoPanic)"
  using parse_panics [of s] by (auto simp: parseScript_ref)

lemma lock_panics: "panics_if False (lock_pops buf)"
proof -
  have "Script (AddOp OP_DROP (AddOp OP_CHECKSEQUENCEVERIFY (AddData buf NewScriptBuilder))) \<noteq> (s, Some GoPanic)" for s
    by (auto simp: Script_def AddOp_def AddData_def addData_def NewScriptBuilder_def Let_def split: if_splits)
  then show ?thesis
    using parseScript_panics by (auto simp: lock_pops_def panics_if_def split: prod.splits option.splits)
qed

lemma frozen_panics: "panics_if False (frozen_pops d m)"
  unfolding frozen_pops_def using makeScriptNum_no_panic [of d m 9]
  by (intro panic_rules lock_panics panics_Inl) (simp_all add: panics_if_def)

lemma ext_panics: "panics_if False (ext_scripts vm)"
  unfolding ext_scripts_def Let_def by (intro panic_rules lock_panics frozen_panics panics_Inl) simp_all

lemma witness_panics: "panics_if False (witness_scripts ws)"
proof (induction ws)
  case (Cons w ws)
  then show ?case
    using parseScript_panics by (auto simp: panics_if_def rbind_eq_Inl split: prod.splits option.splits)
qed (simp add: panics_if_def)

lemma next_script_panics:
  assumes "txIdx vm < length (tx_TxIn (vm_tx vm))"
  shows "panics_if False (next_script c vm)"
proof -
  have "panics_if False (cur_TxIn v)" if "txIdx v = txIdx vm" "vm_tx v = vm_tx vm" for v
    using assms that by (simp add: cur_TxIn_def panics_if_def)
  moreover have "panics_if False (verifyWitnessProgram c w v)" for w v
    unfolding verifyWitnessProgram_def Let_def by (intro panic_rules ext_panics witness_panics panics_Inl) simp_all
  ultimately show ?thesis
    unfolding next_script_def Let_def by (intro panic_rules panics_Inl) simp_all
qed

text \<open>The instruction a step executes.\<close>

abbreviation pc_op :: "Engine \<Rightarrow> parsedOpcode" where
  "pc_op vm \<equiv> cur_script vm ! scriptOff vm"

lemma Step_panics:
  assumes "hash_env c" "vm_inv vm"
  shows "panics_if (isBranchExecuting vm \<and> pop_value (pc_op vm) \<in> sig_opcodes \<and> holds_bad_sig c vm) (Step c vm)"
proof (cases "scriptIdx vm < length (scripts vm) \<and> scriptOff vm < length (cur_script vm)")
  case False
  then show ?thesis by (auto simp: Step_def validPC_def panics_if_def)
next
  case True
  let ?v = "vm\<lparr>scriptOff := scriptOff vm + 1\<rparr>"
  have pc: "validPC vm = Inr ()" using True by (simp add: validPC_def)
  have pos: "pos_ok vm" using assms(2) True by (simp add: vm_inv_def)
  have ins: "instr_ok (pc_op vm)"
    using assms(2) True by (auto simp: vm_inv_def list_all_length)
  have "panics_if (isBranchExecuting vm \<and> pop_value (pc_op vm) \<in> sig_opcodes \<and> holds_bad_sig c vm)
      (executeOpcode c (pc_op vm) ?v)"
  proof -
    have "panics_if (isBranchExecuting vm \<and> pop_value (pc_op vm) \<in> sig_opcodes \<and> holds_bad_sig c vm)
        (opfunc c (pop_value (pc_op vm)) (pc_op vm) v)"
      if "scripts v = scripts vm" "scriptIdx v = scriptIdx vm" "lastCodeSep v = lastCodeSep vm" "dstack v = dstack vm"
        "astack v = astack vm" "condStack v = condStack vm" "vm_tx v = vm_tx vm" "txIdx v = txIdx vm" "small_op (pc_op vm)"
        "\<not> (\<not> isBranchExecuting v \<and> \<not> isConditional (pc_op vm))" for v
    proof -
      have "engine_wf 1000 v" using that stacks_wf [of vm] assms(2) by (simp add: vm_inv_def engine_wf_def)
      moreover have "sub_ok v" "txIdx v < length (tx_TxIn (vm_tx v))"
        using that pos True assms(2) by (simp_all add: sub_ok_def pos_ok_def vm_inv_def Let_def)
      ultimately have "panics_if (pop_value (pc_op vm) \<in> sig_opcodes \<and> holds_bad_sig c v)
          (opfunc c (pop_value (pc_op vm)) (pc_op vm) v)"
        using opfunc_panics [of c 1000 v "pc_op vm"] assms(1) that(9) by simp
      then show ?thesis using that
        by (auto simp: panics_if_def isConditional_def isBranchExecuting_def sig_opcodes_def Let_def split: if_splits)
    qed
    moreover have "small_op (pc_op vm)" if "\<not> length (pop_data (pc_op vm)) > MaxScriptElementSize \<or> pop_value (pc_op vm) > OP_16"
      using that instr_small [OF ins] by (auto simp: small_op_def)
    moreover have "panics_if P (checkMinimalDataPush q)" for P q
      by (auto simp: checkMinimalDataPush_def panics_if_def Let_def split: if_splits)
    ultimately show ?thesis
      unfolding executeOpcode_def Let_def
      by (intro panic_rules panics_Inl) (auto split: if_splits)
  qed
  moreover have "panics_if P (next_script c v)" if "executeOpcode c (pc_op vm) ?v = Inr v"
    "\<not> i32 (Depth (dstack v) + Depth (astack v)) > maxStackSize" for v P
  proof -
    from executeOpcode_inv [OF assms pc refl that] have "txIdx v < length (tx_TxIn (vm_tx v))"
      by (simp add: vm_inv_def)
    then show ?thesis using panics_mono [OF next_script_panics] by blast
  qed
  ultimately show ?thesis
    unfolding Step_def Let_def pc rbind_Inr by (intro panic_rules panics_Inl) auto
qed

section \<open>Pushes\<close>

lemma executeOpcode_push:
  assumes "instr_ok p" "pop_value p \<le> OP_PUSHDATA4" "small_op p" "isBranchExecuting vm" "\<not> verifyMinimalData (dstack vm)"
  shows "executeOpcode c p vm = Inr (vm\<lparr>dstack := PushByteArray (pop_data p) (dstack vm)\<rparr>)"
proof -
  have v: "pop_value p \<le> OP_16" using assms(2) by (rule order.trans) simp
  have "\<not> isDisabled p" "\<not> alwaysIllegal p"
    using assms(2) by (auto simp: isDisabled_def alwaysIllegal_def Let_def)
  moreover have "opfunc c (pop_value p) p vm = Inr (vm\<lparr>dstack := PushByteArray (pop_data p) (dstack vm)\<rparr>)"
  proof (cases "pop_value p = OP_0")
    case True
    then have "pop_data p = []" using assms(1) by (simp add: instr_ok_def data_fits_def opcodeLength_def)
    then show ?thesis using True v by (simp add: opfunc_def opfunc_push_def opcodeFalse_def on_dstack_def)
  next
    case False
    then show ?thesis
      using v assms(2) by (simp add: opfunc_def opfunc_push_def opcodePushData_def on_dstack_def)
  qed
  ultimately show ?thesis
    using assms(3-5) v by (simp add: executeOpcode_def small_op_def not_less [symmetric])
qed

lemma Step_push:
  assumes "scriptIdx vm < length (scripts vm)" "scriptOff vm < length (cur_script vm)" "pc_op vm = p"
    "instr_ok p" "pop_value p \<le> OP_PUSHDATA4" "small_op p" "isBranchExecuting vm" "\<not> verifyMinimalData (dstack vm)"
    "length (stk (dstack vm)) + length (stk (astack vm)) < 1000"
  shows "Step c vm = (let v = vm\<lparr>scriptOff := scriptOff vm + 1, dstack := PushByteArray (pop_data p) (dstack vm)\<rparr> in
    if scriptOff vm + 1 \<ge> length (cur_script vm) then next_script c v else Inr (False, v))"
proof -
  let ?v = "vm\<lparr>scriptOff := scriptOff vm + 1\<rparr>"
  have pc: "validPC vm = Inr ()" using assms(1,2) by (simp add: validPC_def)
  have "isBranchExecuting ?v" "\<not> verifyMinimalData (dstack ?v)"
    using assms(7,8) by (simp_all add: isBranchExecuting_def)
  note e = executeOpcode_push [OF assms(4-6) this, of c]
  have "i32 (Depth (PushByteArray (pop_data p) (dstack vm)) + Depth (astack vm)) \<le> 1000"
    using assms(9) by (simp add: Depth_def i32_id PushByteArray_def)
  then show ?thesis
    unfolding Step_def Let_def pc rbind_Inr assms(3) e by simp
qed

section \<open>Properties\<close>

text \<open>
  An example: an input that spends a script pushing the byte 1, and hash functions of the right
  lengths.
\<close>

definition example_crypto :: "(unit, bytes) crypto" where
  "example_crypto = unit_crypto\<lparr>sha256 := \<lambda>b. replicate 32 (of_nat (length b)), sha1 := \<lambda>_. replicate 20 0, ripemd160 := \<lambda>_. replicate 20 0\<rparr>"

lemma example_hash_env [simp]: "hash_env example_crypto"
  by (simp add: hash_env_def example_crypto_def unit_crypto_def)

definition push1 :: parsedOpcode where
  "push1 = \<lparr>pop_opcode = opcodeArray 1, pop_data = [1]\<rparr>"

definition push_engine :: Engine where
  "push_engine = (case NewEngine [1, 1] (spend_tx 3) 0 0 None None 9 of Inr vm \<Rightarrow> vm)"

definition push_final :: Engine where
  "push_final = push_engine\<lparr>dstack := \<lparr>stk = [[1]], verifyMinimalData = False\<rparr>,
     astack := \<lparr>stk = [], verifyMinimalData = False\<rparr>, numOps := 0, scriptOff := 0, scriptIdx := 1, lastCodeSep := 0\<rparr>"

lemma parse_push1: "parseScript [1, 1] = ([push1], None)"
  by (simp add: parseScript_ref parse1_def opcodeLength_def push1_def)

lemma push1_ok: "instr_ok push1" "pop_value push1 \<le> OP_PUSHDATA4" "small_op push1" "pop_data push1 = [1]"
  by (simp_all add: push1_def instr_ok_def from_table_def data_fits_def opcodeLength_def small_op_def)

lemma push_engine: "NewEngine [1, 1] (spend_tx 3) 0 0 None None 9 = Inr push_engine"
  unfolding push_engine_def NewEngine_def parse_push1
  by (simp add: isWitnessProgram_def Let_def) (simp add: spend_tx_def)

lemma push_engine_fields: "scripts push_engine = [[push1]]" "scriptIdx push_engine = 0" "scriptOff push_engine = 0"
  "dstack push_engine = \<lparr>stk = [], verifyMinimalData = False\<rparr>" "astack push_engine = \<lparr>stk = [], verifyMinimalData = False\<rparr>"
  "condStack push_engine = []" "numOps push_engine = 0" "lastCodeSep push_engine = 0" "witnessProgram push_engine = None"
  unfolding push_engine_def NewEngine_def parse_push1 by (simp_all add: isWitnessProgram_def spend_tx_def Let_def)

lemma push_step: "Step example_crypto push_engine = Inr (True, push_final)"
proof -
  have "isBranchExecuting push_engine" by (simp add: push_engine_fields isBranchExecuting_def)
  then show ?thesis
    using Step_push [of push_engine push1 example_crypto] push1_ok push_engine_fields
    by (simp add: push_final_def next_script_def Let_def drop_all_eq Depth_def i32_id PushByteArray_def)
qed

lemma push_runs: "runs example_crypto push_engine push_final"
  by (rule runs.step [OF runs.start push_step])

text \<open>C6. Checking an input always ends: for every output script, transaction, index, flags, caches and
  amount that \<^verbatim>\<open>NewEngine\<close> accepts, \<^verbatim>\<open>Execute\<close> returns a verdict. Assumed of the environment: the
  hash functions return digests of their lengths.\<close>

theorem Execute_returns:
  assumes "hash_env c" "NewEngine pkScript tx idx fl sigCache hashCache amt = Inr vm"
  shows "\<exists>r. Execute c vm = Some r"
  by (rule Execute_total [OF assms(1) NewEngine_inv [OF assms(2)]])

theorem Execute_returns_witness:
  "NewEngine [1, 1] (spend_tx 3) 0 0 None None 9 = Inr push_engine \<and> (\<exists>r. Execute example_crypto push_engine = Some r)"
  using Execute_returns [OF example_hash_env push_engine] push_engine by blast

text \<open>C7. The limits hold in every state of a run: at most 1000 items on the two stacks together, no
  item longer than 520 bytes, at most 201 counted operations; and code runs exactly when all the
  conditions that enclose it are true.\<close>

theorem run_limits:
  assumes "hash_env c" "NewEngine pkScript tx idx fl sigCache hashCache amt = Inr vm0" "runs c vm0 vm"
  shows "length (stk (dstack vm)) + length (stk (astack vm)) \<le> 1000 \<and>
    (\<forall>x \<in> set (stk (dstack vm)) \<union> set (stk (astack vm)). length x \<le> MaxScriptElementSize) \<and>
    numOps vm \<le> MaxOpsPerScript \<and> (isBranchExecuting vm \<longleftrightarrow> (\<forall>v \<in> set (condStack vm). v = OpCondTrue))"
proof -
  have i: "vm_inv vm" by (rule runs_inv [OF assms(3,1) NewEngine_inv [OF assms(2)]])
  then have "isBranchExecuting vm \<longleftrightarrow> (\<forall>v \<in> set (condStack vm). v = OpCondTrue)"
    using cond_wf_true [of "rev (condStack vm)"] by (auto simp: vm_inv_def isBranchExecuting_def hd_rev)
  then show ?thesis using i by (auto simp: vm_inv_def stacks_ok_def)
qed

theorem run_limits_witness:
  "runs example_crypto push_engine push_final \<and>
     length (stk (dstack push_final)) + length (stk (astack push_final)) \<le> 1000 \<and>
     list_all (\<lambda>x. length x \<le> MaxScriptElementSize) (stk (dstack push_final) @ stk (astack push_final)) \<and>
     numOps push_final \<le> MaxOpsPerScript \<and> isBranchExecuting push_final = list_all (\<lambda>v. v = OpCondTrue) (condStack push_final)"
  using run_limits [OF example_hash_env push_engine push_runs] push_runs by (auto simp: list_all_iff)

section \<open>A script that crashes the check\<close>

text \<open>A nine byte push that looks like a signature, a one byte public key and \<^verbatim>\<open>OP_CHECKSIG\<close>.\<close>

definition crash_sig :: bytes where
  "crash_sig = [0x30, 6, 2, 3, 0, 0, 0, 0, 1]"

definition crash_script :: bytes where
  "crash_script = 9 # crash_sig @ [1, 2, OP_CHECKSIG]"

definition crash_ops :: "parsedOpcode list" where
  "crash_ops = [\<lparr>pop_opcode = opcodeArray 9, pop_data = crash_sig\<rparr>, \<lparr>pop_opcode = opcodeArray 1, pop_data = [2]\<rparr>,
     \<lparr>pop_opcode = opcodeArray OP_CHECKSIG, pop_data = []\<rparr>]"

lemma parse_crash: "parseScript crash_script = (crash_ops, None)"
  by (simp add: parseScript_ref parse1_def opcodeLength_def crash_script_def crash_sig_def crash_ops_def)

lemma crash_ops_nth:
  "crash_ops ! 0 = \<lparr>pop_opcode = opcodeArray 9, pop_data = crash_sig\<rparr>"
  "crash_ops ! Suc 0 = \<lparr>pop_opcode = opcodeArray 1, pop_data = [2]\<rparr>"
  "crash_ops ! 2 = \<lparr>pop_opcode = opcodeArray OP_CHECKSIG, pop_data = []\<rparr>" "length crash_ops = 3"
  by (simp_all add: crash_ops_def)

lemma crash_steps:
  assumes "NewEngine crash_script tx idx fl sc hc amt = Inr vm"
  obtains v1 v2 where "Step c vm = Inr (False, v1)" "Step c v1 = Inr (False, v2)" "Step c v2 = Inl GoPanic"
  using assms
proof (cases rule: NewEngine_cases)
  case (1 ps)
  then have ps: "ps = crash_ops" using parse_crash by simp
  define v1 where "v1 = vm\<lparr>scriptOff := 1, dstack := (dstack vm)\<lparr>stk := [crash_sig]\<rparr>\<rparr>"
  define v2 where "v2 = vm\<lparr>scriptOff := 2, dstack := (dstack vm)\<lparr>stk := [crash_sig, [2]]\<rparr>\<rparr>"
  define v3 where "v3 = vm\<lparr>scriptOff := 3, dstack := (dstack vm)\<lparr>stk := [crash_sig, [2]]\<rparr>, numOps := 1\<rparr>"
  have ok: "instr_ok (crash_ops ! 0)" "instr_ok (crash_ops ! 1)" "small_op (crash_ops ! 0)" "small_op (crash_ops ! 1)"
    by (simp_all add: crash_ops_def crash_sig_def instr_ok_def from_table_def data_fits_def opcodeLength_def small_op_def)
  have s1: "Step c vm = Inr (False, v1)"
    using 1 ps ok Step_push [of vm "crash_ops ! 0" c]
    by (simp add: v1_def isBranchExecuting_def crash_ops_nth PushByteArray_def Let_def)
  have le: "(1 :: byte) \<le> OP_PUSHDATA4" by (simp add: word_le_nat_alt)
  have s2: "Step c v1 = Inr (False, v2)"
    using 1 ps ok le Step_push [of v1 "crash_ops ! 1" c]
    by (simp add: v1_def v2_def isBranchExecuting_def crash_ops_nth PushByteArray_def Let_def numeral_2_eq_2)
  have pops: "PopByteArray (s\<lparr>stk := [crash_sig, [2]]\<rparr>) = Inr ([2], s\<lparr>stk := [crash_sig]\<rparr>)"
    "PopByteArray (s\<lparr>stk := [crash_sig]\<rparr>) = Inr (crash_sig, s\<lparr>stk := []\<rparr>)" for s
    using Pop_snoc [of "s\<lparr>stk := [crash_sig, [2]]\<rparr>" "[crash_sig]" "[2]"] Pop_snoc [of "s\<lparr>stk := [crash_sig]\<rparr>" "[]" crash_sig]
    by simp_all
  have "opcodeCheckSig c (crash_ops ! 2) v3 = Inl GoPanic"
    by (simp add: opcodeCheckSig_def v3_def pops Let_def)
      (simp add: crash_sig_def checkHashTypeEncoding_def checkSignatureEncoding_def)
  moreover have "opfunc c OP_CHECKSIG = opcodeCheckSig c" by (rule opfunc_sig)
  moreover have "v2\<lparr>scriptOff := 3, numOps := 1\<rparr> = v3" by (simp add: v2_def v3_def)
  moreover have "condStack v3 = []" "numOps v3 = 1" using 1 by (simp_all add: v3_def)
  ultimately have "executeOpcode c (crash_ops ! 2) (v2\<lparr>scriptOff := 3\<rparr>) = Inl GoPanic"
    using 1 by (simp add: executeOpcode_def crash_ops_nth isDisabled_def alwaysIllegal_def isBranchExecuting_def v2_def)
  then have "Step c v2 = Inl GoPanic"
    using 1 ps by (simp add: Step_def validPC_def v2_def crash_ops_nth)
  then show thesis using that s1 s2 by blast
qed

text \<open>C10. What can crash a script check. A step of a run panics only at one of the four signature
  opcodes, in an executed branch, with an item on the stack that starts like a DER signature of its
  own length and announces an R so long that the marker of S would be the byte after the last.\<close>

theorem run_panics:
  assumes "hash_env c" "NewEngine pkScript tx idx fl sigCache hashCache amt = Inr vm0" "runs c vm0 vm"
    "Step c vm = Inl GoPanic"
  shows "isBranchExecuting vm \<and>
    pop_value (pc_op vm) \<in> {OP_CHECKSIG, OP_CHECKSIGVERIFY, OP_CHECKMULTISIG, OP_CHECKMULTISIGVERIFY} \<and>
    (\<exists>sg \<in> set (stk (dstack vm)). 9 \<le> length sg \<and> length sg \<le> 73 \<and> sg ! 0 = 0x30 \<and>
      unat (sg ! 1) = length sg - 3 \<and> unat (sg ! 3) + 6 = length sg)"
proof -
  have "vm_inv vm" by (rule runs_inv [OF assms(3,1) NewEngine_inv [OF assms(2)]])
  from Step_panics [OF assms(1) this] have p: "isBranchExecuting vm" "pop_value (pc_op vm) \<in> sig_opcodes" "holds_bad_sig c vm"
    using assms(4) by (simp_all add: panics_if_def)
  obtain sg where sg: "sg \<in> set (stk (dstack vm))" "sg \<noteq> []" "checkSignatureEncoding c (butlast sg) = Inl GoPanic"
    using p(3) by (auto simp: bad_sig_def)
  have b: "8 \<le> length sg - 1" "length sg - 1 \<le> 72" "butlast sg ! 0 = 0x30" "unat (butlast sg ! 1) = length sg - 1 - 2"
    "unat (butlast sg ! 3) + 5 = length sg - 1"
    using sg(3) unfolding checkSignatureEncoding_panic_iff by simp_all
  have nth: "butlast sg ! k = sg ! k" if "k < 8" for k using that b(1) by (simp add: nth_butlast)
  have "9 \<le> length sg" "length sg \<le> 73" "unat (sg ! 1) = length sg - 3" "unat (sg ! 3) + 6 = length sg"
    using b nth [of 1] nth [of 3] by simp_all
  moreover have "sg ! 0 = 0x30" using b(3) nth [of 0] by simp
  ultimately show ?thesis using p(1,2) sg(1) unfolding sig_opcodes_def by blast
qed

theorem run_panics_witness:
  "\<exists>vm0 vm. NewEngine crash_script (spend_tx 3) 0 0 None None 9 = Inr vm0 \<and> runs example_crypto vm0 vm \<and>
     Step example_crypto vm = Inl GoPanic \<and> isBranchExecuting vm \<and>
     pop_value (pc_op vm) \<in> {OP_CHECKSIG, OP_CHECKSIGVERIFY, OP_CHECKMULTISIG, OP_CHECKMULTISIGVERIFY}"
proof -
  have "\<exists>vm0. NewEngine crash_script (spend_tx 3) 0 0 None None 9 = Inr vm0"
    unfolding NewEngine_def parse_crash
    by (simp add: crash_script_def crash_sig_def crash_ops_def isWitnessProgram_def Let_def) (simp add: spend_tx_def)
  then obtain vm0 where n: "NewEngine crash_script (spend_tx 3) 0 0 None None 9 = Inr vm0" by blast
  obtain v1 v2 where s: "Step example_crypto vm0 = Inr (False, v1)" "Step example_crypto v1 = Inr (False, v2)"
    "Step example_crypto v2 = Inl GoPanic" by (rule crash_steps [OF n])
  have r: "runs example_crypto vm0 v2" by (rule runs.step [OF runs.step [OF runs.start s(1)] s(2)])
  show ?thesis using run_panics [OF example_hash_env n r s(3)] n r s(3) by blast
qed

text \<open>C11. The crash is within reach of anyone who can have a transaction checked: with the output script
  above every check of an input that spends it panics, for any transaction, keys and signatures.\<close>

theorem script_crash:
  assumes "NewEngine crash_script tx idx fl sigCache hashCache amt = Inr vm"
  shows "Execute c vm = Some (Inl GoPanic)"
proof -
  obtain v1 v2 where "Step c vm = Inr (False, v1)" "Step c v1 = Inr (False, v2)" "Step c v2 = Inl GoPanic"
    by (rule crash_steps [OF assms])
  then show ?thesis by (simp add: Execute.simps [of c vm] Execute.simps [of c v1] Execute.simps [of c v2])
qed

theorem script_crash_witness:
  "\<exists>vm. NewEngine crash_script (spend_tx 3) 0 0 None None 9 = Inr vm \<and> Execute example_crypto vm = Some (Inl GoPanic)"
proof -
  have "\<exists>vm. NewEngine crash_script (spend_tx 3) 0 0 None None 9 = Inr vm"
    unfolding NewEngine_def parse_crash
    by (simp add: crash_script_def crash_sig_def crash_ops_def isWitnessProgram_def Let_def) (simp add: spend_tx_def)
  then show ?thesis using script_crash by blast
qed

end
