(* ===== verification/Engine_Verdicts.thy ===== *)
theory Engine_Verdicts
  imports Engine_Props
begin

text \<open>
  What the verdict of a script check means for the output classes of the chain: what a success says
  of scripts and witness, the relative lock of staking and binding outputs, and the classes no input
  can ever spend.
\<close>

declare parseScript_ref [code]
declare Execute.simps [code]

section \<open>Scripts of pushes\<close>

definition push_op :: "parsedOpcode \<Rightarrow> bool" where
  "push_op p \<longleftrightarrow> instr_ok p \<and> pop_value p \<le> OP_PUSHDATA4 \<and> small_op p"

definition after_push :: "Engine \<Rightarrow> nat \<Rightarrow> Engine" where
  "after_push vm n = vm\<lparr>scriptOff := scriptOff vm + n,
     dstack := (dstack vm)\<lparr>stk := stk (dstack vm) @ map pop_data (take n (drop (scriptOff vm) (cur_script vm)))\<rparr>\<rparr>"

lemma after_push_0: "after_push vm 0 = vm"
  by (simp add: after_push_def)

lemma after_push_Suc:
  assumes "scriptOff vm + n < length (cur_script vm)"
  shows "after_push vm (Suc n) = (after_push vm n)\<lparr>scriptOff := scriptOff vm + n + 1,
    dstack := PushByteArray (pop_data (cur_script vm ! (scriptOff vm + n))) (dstack (after_push vm n))\<rparr>"
  using assms by (simp add: after_push_def PushByteArray_def take_Suc_conv_app_nth)

lemma push_run:
  assumes "scriptIdx vm < length (scripts vm)" "list_all push_op (cur_script vm)" "isBranchExecuting vm"
    "\<not> verifyMinimalData (dstack vm)" "length (stk (dstack vm)) + length (stk (astack vm)) + length (cur_script vm) \<le> 1000"
    "scriptOff vm + n < length (cur_script vm)"
  shows "Execute c vm = Execute c (after_push vm n) \<and>
    Step c (after_push vm n) = (if scriptOff vm + n + 1 = length (cur_script vm) then next_script c (after_push vm (Suc n))
      else Inr (False, after_push vm (Suc n)))"
  using assms(6)
proof (induction n)
  case (0)
  have "push_op (cur_script vm ! scriptOff vm)" using assms(2) 0 by (simp add: list_all_length)
  then show ?case
    using assms 0 Step_push [of vm "cur_script vm ! scriptOff vm" c] after_push_Suc [OF 0]
    by (auto simp: after_push_0 push_op_def Let_def)
next
  case (Suc n)
  define v where "v = after_push vm (Suc n)"
  have IH: "Execute c vm = Execute c (after_push vm n)" "Step c (after_push vm n) = Inr (False, v)"
    using Suc by (simp_all add: v_def)
  then have e: "Execute c vm = Execute c v" by (simp add: Execute.simps [of c "after_push vm n"])
  have f: "scripts v = scripts vm" "scriptIdx v = scriptIdx vm" "scriptOff v = scriptOff vm + Suc n" "condStack v = condStack vm"
    "astack v = astack vm" "verifyMinimalData (dstack v) = verifyMinimalData (dstack vm)"
    "length (stk (dstack v)) = length (stk (dstack vm)) + Suc n"
    using Suc(2) by (simp_all add: v_def after_push_def)
  have "push_op (cur_script vm ! (scriptOff vm + Suc n))" using assms(2) Suc(2) by (simp add: list_all_length)
  moreover have "isBranchExecuting v" using assms(3) f(4) by (simp add: isBranchExecuting_def)
  ultimately have "Step c v = (if scriptOff vm + Suc n + 1 = length (cur_script vm) then next_script c (after_push vm (Suc (Suc n)))
      else Inr (False, after_push vm (Suc (Suc n))))"
    using assms Suc(2) Step_push [of v "cur_script vm ! (scriptOff vm + Suc n)" c] after_push_Suc [OF Suc(2)] f
    by (auto simp: push_op_def Let_def v_def [symmetric])
  then show ?case using e by (simp add: v_def)
qed

text \<open>Running a script of pushes to its end.\<close>

lemma push_script:
  assumes "scriptIdx vm < length (scripts vm)" "list_all push_op (cur_script vm)" "condStack vm = []" "scriptOff vm = 0"
    "\<not> verifyMinimalData (dstack vm)" "length (stk (dstack vm)) + length (stk (astack vm)) + length (cur_script vm) \<le> 1000"
    "cur_script vm \<noteq> []"
  shows "Execute c vm = (case next_script c (after_push vm (length (cur_script vm))) of
    Inl e \<Rightarrow> Some (Inl e) | Inr r \<Rightarrow> if fst r then Some (CheckErrorCondition True (snd r)) else Execute c (snd r))"
proof -
  define n where "n = length (cur_script vm) - 1"
  have n: "Suc n = length (cur_script vm)" using assms(7) by (simp add: n_def)
  have "isBranchExecuting vm" using assms(3) by (simp add: isBranchExecuting_def)
  with assms n have "Execute c vm = Execute c (after_push vm n) \<and> Step c (after_push vm n) = next_script c (after_push vm (Suc n))"
    using push_run [of vm n c] by simp
  then show ?thesis using n by (simp add: Execute.simps [of c "after_push vm n"])
qed

lemma push_op_data:
  assumes "instr_ok p" "pop_value p \<in> {OP_0, OP_DATA_2, OP_DATA_4, OP_DATA_8, OP_DATA_20, OP_DATA_32}"
  shows "push_op p" "length (pop_data p) = unat (pop_value p)"
proof -
  have "length (pop_data p) = unat (pop_value p) \<and> pop_value p \<le> OP_PUSHDATA4"
    using assms by (auto simp: instr_ok_def data_fits_def opcodeLength_def word_le_nat_alt)
  then show "push_op p" "length (pop_data p) = unat (pop_value p)"
    using assms by (auto simp: push_op_def small_op_def)
qed

lemma list_3: "length xs = 3 \<Longrightarrow> xs = [xs ! 0, xs ! 1, xs ! 2]"
  by (auto simp: numeral_eq_Suc length_Suc_conv)

lemma list_4: "length xs = 4 \<Longrightarrow> xs = [xs ! 0, xs ! 1, xs ! 2, xs ! 3]"
  by (auto simp: numeral_eq_Suc length_Suc_conv)

text \<open>A script of at least two pushes that is no witness program leaves them all on the stack.\<close>

lemma pushes_not_clean:
  assumes "NewEngine pk tx idx fl sc hc amt = Inr vm" "parseScript pk = (ps, None)" "list_all push_op ps"
    "2 \<le> length ps" "length ps \<le> 1000" "\<not> isWitnessProgram ps"
  shows "Execute c vm = Some (Inl ErrStackCleanStack)"
  using assms(1)
proof (cases rule: NewEngine_cases)
  case (1 qs)
  define v where "v = after_push vm (length ps)"
  have ps: "cur_script vm = ps" "qs = ps" "ps \<noteq> []" using 1 assms(2,4) by auto
  have v: "scripts v = [ps]" "scriptIdx v = 0" "condStack v = []" "witnessProgram v = None" "stk (astack v) = []"
    "length (stk (dstack v)) = length ps"
    using 1 assms(6) ps by (simp_all add: v_def after_push_def)
  have "drop_all (astack v) = astack v" using v(5) by (simp add: drop_all_eq)
  then have "next_script c v = Inr (True, v\<lparr>numOps := 0, scriptOff := 0, scriptIdx := 1, lastCodeSep := 0\<rparr>)"
    using v by (simp add: next_script_def Let_def)
  moreover have "CheckErrorCondition True (v\<lparr>numOps := 0, scriptOff := 0, scriptIdx := 1, lastCodeSep := 0\<rparr>) =
      Inl ErrStackCleanStack"
    using v(1,6) assms(4,5) by (simp add: CheckErrorCondition_def Depth_def i32_id)
  ultimately show ?thesis
    using push_script [of vm c] 1 assms(3,5) ps v_def by simp
qed

lemma extension_pushes:
  assumes "list_all instr_ok ps" "isWitnessPoolingScript ps \<or> isWitnessAwardingScript ps \<or> isWitnessGoverningScript ps"
  shows "list_all push_op ps \<and> \<not> isWitnessProgram ps \<and> 2 \<le> length ps \<and> length ps \<le> 1000"
proof -
  have push: "push_op (ps ! i)" "length (pop_data (ps ! i)) = unat (pop_value (ps ! i))"
    if "i < length ps" "pop_value (ps ! i) \<in> {OP_0, OP_DATA_2, OP_DATA_4, OP_DATA_8, OP_DATA_20, OP_DATA_32}" for i
    using push_op_data [of "ps ! i"] that assms(1) by (auto simp: list_all_length)
  have "length ps = 3 \<or> length ps = 4" using assms(2)
    by (auto simp: isWitnessPoolingScript_def isWitnessAwardingScript_def isWitnessGoverningScript_def)
  then show ?thesis
  proof
    assume l: "length ps = 3"
    then have v: "pop_value (ps ! 0) = OP_0" "pop_value (ps ! 1) = OP_DATA_32" "pop_value (ps ! 2) = OP_DATA_2"
      using assms(2) by (auto simp: isWitnessPoolingScript_def isWitnessAwardingScript_def isWitnessGoverningScript_def)
    have "list_all push_op ps" by (subst list_3 [OF l]) (use push l v in simp)
    moreover have "length (pop_data (ps ! 2)) = 2" using push(2) [of 2] l v by simp
    ultimately show ?thesis using l by (simp add: isWitnessProgram_def)
  next
    assume l: "length ps = 4"
    then have v: "pop_value (ps ! 0) = OP_0" "pop_value (ps ! 1) = OP_DATA_32"
      "pop_value (ps ! 2) = OP_DATA_2 \<or> pop_value (ps ! 2) = OP_DATA_4" "pop_value (ps ! 3) = OP_DATA_8"
      using assms(2) by (auto simp: isWitnessPoolingScript_def isWitnessAwardingScript_def isWitnessGoverningScript_def)
    have "list_all push_op ps" by (subst list_4 [OF l]) (use push l v in auto)
    moreover have "length (pop_data (ps ! 2)) = 2 \<or> length (pop_data (ps ! 2)) = 4" using push(2) [of 2] l v by auto
    ultimately show ?thesis using l by (auto simp: isWitnessProgram_def)
  qed
qed

section \<open>Relative locks\<close>

text \<open>The lock script that a staking or binding output puts in front of its witness.\<close>

definition lock_ops :: "bytes \<Rightarrow> parsedOpcode list" where
  "lock_ops buf = [\<lparr>pop_opcode = opcodeArray OP_DATA_8, pop_data = buf\<rparr>,
     \<lparr>pop_opcode = opcodeArray OP_CHECKSEQUENCEVERIFY, pop_data = []\<rparr>, \<lparr>pop_opcode = opcodeArray OP_DROP, pop_data = []\<rparr>]"

lemma lock_pops_eq:
  assumes "length buf = 8"
  shows "lock_pops buf = Inr (lock_ops buf)"
proof -
  have "Script (AddOp OP_DROP (AddOp OP_CHECKSEQUENCEVERIFY (AddData buf NewScriptBuilder))) =
      (8 # buf @ [OP_CHECKSEQUENCEVERIFY, OP_DROP], None)"
    using assms by (simp add: Script_def AddOp_def AddData_def addData_def canonicalDataSize_def NewScriptBuilder_def Let_def)
  moreover have "parseScript (8 # buf @ [OP_CHECKSEQUENCEVERIFY, OP_DROP]) = (lock_ops buf, None)"
    using assms by (simp add: parseScript_ref parse1_def opcodeLength_def lock_ops_def)
  ultimately show ?thesis by (simp add: lock_pops_def)
qed

lemma makeScriptNum_lock:
  assumes "n < 2 ^ 63"
  shows "makeScriptNum (put_le 8 n) False 9 = Inr (int n)"
proof -
  let ?v = "put_le 8 n"
  have len: "length ?v = 8" by simp
  then have ne: "?v \<noteq> []" by (metis length_0_conv zero_neq_numeral)
  have val: "le_val ?v = n" using assms by (simp only: le_val_put_le) simp
  have "256 ^ 7 * unat (last ?v) \<le> n" using le_val_snoc [OF ne] val len by simp
  then have "unat (last ?v) < 128" using assms by simp
  then have "?v ! (length ?v - 1) AND 0x80 = 0" using last_nth [OF ne] by (simp only: and_0x80_eq_0)
  moreover have "sint (le_or 0 0 ?v) = int n"
    using unat_le_or_0 [of ?v] len val assms sint_of_unat [of "le_or 0 0 ?v"] by (simp del: put_le.simps)
  ultimately show ?thesis unfolding makeScriptNum_def using len by (simp only: Let_def rbind_Inr if_False) simp
qed

text \<open>The condition \<^verbatim>\<open>OP_CHECKSEQUENCEVERIFY\<close> imposes on an input.\<close>

definition lock_satisfied :: "u64 \<Rightarrow> u64 \<Rightarrow> bool" where
  "lock_satisfied lock sq \<longleftrightarrow> (let mask = SequenceLockTimeIsSeconds OR SequenceLockTimeMask in
     sq AND SequenceLockTimeDisabled = 0 \<and> lock AND mask \<le> sq AND mask \<and>
     (lock AND mask < SequenceLockTimeIsSeconds \<longleftrightarrow> sq AND mask < SequenceLockTimeIsSeconds))"

lemma verifyLockTime_ok:
  "verifyLockTime t th l = Inr u \<longleftrightarrow> (t < th \<longleftrightarrow> l < th) \<and> l \<le> t"
  by (auto simp: verifyLockTime_def not_less)

lemma small_lock_enabled:
  assumes "n < 2 ^ 63"
  shows "(word_of_int (int n) :: u64) AND SequenceLockTimeDisabled = 0"
proof -
  have "(SequenceLockTimeDisabled :: u64) = 2 ^ 63" by simp
  moreover have "\<not> bit n 63" using assms by (simp add: bit_iff_odd)
  then have "\<not> bit (word_of_int (int n) :: u64) 63" unfolding bit_word_of_int_iff bit_of_nat_iff_bit by simp
  ultimately show ?thesis by (metis and_exp_eq_0_iff_not_bit)
qed

lemma csv_ok:
  assumes "opcodeCheckSequenceVerify op vm = Inr vm'" "stk (dstack vm) = [put_le 8 n]" "n < 2 ^ 63" "\<not> verifyMinimalData (dstack vm)"
    "txIdx vm < length (tx_TxIn (vm_tx vm))"
  shows "lock_satisfied (word_of_int (int n)) (in_Sequence (tx_TxIn (vm_tx vm) ! txIdx vm))"
proof -
  have "PeekByteArray 0 (dstack vm) = Inr (put_le 8 n)"
    using Peek_append [of "dstack vm" "[]" "put_le 8 n" "[]"] assms(2) by simp
  moreover have "cur_TxIn vm = Inr (tx_TxIn (vm_tx vm) ! txIdx vm)" using assms(5) by (simp add: cur_TxIn_def)
  ultimately show ?thesis
    using assms(1,4) makeScriptNum_lock [OF assms(3)] small_lock_enabled [OF assms(3)]
    unfolding opcodeCheckSequenceVerify_def lock_satisfied_def
    by (auto simp: Let_def rbind_eq_Inr verifyLockTime_ok split: if_splits)
qed

text \<open>Executing the lock script from its start checks the lock.\<close>

lemma lock_script_run:
  assumes "Execute c vm = Some (Inr ())" "scriptIdx vm < length (scripts vm)" "cur_script vm = lock_ops (put_le 8 n)" "n < 2 ^ 63"
    "scriptOff vm = 0" "stk (dstack vm) = []" "stk (astack vm) = []" "condStack vm = []" "numOps vm = 0"
    "\<not> verifyMinimalData (dstack vm)" "txIdx vm < length (tx_TxIn (vm_tx vm))"
  shows "lock_satisfied (word_of_int (int n)) (in_Sequence (tx_TxIn (vm_tx vm) ! txIdx vm))"
proof -
  let ?p = "\<lparr>pop_opcode = opcodeArray OP_DATA_8, pop_data = put_le 8 n\<rparr>"
  let ?q = "\<lparr>pop_opcode = opcodeArray OP_CHECKSEQUENCEVERIFY, pop_data = []\<rparr> :: parsedOpcode"
  define v where "v = vm\<lparr>scriptOff := 1, dstack := (dstack vm)\<lparr>stk := [put_le 8 n]\<rparr>\<rparr>"
  define w where "w = v\<lparr>scriptOff := 2, numOps := 1\<rparr>"
  have p: "instr_ok ?p" "small_op ?p"
    by (simp_all add: instr_ok_def from_table_def data_fits_def opcodeLength_def small_op_def del: put_le.simps)
  have "Step c vm = Inr (False, v)"
    using Step_push [of vm ?p c] assms p
    by (simp add: lock_ops_def isBranchExecuting_def PushByteArray_def v_def Let_def del: put_le.simps)
  then have "Execute c v = Some (Inr ())" using assms(1) by (simp add: Execute.simps [of c vm])
  then obtain fin v' where s: "Step c v = Inr (fin, v')" using Execute_unfold [of c v] by auto
  have vf: "scripts v = scripts vm" "scriptIdx v = scriptIdx vm" "scriptOff v = 1" "condStack v = []" "numOps v = 0"
    using assms(8,9) by (simp_all add: v_def)
  have "\<exists>u. executeOpcode c ?q (v\<lparr>scriptOff := 2\<rparr>) = Inr u"
    using s assms(2,3) vf by (auto simp: Step_def Let_def rbind_eq_Inr lock_ops_def numeral_2_eq_2 split: if_splits)
  moreover have "opfunc c OP_CHECKSEQUENCEVERIFY = opcodeCheckSequenceVerify" by (simp add: opfunc_def opfunc_nop_def)
  ultimately obtain u where "opcodeCheckSequenceVerify ?q w = Inr u"
    using vf by (auto simp: executeOpcode_def isDisabled_def alwaysIllegal_def isBranchExecuting_def w_def rbind_eq_Inr
      split: if_splits)
  from csv_ok [OF this _ assms(4)] show ?thesis using assms(10,11) by (simp add: v_def w_def)
qed

lemma locked_output:
  assumes "NewEngine pk tx idx fl sc hc amt = Inr vm" "parseScript pk = (ps, None)" "list_all push_op ps" "length ps = 3"
    "isWitnessProgram ps" "Execute c vm = Some (Inr ())"
  shows "\<exists>ext. ext_scripts vm = Inr ext \<and> (\<forall>n. ext = [lock_ops (put_le 8 n)] \<longrightarrow> n < 2 ^ 63 \<longrightarrow>
    lock_satisfied (word_of_int (int n)) (in_Sequence (tx_TxIn tx ! nat idx)))"
  using assms(1)
proof (cases rule: NewEngine_cases)
  case (1 qs)
  define v where "v = after_push vm 3"
  have ps: "cur_script vm = ps" "qs = ps" "ps \<noteq> []" using 1 assms(2,4) by auto
  have data: "length (pop_data p) \<le> MaxScriptElementSize" if "p \<in> set ps" for p
    using assms(3) that by (auto simp: list_all_iff push_op_def small_op_def)
  have v: "scripts v = [ps]" "scriptIdx v = 0" "condStack v = []" "witnessProgram v \<noteq> None" "ext_scripts v = ext_scripts vm"
    "vm_tx v = tx" "txIdx v = nat idx" "\<not> verifyMinimalData (dstack v)"
    using 1 assms(5) ps by (auto simp: v_def after_push_def intro!: ext_scripts_cong)
  have st: "stacks_ok v" using 1 ps assms(4) data by (auto simp: v_def after_push_def stacks_ok_def)
  have "Execute c vm = (case next_script c v of Inl e \<Rightarrow> Some (Inl e)
      | Inr r \<Rightarrow> if fst r then Some (CheckErrorCondition True (snd r)) else Execute c (snd r))"
    using push_script [of vm c] 1 assms(3,4) ps by (simp add: v_def)
  then obtain fin v' where n: "next_script c v = Inr (fin, v')"
    "if fin then CheckErrorCondition True v' = Inr () else Execute c v' = Some (Inr ())"
    using assms(6) by (auto split: sum.splits if_splits)
  from n(1) st show ?thesis
  proof (cases rule: next_script_cases)
    case (witness w0 w1 ext p0 p1 txIn u)
    have "lock_satisfied (word_of_int (int n)) (in_Sequence (tx_TxIn tx ! nat idx))"
      if e: "ext = [lock_ops (put_le 8 n)]" "n < 2 ^ 63" for n
    proof -
      have u: "scripts u = [ps, lock_ops (put_le 8 n), p0, p1]" "scriptIdx u = 1" using witness(10) v(1) e(1) by simp_all
      then have "v' = u\<lparr>lastCodeSep := 0\<rparr>" using witness(12) by (simp add: lock_ops_def)
      then have v': "scripts v' = [ps, lock_ops (put_le 8 n), p0, p1]" "scriptIdx v' = 1" "scriptOff v' = 0"
        "stk (dstack v') = []" "stk (astack v') = []" "condStack v' = []" "numOps v' = 0" "\<not> verifyMinimalData (dstack v')"
        "vm_tx v' = tx" "txIdx v' = nat idx"
        using u witness(10) v by simp_all
      then have "Execute c v' = Some (Inr ())" using n(2) witness(13) by simp
      from lock_script_run [OF this _ _ e(2)] show ?thesis using v' 1(3) by simp
    qed
    then show ?thesis using witness(9) v(5) by simp
  next
    case (other u)
    then show ?thesis using v(2,4) by simp
  qed
qed

lemma frozen_pops_ok:
  assumes "frozen_pops d False = Inr pops"
  obtains lock where "makeScriptNum d False 9 = Inr (int lock - 1)" "0 < lock" "lock < 2 ^ 63" "pops = lock_ops (put_le 8 lock)"
proof -
  obtain z where z: "makeScriptNum d False 9 = Inr z" "0 \<le> z" "0 \<le> i64 (z + 1)"
    "lock_pops (put_le 8 (unat (word_of_int (i64 (z + 1)) :: u64))) = Inr pops"
    using assms by (auto simp: frozen_pops_def rbind_eq_Inr split: if_splits)
  have s: "sint (w :: u64) < 2 ^ 63" for w using sint_less [of w] by simp
  have "\<exists>w :: u64. z = 0 \<or> z = sint w"
    using z(1) by (auto simp: makeScriptNum_def rbind_eq_Inr Let_def split: if_splits)
  then have "z < 2 ^ 63" using s by auto
  then have w: "z + 1 < 2 ^ 63" using z(2,3) i64_min by (cases "z + 1 = 2 ^ 63") auto
  then have i: "i64 (z + 1) = z + 1" using z(2) by (simp add: i64_id)
  have "unat (word_of_int k :: u64) = nat k" if "0 \<le> k" "k < 2 ^ 63" for k :: int
    using that by (simp add: unat_eq_nat_uint uint_word_of_int del: nat_uint_eq)
  then have "unat (word_of_int (z + 1) :: u64) = nat (z + 1)" using w z(2) by (simp only:)
  then have "pops = lock_ops (put_le 8 (nat (z + 1)))" using z(4) i lock_pops_eq by simp
  then show thesis using that [of "nat (z + 1)"] z w by simp
qed

section \<open>Properties\<close>

text \<open>
  Examples: an input with a two element witness, the signature part pushing 1 and the script a
  \<^verbatim>\<open>OP_NOP\<close>, that spends a plain, a staking and an awarding output of that script.
\<close>

definition witness_tx :: MsgTx where
  "witness_tx = (spend_tx 3)\<lparr>tx_TxIn := [\<lparr>in_PreviousOutPoint = \<lparr>prev_Hash = replicate 32 7, prev_Index = 1\<rparr>,
     in_Witness = [[1, 1], [OP_NOP]], in_Sequence = 5\<rparr>]\<rparr>"

definition nop_program :: bytes where
  "nop_program = OP_0 # OP_DATA_32 # replicate 32 1"

definition check_input :: "('pk, 'sg) crypto \<Rightarrow> bytes \<Rightarrow> MsgTx \<Rightarrow> unit res option" where
  "check_input c pk tx = (case NewEngine pk tx 0 0 None None 9 of Inl e \<Rightarrow> Some (Inl e) | Inr vm \<Rightarrow> Execute c vm)"

lemma check_input_ok:
  assumes "check_input c pk tx = Some (Inr ())"
  obtains vm where "NewEngine pk tx 0 0 None None 9 = Inr vm" "Execute c vm = Some (Inr ())"
  using assms by (auto simp: check_input_def split: sum.splits)

lemma nop_accepted: "check_input example_crypto nop_program witness_tx = Some (Inr ())"
  by code_simp

lemma staking_accepted: "check_input example_crypto (nop_program @ OP_DATA_8 # [4, 0, 0, 0, 0, 0, 0, 0]) witness_tx = Some (Inr ())"
  by code_simp

text \<open>C8. What success means. When \<^verbatim>\<open>Execute\<close> accepts an input, the output script is well formed: its
  conditionals are balanced, it has no disabled or illegal opcode even in code that was skipped, no
  push above 520 bytes and at most 201 counted operations. When the output is a witness program, the
  input has exactly two witness elements, the second hashes to the program, and both parse as scripts
  that are well formed in the same sense.\<close>

theorem Execute_success:
  assumes "hash_env c" "NewEngine pkScript tx idx fl sigCache hashCache amt = Inr vm" "Execute c vm = Some (Inr ())"
  shows "\<exists>ps. parseScript pkScript = (ps, None) \<and> legal_script ps \<and>
    (isWitnessProgram ps \<longrightarrow> (\<exists>ver ext w0 w1 p0 p1. extractWitnessProgramInfo ps = Inr (ver, sha256 c w1, ext) \<and>
      in_Witness (tx_TxIn tx ! nat idx) = [w0, w1] \<and> parseScript w0 = (p0, None) \<and> parseScript w1 = (p1, None) \<and>
      legal_script p0 \<and> legal_script p1))"
  using assms(2)
proof (cases rule: NewEngine_cases)
  case (1 ps)
  have i: "vm_inv vm" by (rule NewEngine_inv [OF assms(2)])
  obtain v where v: "runs c vm v" "scriptIdx v \<ge> length (scripts v)"
    using Execute_success_runs [OF assms(1) i assms(3)] by blast
  have leg: "legal_script s" if "s \<in> set (scripts v)" for s
    using runs_inv [OF v(1) assms(1) i] v(2) that by (auto simp: vm_inv_def in_set_conv_nth)
  have "wit_inv c ps vm" using 1 by (simp add: wit_inv_def)
  then have w: "wit_inv c ps v" by (rule runs_wit_inv [OF v(1) assms(1) i])
  then have "ps \<in> set (scripts v)" by (auto simp: wit_inv_def split: if_splits)
  then have "legal_script ps" by (rule leg)
  moreover have "\<exists>ver ext w0 w1 p0 p1. extractWitnessProgramInfo ps = Inr (ver, sha256 c w1, ext) \<and>
      in_Witness (tx_TxIn tx ! nat idx) = [w0, w1] \<and> parseScript w0 = (p0, None) \<and> parseScript w1 = (p1, None) \<and>
      legal_script p0 \<and> legal_script p1" if wp: "isWitnessProgram ps"
  proof -
    obtain ver prog ext where e: "extractWitnessProgramInfo ps = Inr (ver, prog, ext)" "witnessProgram vm = Some prog"
      using 1(17) [OF wp] by blast
    note s = runs_same [OF v(1) assms(1) i]
    have "scriptIdx v \<noteq> 0" using v(2) w by (auto simp: wit_inv_def split: if_splits)
    then obtain w0 w1 es p0 p1 where "witness_of v = [w0, w1]" "prog = sha256 c w1" "parseScript w0 = (p0, None)"
      "parseScript w1 = (p1, None)" "scripts v = ps # es @ [p0, p1]"
      using w s e(2) by (auto simp: wit_inv_def)
    then show ?thesis using e(1) leg s 1 by (auto simp: witness_of_def)
  qed
  ultimately show ?thesis using 1(1) by blast
qed

theorem Execute_success_witness:
  "\<exists>vm. NewEngine nop_program witness_tx 0 0 None None 9 = Inr vm \<and> Execute example_crypto vm = Some (Inr ()) \<and>
     (\<exists>ps. parseScript nop_program = (ps, None) \<and> legal_script ps)"
proof -
  obtain vm where "NewEngine nop_program witness_tx 0 0 None None 9 = Inr vm" "Execute example_crypto vm = Some (Inr ())"
    using nop_accepted by (rule check_input_ok)
  then show ?thesis using Execute_success [OF example_hash_env] by blast
qed

text \<open>An accepted spend of a staking or binding output runs the lock script of the extension.\<close>

lemma locked_program:
  assumes "NewEngine pkScript tx idx fl sigCache hashCache amt = Inr vm" "Execute c vm = Some (Inr ())"
    "parseScript pkScript = (ps, None)" "isWitnessStakingScript ps \<or> isWitnessBindingScript ps"
  obtains ext where "ext_scripts vm = Inr ext" "witnessExtProg vm = [ps ! 2]" "\<not> verifyMinimalData (dstack vm)"
    "length (pop_data (ps ! 2)) = (if isWitnessStakingScript ps then 8 else 20)"
    "\<And>n. ext = [lock_ops (put_le 8 n)] \<Longrightarrow> n < 2 ^ 63 \<Longrightarrow>
      lock_satisfied (word_of_int (int n)) (in_Sequence (tx_TxIn tx ! nat idx))"
proof -
  have ins: "list_all instr_ok ps" by (rule parse_instr_ok [OF assms(3)])
  have l: "length ps = 3" and v: "pop_value (ps ! 0) = OP_0" "pop_value (ps ! 1) = OP_DATA_32"
    "pop_value (ps ! 2) = (if isWitnessStakingScript ps then OP_DATA_8 else OP_DATA_20)"
    using assms(4) by (auto simp: isWitnessStakingScript_def isWitnessBindingScript_def)
  have i: "instr_ok (ps ! 0)" "instr_ok (ps ! 1)" "instr_ok (ps ! 2)" using ins l by (simp_all add: list_all_length)
  have "push_op (ps ! 0)" "push_op (ps ! 1)" "push_op (ps ! 2)"
    using push_op_data(1) [OF i(1)] push_op_data(1) [OF i(2)] push_op_data(1) [OF i(3)] v by (simp_all split: if_splits)
  then have pp: "list_all push_op ps" by (subst list_3 [OF l]) simp
  have d: "length (pop_data (ps ! 1)) = 32" "length (pop_data (ps ! 2)) = (if isWitnessStakingScript ps then 8 else 20)"
    using push_op_data(2) [OF i(2)] push_op_data(2) [OF i(3)] v by (simp_all split: if_splits)
  from d have wp: "isWitnessProgram ps"
    using l v by (simp add: isWitnessProgram_def isSmallInt_def canonicalPush_def split: if_splits)
  obtain ext where e: "ext_scripts vm = Inr ext" and lock: "\<And>n. ext = [lock_ops (put_le 8 n)] \<Longrightarrow> n < 2 ^ 63 \<Longrightarrow>
      lock_satisfied (word_of_int (int n)) (in_Sequence (tx_TxIn tx ! nat idx))"
    using locked_output [OF assms(1,3) pp l wp assms(2)] by blast
  have x: "witnessExtProg vm = [ps ! 2] \<and> \<not> verifyMinimalData (dstack vm)"
    using assms(1)
  proof (cases rule: NewEngine_cases)
    case (1 qs)
    have "drop 2 ps = [ps ! 2]" using l by (subst list_3 [OF l]) (simp add: numeral_2_eq_2)
    then show ?thesis
      using 1 assms(3) wp by (auto simp: extractWitnessProgramInfo_def)
  qed
  from that [OF e _ _ d(2) lock] x show thesis by blast
qed

lemma staking_lock:
  assumes "NewEngine pkScript tx idx fl sigCache hashCache amt = Inr vm" "Execute c vm = Some (Inr ())"
    "parseScript pkScript = (ps, None)" "isWitnessStakingScript ps"
  shows "\<exists>n. makeScriptNum (pop_data (ps ! 2)) False 9 = Inr (int n - 1) \<and> 0 < n \<and> n < 2 ^ 63 \<and>
    lock_satisfied (word_of_int (int n)) (in_Sequence (tx_TxIn tx ! nat idx))"
proof (rule locked_program [OF assms(1-3)])
  fix ext
  assume x: "ext_scripts vm = Inr ext" "witnessExtProg vm = [ps ! 2]" "\<not> verifyMinimalData (dstack vm)"
    "length (pop_data (ps ! 2)) = (if isWitnessStakingScript ps then 8 else 20)"
    and lock: "\<And>n. ext = [lock_ops (put_le 8 n)] \<Longrightarrow> n < 2 ^ 63 \<Longrightarrow> lock_satisfied (word_of_int (int n)) (in_Sequence (tx_TxIn tx ! nat idx))"
  obtain pops where p: "frozen_pops (pop_data (ps ! 2)) False = Inr pops" "ext = [pops]"
    using x assms(4) by (auto simp: ext_scripts_def rbind_eq_Inr)
  from p(1) obtain n where "makeScriptNum (pop_data (ps ! 2)) False 9 = Inr (int n - 1)" "0 < n" "n < 2 ^ 63"
    "pops = lock_ops (put_le 8 n)" by (rule frozen_pops_ok)
  then show ?thesis using lock [of n] p(2) by blast
qed (use assms(4) in simp)

lemma binding_lock:
  assumes "NewEngine pkScript tx idx fl sigCache hashCache amt = Inr vm" "Execute c vm = Some (Inr ())"
    "parseScript pkScript = (ps, None)" "isWitnessBindingScript ps"
  shows "lock_satisfied (word_of_int (int BindingTxFrozenPeriod)) (in_Sequence (tx_TxIn tx ! nat idx))"
proof (rule locked_program [OF assms(1-3)])
  fix ext
  assume x: "ext_scripts vm = Inr ext" "witnessExtProg vm = [ps ! 2]" "\<not> verifyMinimalData (dstack vm)"
    "length (pop_data (ps ! 2)) = (if isWitnessStakingScript ps then 8 else 20)"
    and lock: "\<And>n. ext = [lock_ops (put_le 8 n)] \<Longrightarrow> n < 2 ^ 63 \<Longrightarrow> lock_satisfied (word_of_int (int n)) (in_Sequence (tx_TxIn tx ! nat idx))"
  have "\<not> isWitnessStakingScript ps" using assms(4) by (auto simp: isWitnessStakingScript_def isWitnessBindingScript_def)
  then have "ext = [lock_ops (put_le 8 BindingTxFrozenPeriod)]"
    using x lock_pops_eq [of "put_le 8 BindingTxFrozenPeriod"] by (simp add: ext_scripts_def rbind_eq_Inr del: put_le.simps)
  then show ?thesis using lock [of BindingTxFrozenPeriod] by simp
qed (use assms(4) in simp)

text \<open>C9. Locked outputs stay locked. An input that spends a staking output is accepted only if its
  sequence number satisfies the relative lock of the frozen period in the output plus one, and an input
  that spends a binding output only if it satisfies the lock of 172800 blocks; the encoded lock is
  positive and below \<open>2 ^ 63\<close>, so the disable bit of the lock itself can never be set.\<close>

theorem relative_lock:
  assumes "NewEngine pkScript tx idx fl sigCache hashCache amt = Inr vm" "Execute c vm = Some (Inr ())"
    "parseScript pkScript = (ps, None)" "isWitnessStakingScript ps \<or> isWitnessBindingScript ps"
  shows "\<exists>lock. (if isWitnessStakingScript ps then makeScriptNum (pop_data (ps ! 2)) False 9 = Inr (int lock - 1)
      else lock = BindingTxFrozenPeriod) \<and> 0 < lock \<and> lock < 2 ^ 63 \<and>
    lock_satisfied (word_of_int (int lock)) (in_Sequence (tx_TxIn tx ! nat idx))"
proof (cases "isWitnessStakingScript ps")
  case True
  then show ?thesis using staking_lock [OF assms(1-3)] by auto
next
  case False
  then show ?thesis using binding_lock [OF assms(1-3)] assms(4) by (intro exI [of _ BindingTxFrozenPeriod]) simp
qed

theorem relative_lock_witness:
  "\<exists>vm. NewEngine (nop_program @ OP_DATA_8 # [4, 0, 0, 0, 0, 0, 0, 0]) witness_tx 0 0 None None 9 = Inr vm \<and>
     Execute example_crypto vm = Some (Inr ()) \<and>
     (\<exists>lock. lock_satisfied (word_of_int (int lock)) (in_Sequence (tx_TxIn witness_tx ! nat 0)))"
proof -
  let ?pk = "nop_program @ OP_DATA_8 # [4, 0, 0, 0, 0, 0, 0, 0]"
  obtain vm where vm: "NewEngine ?pk witness_tx 0 0 None None 9 = Inr vm" "Execute example_crypto vm = Some (Inr ())"
    using staking_accepted by (rule check_input_ok)
  have "isWitnessStakingScript (fst (parseScript ?pk)) \<and> snd (parseScript ?pk) = None" by code_simp
  then obtain ps where "parseScript ?pk = (ps, None)" "isWitnessStakingScript ps" by (metis prod.collapse)
  then show ?thesis using relative_lock [OF vm(1,2)] vm by blast
qed

text \<open>C12. The script engine refuses every spend of a pooling, awarding or governing output: \<^verbatim>\<open>isWitnessProgram\<close> admits only
  extension data of 8 or 20 bytes, so these scripts, whose first extension has 2 or 4 bytes, run as
  plain scripts that leave three or four items, and \<^verbatim>\<open>Execute\<close>, on any engine \<^verbatim>\<open>NewEngine\<close> makes for such an output, answers
  \<^verbatim>\<open>ErrStackCleanStack\<close> whatever the input provides. The branches of \<^verbatim>\<open>verifyWitnessProgram\<close> for them are dead code. This is about the engine
  only: \<^verbatim>\<open>validateHandler\<close> accepts a pooling output without making an engine (\<open>Script_Validate\<close>).\<close>

theorem engine_rejects_extensions:
  assumes "NewEngine pkScript tx idx fl sigCache hashCache amt = Inr vm" "parseScript pkScript = (ps, None)"
    "isWitnessPoolingScript ps \<or> isWitnessAwardingScript ps \<or> isWitnessGoverningScript ps"
  shows "Execute c vm = Some (Inl ErrStackCleanStack)"
proof -
  have "list_all push_op ps \<and> \<not> isWitnessProgram ps \<and> 2 \<le> length ps \<and> length ps \<le> 1000"
    by (rule extension_pushes [OF parse_instr_ok [OF assms(2)] assms(3)])
  then show ?thesis using pushes_not_clean [OF assms(1,2)] by blast
qed

theorem engine_rejects_extensions_witness:
  "\<exists>vm. NewEngine (nop_program @ [OP_DATA_2, 1, 0]) witness_tx 0 0 None None 9 = Inr vm \<and>
     Execute example_crypto vm = Some (Inl ErrStackCleanStack)"
proof -
  let ?pk = "nop_program @ [OP_DATA_2, 1, 0]"
  have "case NewEngine ?pk witness_tx 0 0 None None 9 of Inr _ \<Rightarrow> True | Inl _ \<Rightarrow> False" by code_simp
  then obtain vm where vm: "NewEngine ?pk witness_tx 0 0 None None 9 = Inr vm" by (auto split: sum.splits)
  have "isWitnessPoolingScript (fst (parseScript ?pk)) \<and> snd (parseScript ?pk) = None" by code_simp
  then obtain ps where "parseScript ?pk = (ps, None)" "isWitnessPoolingScript ps" by (metis prod.collapse)
  then show ?thesis using engine_rejects_extensions [OF vm] vm by blast
qed

end
