(* ===== verification/Engine_Multisig.thy ===== *)
theory Engine_Multisig
  imports Engine_Verdicts "HOL-Library.Sublist"
begin

text \<open>
  The verification loop of \<^verbatim>\<open>OP_CHECKMULTISIG\<close> against its specification: it succeeds exactly when the
  signatures can be matched, in order, with some of the public keys. The loop is greedy and stops
  early; the specification says nothing about the order of the search.
\<close>

section \<open>The specification\<close>

text \<open>A raw signature, with its hash type byte, is valid for a raw public key and the script.\<close>

definition sig_valid :: "('pk, 'sg) crypto \<Rightarrow> Engine \<Rightarrow> parsedOpcode list \<Rightarrow> bytes \<Rightarrow> bytes \<Rightarrow> bool" where
  "sig_valid c vm script raw pk \<longleftrightarrow> raw \<noteq> [] \<and>
     (case (ParseDERSignature c (butlast raw), ParsePubKey c pk,
        calcWitnessSignatureHash (sha256 c) script (sigHashes_of c vm) (ucast (last raw)) (vm_tx vm) (int (txIdx vm)) (inputAmount vm)) of
        (Some sg, Some key, Inr h) \<Rightarrow> sig_Verify c sg h key
      | _ \<Rightarrow> False)"

definition matches :: "('a \<Rightarrow> 'b \<Rightarrow> bool) \<Rightarrow> 'a list \<Rightarrow> 'b list \<Rightarrow> bool" where
  "matches V sgs pks \<longleftrightarrow> (\<exists>ks. subseq ks pks \<and> list_all2 V sgs ks)"

lemma matches_Nil [simp]: "matches V [] pks"
  by (simp add: matches_def)

lemma matches_short: "length pks < length sgs \<Longrightarrow> \<not> matches V sgs pks"
  unfolding matches_def by (auto dest!: list_all2_lengthD list_emb_length)

lemma matches_tail:
  assumes "matches V (s # sgs) pks"
  shows "matches V sgs pks"
proof -
  obtain k ks where k: "subseq (k # ks) pks" "list_all2 V sgs ks"
    using assms by (auto simp: matches_def list_all2_Cons1)
  then have "subseq ks pks" by (meson subseq_Cons')
  then show ?thesis using k(2) by (auto simp: matches_def)
qed

text \<open>The greedy step is complete: if the first signature fits the first key, using that key loses nothing.\<close>

lemma matches_Cons:
  "matches V (s # sgs) (p # pks) \<longleftrightarrow> (if V s p then matches V sgs pks else matches V (s # sgs) pks)"
proof -
  have use: "matches V (s # sgs) (p # pks)" if "V s p" "matches V sgs pks"
    using that unfolding matches_def by (metis list_all2_Cons1 subseq_Cons2)
  have skip: "matches V (s # sgs) (p # pks)" if "matches V (s # sgs) pks"
    using that unfolding matches_def by (metis list_emb_Cons)
  have "(V s p \<and> matches V sgs pks) \<or> matches V (s # sgs) pks" if m: "matches V (s # sgs) (p # pks)"
  proof -
    obtain k ks where k: "subseq (k # ks) (p # pks)" "V s k" "list_all2 V sgs ks"
      using m unfolding matches_def list_all2_Cons1 by blast
    show ?thesis
    proof (cases "k = p")
      case True
      then show ?thesis using k by (auto simp: matches_def)
    next
      case False
      then have "subseq (k # ks) pks" using k(1) by (simp add: subseq_Cons2_neq)
      then show ?thesis using k by (auto simp: matches_def)
    qed
  qed
  then show ?thesis using use skip matches_tail by auto
qed

section \<open>The loop implements it\<close>

definition cache_ok :: "('pk, 'sg) crypto \<Rightarrow> SigCache option \<Rightarrow> bool" where
  "cache_ok c cache \<longleftrightarrow> (case cache of None \<Rightarrow> True | Some s \<Rightarrow> cache_sound c s)"

definition psi_ok :: "('pk, 'sg) crypto \<Rightarrow> 'sg parsedSigInfo \<Rightarrow> bool" where
  "psi_ok c si \<longleftrightarrow> (psi_parsed si \<longrightarrow> psi_parsedSignature si = ParseDERSignature c (butlast (psi_signature si)))"

lemma verifySig_ok:
  assumes "cache_ok c cache" "serialize_faithful c" "length h = HashSize" "verifySig c h sg pk cache = (b, cache')"
  shows "b = sig_Verify c sg h pk \<and> cache_ok c cache'"
proof (cases cache)
  case None
  then show ?thesis using assms(4) by (auto simp: verifySig_def cache_ok_def)
next
  case (Some s)
  then have "cache_sound c s" using assms(1) by (simp add: cache_ok_def)
  from verifySig_sound [OF this assms(2,3), of sg pk] show ?thesis
    using assms(4) Some by (auto simp: cache_ok_def)
qed

lemma sighash_length:
  assumes "hash_env c" "calcWitnessSignatureHash (sha256 c) script sh ht tx i amt = Inr h"
  shows "length h = HashSize"
  using assms by (auto simp: calcWitnessSignatureHash_def Let_def DoubleHashB_def hash_env_def split: if_splits)

lemma multisig_loop_matches:
  assumes "hash_env c" "serialize_faithful c" "cache_ok c cache" "list_all (psi_ok c) sigs"
  shows "yields (\<lambda>(b, cache'). b = matches (\<lambda>si pk. sig_valid c vm script (psi_signature si) pk) sigs pks \<and> cache_ok c cache')
    (multisig_loop c vm script pks sigs cache)"
  using assms(3,4)
proof (induction pks arbitrary: sigs cache)
  case Nil
  then show ?case using matches_short [of "[]" sigs] by (cases sigs) (auto simp: yields_def)
next
  case (Cons pk pks)
  let ?V = "\<lambda>si pk. sig_valid c vm script (psi_signature si) pk"
  show ?case
  proof (cases sigs)
    case Nil
    then show ?thesis using Cons.prems by (simp add: yields_Inr)
  next
    case (Cons si ss)
    let ?P = "\<lambda>(b, cache'). b = matches ?V (si # ss) (pk # pks) \<and> cache_ok c cache'"
    have ok: "psi_ok c si" "list_all (psi_ok c) ss" using Cons.prems(2) Cons by simp_all
    have retry: "yields ?P (multisig_loop c vm script pks (si' # ss) ca)"
      if "cache_ok c ca" "psi_ok c si'" "psi_signature si' = psi_signature si" "\<not> ?V si pk" for si' ca
    proof -
      have "matches ?V (si' # ss) pks = matches ?V (si # ss) pks"
        using that(3) by (simp add: matches_def list_all2_Cons1)
      then show ?thesis using Cons.IH [of ca "si' # ss"] that ok(2) by (simp add: matches_Cons)
    qed
    have hit: "yields ?P (multisig_loop c vm script pks ss ca)" if "cache_ok c ca" "?V si pk" for ca
      using Cons.IH [of ca ss] that ok(2) by (simp add: matches_Cons)
    have short: "\<not> matches ?V (si # ss) (pk # pks)" if "length (pk # pks) < length (si # ss)"
      using matches_short [OF that] .
    have "yields ?P (multisig_loop c vm script (pk # pks) (si # ss) cache)"
    proof (cases "psi_signature si = []")
      case True
      then have "\<not> ?V si pk" by (simp add: sig_valid_def)
      then show ?thesis using True retry [of cache si] Cons.prems(1) ok(1) short by (auto simp: yields_Inr)
    next
      case False
      let ?raw = "psi_signature si" and ?parse = "if \<not> psi_parsed si
          then rbind (checkHashTypeEncoding (ucast (last (psi_signature si)))) (\<lambda>_.
               rbind (checkSignatureEncoding c (butlast (psi_signature si))) (\<lambda>_.
               Inr (si\<lparr>psi_parsed := True, psi_parsedSignature := ParseDERSignature c (butlast (psi_signature si))\<rparr>)))
          else Inr si"
      let ?hash = "calcWitnessSignatureHash (sha256 c) script (sigHashes_of c vm) (ucast (last ?raw)) (vm_tx vm)
          (int (txIdx vm)) (inputAmount vm)"
      have parsed: "psi_signature si' = ?raw \<and> psi_ok c si' \<and> psi_parsedSignature si' = ParseDERSignature c (butlast ?raw)"
        if "?parse = Inr si'" for si'
        using that ok(1) by (auto simp: psi_ok_def rbind_eq_Inr split: if_splits)
      have nokey: "\<not> ?V si pk" if "ParseDERSignature c (butlast ?raw) = None \<or> ParsePubKey c pk = None"
        using that by (auto simp: sig_valid_def split: option.splits)
      have checked: "(b = ?V si pk) \<and> cache_ok c ca"
        if "ParseDERSignature c (butlast ?raw) = Some sg" "ParsePubKey c pk = Some key" "?hash = Inr h"
          "verifySig c h sg key cache = (b, ca)" for sg key h b ca
        using verifySig_ok [OF Cons.prems(1) assms(2) sighash_length [OF assms(1) that(3)] that(4)] that(1-3) False
        by (simp add: sig_valid_def)
      have miss: "yields ?P (multisig_loop c vm script pks (si' # ss) ca)"
        if "?parse = Inr si'" "psi_parsedSignature si' = Some sg" "ParsePubKey c pk = Some key" "?hash = Inr h"
          "verifySig c h sg key cache = (False, ca)" for si' sg key h ca
        using parsed [OF that(1)] checked [of sg key h False ca] that by (intro retry) auto
      have found: "yields ?P (multisig_loop c vm script pks ss ca)"
        if "?parse = Inr si'" "psi_parsedSignature si' = Some sg" "ParsePubKey c pk = Some key" "?hash = Inr h"
          "verifySig c h sg key cache = (True, ca)" for si' sg key h ca
        using parsed [OF that(1)] checked [of sg key h True ca] that by (intro hit) auto
      have skip: "yields ?P (multisig_loop c vm script pks (si' # ss) cache)"
        if "?parse = Inr si'" "psi_parsedSignature si' = None \<or> ParsePubKey c pk = None" for si'
        using parsed [OF that(1)] nokey that Cons.prems(1) by (intro retry) auto
      show ?thesis
        unfolding multisig_loop.simps Let_def
      proof (intro yield_rules, goal_cases)
        case 1
        then show ?case using short Cons.prems(1) by (auto intro!: yields_Inr)
      next
        case 2
        then show ?case using False by simp
      next
        case (3 si')
        then show ?case by (intro skip) auto
      next
        case (4 si' sg u)
        then show ?case by (intro skip) auto
      next
        case (5 si' sg u key h valid ca)
        then show ?case by (intro found) auto
      next
        case (6 si' sg u key h valid ca)
        then show ?case by (intro miss) auto
      qed
    qed
    then show ?thesis using Cons by simp
  qed
qed

section \<open>The opcode\<close>

lemma popN_rev:
  "stk s = xs @ rev ys \<Longrightarrow> sized s \<Longrightarrow> popN (length ys) s = Inr (ys, s\<lparr>stk := xs\<rparr>)"
proof (induction ys arbitrary: s)
  case (Cons y ys)
  then have "PopByteArray s = Inr (y, s\<lparr>stk := xs @ rev ys\<rparr>)" using Pop_snoc [of s "xs @ rev ys" y] by simp
  then show ?case using Cons.IH [of "s\<lparr>stk := xs @ rev ys\<rparr>"] Cons.prems by simp
qed simp

lemma PopInt_snoc:
  assumes "stk s = xs @ [b]" "sized s" "makeScriptNum b (verifyMinimalData s) 4 = Inr v"
  shows "PopInt s = Inr (v, s\<lparr>stk := xs\<rparr>)"
  using Pop_snoc [OF assms(1,2)] assms(3) by (simp add: PopInt_def)

lemma num_Int32_small: "makeScriptNum b m 4 = Inr v \<Longrightarrow> num_Int32 v = v"
  using makeScriptNum_range [of b m 3 v] by (auto simp: num_Int32_def i32_id)

lemma sig_valid_numOps: "sig_valid c (vm\<lparr>numOps := n\<rparr>) script = sig_valid c vm script"
  by (intro ext) (simp add: sig_valid_def sigHashes_of_def cong: option.case_cong)

definition signed_script :: "Engine \<Rightarrow> bytes list \<Rightarrow> parsedOpcode list" where
  "signed_script vm sgs = (let script = drop (lastCodeSep vm) (cur_script vm) in
     if isWitnessVersionActive 0 vm then script else foldl removeOpcodeByData script sgs)"

text \<open>C5. \<^verbatim>\<open>OP_CHECKMULTISIG\<close> means what it says. On a stack that holds, from the top, the number of keys,
  the keys, the number of signatures and the signatures, the opcode, when it does not fail, replaces
  them by one boolean: true exactly when the signatures are valid, in their order, for keys that
  form a subsequence of the keys, for the script from the last code separator on. With a
  signature cache this needs the cache to hold only signatures that verify, an invariant of every cache operation.
  Nothing below the signatures is consumed: the additional dummy argument the comment of the source describes is not taken.\<close>

theorem checkmultisig_correct:
  assumes "hash_env c" "serialize_faithful c" "cache_ok c (vm_sigCache vm)" "sized (dstack vm)"
    "stk (dstack vm) = xs @ rev sgs @ [nsb] @ rev pks @ [nkb]"
    "makeScriptNum nkb (verifyMinimalData (dstack vm)) 4 = Inr (int (length pks))"
    "makeScriptNum nsb (verifyMinimalData (dstack vm)) 4 = Inr (int (length sgs))"
    "opcodeCheckMultiSig c op vm = Inr vm'"
  shows "stk (dstack vm') = xs @ [fromBool (matches (sig_valid c vm (signed_script vm sgs)) sgs pks)]"
proof -
  let ?s = "dstack vm" and ?vm = "vm\<lparr>numOps := numOps vm + length pks\<rparr>"
  have 1: "PopInt ?s = Inr (int (length pks), ?s\<lparr>stk := xs @ rev sgs @ nsb # rev pks\<rparr>)"
    using PopInt_snoc [of ?s "xs @ rev sgs @ nsb # rev pks" nkb] assms(4,5,6) by simp
  have 2: "popN (length pks) (?s\<lparr>stk := xs @ rev sgs @ nsb # rev pks\<rparr>) = Inr (pks, ?s\<lparr>stk := xs @ rev sgs @ [nsb]\<rparr>)"
    using popN_rev [of "?s\<lparr>stk := xs @ rev sgs @ nsb # rev pks\<rparr>" "xs @ rev sgs @ [nsb]" pks] assms(4,5) by simp
  have 3: "PopInt (?s\<lparr>stk := xs @ rev sgs @ [nsb]\<rparr>) = Inr (int (length sgs), ?s\<lparr>stk := xs @ rev sgs\<rparr>)"
    using PopInt_snoc [of "?s\<lparr>stk := xs @ rev sgs @ [nsb]\<rparr>" "xs @ rev sgs" nsb] assms(4,5,7) by simp
  have 4: "popN (length sgs) (?s\<lparr>stk := xs @ rev sgs\<rparr>) = Inr (sgs, ?s\<lparr>stk := xs\<rparr>)"
    using popN_rev [of "?s\<lparr>stk := xs @ rev sgs\<rparr>" xs sgs] assms(4,5) by simp
  note n = num_Int32_small [OF assms(6)] num_Int32_small [OF assms(7)]
  let ?sigs = "map (\<lambda>sg. \<lparr>psi_signature = sg, psi_parsedSignature = None, psi_parsed = False\<rparr> :: 'b parsedSigInfo) sgs"
  have active: "isWitnessVersionActive 0 ?vm = isWitnessVersionActive 0 vm" by (simp add: isWitnessVersionActive_def)
  obtain script b ca where l: "multisig_loop c ?vm script pks ?sigs (vm_sigCache vm) = Inr (b, ca)"
    "script = signed_script vm sgs" "stk (dstack vm') = xs @ [fromBool b]"
    using assms(8) unfolding opcodeCheckMultiSig_def
    by (auto simp: 1 2 3 4 n Let_def rbind_eq_Inr subScript_def signed_script_def active PushBool_def PushByteArray_def
        split: if_splits)
  have "b = matches (\<lambda>si pk. sig_valid c ?vm script (psi_signature si) pk) ?sigs pks"
    using yieldsD [OF multisig_loop_matches [OF assms(1,2,3)] l(1)] by (simp add: psi_ok_def list_all_iff)
  also have "\<dots> = matches (sig_valid c vm script) sgs pks"
    by (simp add: matches_def list_all2_map1 sig_valid_numOps)
  finally show ?thesis using l(2,3) by simp
qed

text \<open>Two signatures for the first and the third of three keys; a signature fits the key that ends in the same byte.\<close>

definition key_crypto :: "(bytes, bytes) crypto" where
  "key_crypto =
     \<lparr>sha256 = \<lambda>b. replicate 32 (of_nat (length b)), sha1 = \<lambda>_. replicate 20 0, ripemd160 = \<lambda>_. replicate 20 0, curveN = 32,
      IsCompressedPubKey = (\<lambda>pk. length pk = 33), ParsePubKey = Some,
      ParseDERSignature = Some, sig_Verify = (\<lambda>sig h pk. last sig = last pk),
      sig_Serialize = id, SerializeCompressed = id,
      rand_Read = (\<lambda>_. Some (replicate 32 0x80)), map_range = validSigs\<rparr>"

definition example_keys :: "bytes list" where
  "example_keys = map (\<lambda>k. 2 # replicate 31 0 @ [k]) [5, 6, 7]"

definition example_sigs :: "bytes list" where
  "example_sigs = map (\<lambda>k. [0x30, 6, 2, 1, 1, 2, 1, k, 1]) [5, 7]"

definition multisig_engine :: Engine where
  "multisig_engine = push_engine\<lparr>dstack := \<lparr>stk = [9] # rev example_sigs @ [[2]] @ rev example_keys @ [[3]], verifyMinimalData = False\<rparr>\<rparr>"

lemma push_engine_cache: "vm_sigCache push_engine = None"
  unfolding push_engine_def NewEngine_def parse_push1 by (simp_all add: isWitnessProgram_def spend_tx_def Let_def)

lemma multisig_engine_run:
  "case opcodeCheckMultiSig key_crypto push1 multisig_engine of Inl e \<Rightarrow> False | Inr vm' \<Rightarrow> stk (dstack vm') = [[9], [1]]"
  by code_simp

theorem checkmultisig_correct_witness:
  "\<exists>vm'. opcodeCheckMultiSig key_crypto push1 multisig_engine = Inr vm' \<and> stk (dstack vm') = [[9], [1]] \<and>
     stk (dstack vm') = [[9], fromBool (matches (sig_valid key_crypto multisig_engine (signed_script multisig_engine example_sigs)) example_sigs example_keys)]"
proof -
  obtain vm' where v: "opcodeCheckMultiSig key_crypto push1 multisig_engine = Inr vm'" "stk (dstack vm') = [[9], [1]]"
    using multisig_engine_run by (auto split: sum.splits)
  have "stk (dstack vm') = [[9]] @ [fromBool (matches (sig_valid key_crypto multisig_engine (signed_script multisig_engine example_sigs)) example_sigs example_keys)]"
  proof (rule checkmultisig_correct [OF _ _ _ _ _ _ _ v(1), where nsb = "[2]" and nkb = "[3]"])
    show "makeScriptNum [3] (verifyMinimalData (dstack multisig_engine)) 4 = Inr (int (length example_keys))"
      "makeScriptNum [2] (verifyMinimalData (dstack multisig_engine)) 4 = Inr (int (length example_sigs))"
      by code_simp+
    show "cache_ok key_crypto (vm_sigCache multisig_engine)"
      by (simp add: multisig_engine_def push_engine_cache cache_ok_def)
    show "sized (dstack multisig_engine)" by (simp add: multisig_engine_def example_keys_def example_sigs_def)
  qed (auto simp: multisig_engine_def hash_env_def serialize_faithful_def key_crypto_def)
  then show ?thesis using v by auto
qed

end
