(* ===== verification/Engine_Cache.thy ===== *)
theory Engine_Cache
  imports Engine_Multisig
begin

text \<open>
  The signature cache of \<^verbatim>\<open>src/txscript/sigcache.go\<close> is shared by the goroutines that validate scripts.
  This theory shows that a run of the engine of \<^verbatim>\<open>src/txscript/engine.go\<close> gives the verdict it gives
  without a cache, as long as the cache only holds signatures that verify. Every handler commutes with
  forgetting the cache and keeps the cache sound; steps and runs inherit this.
\<close>

section \<open>Commuting with the loss of the cache\<close>

definition strip :: "Engine \<Rightarrow> Engine" where
  "strip vm = vm\<lparr>vm_sigCache := None\<rparr>"

text \<open>Two outcomes that are equal once the cache is forgotten by \<open>st\<close>, the second one with a sound cache.\<close>

definition agree :: "('a \<Rightarrow> 'b) \<Rightarrow> ('a \<Rightarrow> bool) \<Rightarrow> 'b res \<Rightarrow> 'a res \<Rightarrow> bool" where
  "agree st ok r0 r \<longleftrightarrow> (case r of Inl e \<Rightarrow> r0 = Inl e | Inr v \<Rightarrow> r0 = Inr (st v) \<and> ok v)"

abbreviation sound_vm :: "('pk, 'sg) crypto \<Rightarrow> Engine \<Rightarrow> bool" where
  "sound_vm c vm \<equiv> cache_ok c (vm_sigCache vm)"

definition transp :: "('pk, 'sg) crypto \<Rightarrow> (Engine \<Rightarrow> Engine res) \<Rightarrow> bool" where
  "transp c f \<longleftrightarrow> (\<forall>vm. sound_vm c vm \<longrightarrow> agree strip (sound_vm c) (f (strip vm)) (f vm))"

lemma agree_simps [simp]:
  "agree st ok (Inl e) (Inl e') \<longleftrightarrow> e = e'" "agree st ok (Inr v0) (Inr v) \<longleftrightarrow> v0 = st v \<and> ok v"
  by (auto simp: agree_def)

lemma agree_bind: "(\<And>x. q = Inr x \<Longrightarrow> agree st ok (f x) (g x)) \<Longrightarrow> agree st ok (rbind q f) (rbind q g)"
  by (cases q) simp_all

lemma agree_seq:
  "agree st ok m0 m \<Longrightarrow> (\<And>v. m = Inr v \<Longrightarrow> ok v \<Longrightarrow> agree st' ok' (f (st v)) (g v)) \<Longrightarrow> agree st' ok' (rbind m0 f) (rbind m g)"
  by (cases m) (auto simp: agree_def)

lemma agree_if: "(b \<Longrightarrow> agree st ok x x') \<Longrightarrow> (\<not> b \<Longrightarrow> agree st ok y y') \<Longrightarrow> agree st ok (if b then x else y) (if b then x' else y')"
  by simp

lemma agree_option:
  "agree st ok x x' \<Longrightarrow> (\<And>v. r = Some v \<Longrightarrow> agree st ok (f v) (f' v)) \<Longrightarrow>
    agree st ok (case r of None \<Rightarrow> x | Some v \<Rightarrow> f v) (case r of None \<Rightarrow> x' | Some v \<Rightarrow> f' v)"
  by (simp split: option.splits)

lemma agree_prod: "(\<And>a b. p = (a, b) \<Longrightarrow> agree st ok (f a b) (f' a b)) \<Longrightarrow>
    agree st ok (case p of (a, b) \<Rightarrow> f a b) (case p of (a, b) \<Rightarrow> f' a b)"
  by (simp split: prod.splits)

lemma strip_sel [simp]:
  "scripts (strip vm) = scripts vm" "scriptIdx (strip vm) = scriptIdx vm" "scriptOff (strip vm) = scriptOff vm"
  "lastCodeSep (strip vm) = lastCodeSep vm" "dstack (strip vm) = dstack vm" "astack (strip vm) = astack vm"
  "vm_tx (strip vm) = vm_tx vm" "txIdx (strip vm) = txIdx vm" "condStack (strip vm) = condStack vm"
  "numOps (strip vm) = numOps vm" "flags (strip vm) = flags vm" "vm_sigCache (strip vm) = None"
  "vm_hashCache (strip vm) = vm_hashCache vm" "witnessVersion (strip vm) = witnessVersion vm"
  "witnessProgram (strip vm) = witnessProgram vm" "witnessExtProg (strip vm) = witnessExtProg vm"
  "inputAmount (strip vm) = inputAmount vm"
  by (simp_all add: strip_def)

lemma strip_upd:
  "(strip vm)\<lparr>dstack := s\<rparr> = strip (vm\<lparr>dstack := s\<rparr>)" "(strip vm)\<lparr>astack := s\<rparr> = strip (vm\<lparr>astack := s\<rparr>)"
  "(strip vm)\<lparr>condStack := cs\<rparr> = strip (vm\<lparr>condStack := cs\<rparr>)" "(strip vm)\<lparr>numOps := n\<rparr> = strip (vm\<lparr>numOps := n\<rparr>)"
  "(strip vm)\<lparr>scriptIdx := n\<rparr> = strip (vm\<lparr>scriptIdx := n\<rparr>)" "(strip vm)\<lparr>scriptOff := n\<rparr> = strip (vm\<lparr>scriptOff := n\<rparr>)"
  "(strip vm)\<lparr>lastCodeSep := n\<rparr> = strip (vm\<lparr>lastCodeSep := n\<rparr>)" "(strip vm)\<lparr>scripts := ps\<rparr> = strip (vm\<lparr>scripts := ps\<rparr>)"
  by (simp_all add: strip_def)

lemma strip_read [simp]:
  "isBranchExecuting (strip vm) = isBranchExecuting vm" "hasFlag fl (strip vm) = hasFlag fl vm" "cur_TxIn (strip vm) = cur_TxIn vm"
  "isWitnessVersionActive n (strip vm) = isWitnessVersionActive n vm" "subScript (strip vm) = subScript vm"
  "checkPubKeyEncoding c pk (strip vm) = checkPubKeyEncoding c pk vm" "sigHashes_of c (strip vm) = sigHashes_of c vm"
  "validPC (strip vm) = validPC vm" "CheckErrorCondition fin (strip vm) = CheckErrorCondition fin vm"
  "ext_scripts (strip vm) = ext_scripts vm" "GetStack (strip vm) = GetStack vm"
  by (simp_all add: isBranchExecuting_def hasFlag_def cur_TxIn_def isWitnessVersionActive_def subScript_def
      checkPubKeyEncoding_def sigHashes_of_def validPC_def CheckErrorCondition_def ext_scripts_def GetStack_def
      Let_def cong: option.case_cong if_cong)

lemma transpD: "transp c f \<Longrightarrow> sound_vm c vm \<Longrightarrow> agree strip (sound_vm c) (f (strip vm)) (f vm)"
  by (simp add: transp_def)

lemma transp_fail: "transp c (\<lambda>vm. Inl e)"
  by (simp add: transp_def)

lemma transp_bind: "transp c f \<Longrightarrow> transp c g \<Longrightarrow> transp c (\<lambda>vm. rbind (f vm) g)"
  by (auto simp: transp_def intro: agree_seq)

lemma transp_if: "transp c f \<Longrightarrow> transp c g \<Longrightarrow> transp c (if b then f else g)"
  by simp

text \<open>A handler that neither reads nor writes the cache.\<close>

lemma transp_blind:
  assumes "\<And>vm. f (strip vm) = map_sum id strip (f vm)" "\<And>vm v. f vm = Inr v \<Longrightarrow> vm_sigCache v = vm_sigCache vm"
  shows "transp c f"
  using assms by (auto simp: transp_def agree_def split: sum.splits)

lemma transp_on_dstack: "transp c (on_dstack g)"
proof (rule transp_blind)
  show "on_dstack g (strip vm) = map_sum id strip (on_dstack g vm)" for vm
    by (cases "g (dstack vm)") (simp_all add: on_dstack_def strip_upd)
  show "vm_sigCache v = vm_sigCache vm" if "on_dstack g vm = Inr v" for vm v
    using that by (cases "g (dstack vm)") (auto simp add: on_dstack_def)
qed

section \<open>The handlers\<close>

lemma transp_nums: "transp c (num1 f1)" "transp c (num2 f2)" "transp c (num3 f3)" "transp c (hash_top h)"
  using transp_on_dstack [of c] by (simp_all add: num1_def [abs_def] num2_def [abs_def] num3_def [abs_def] hash_top_def [abs_def])

lemma transp_dstack_words:
  "transp c (opcodeFalse op)" "transp c (opcodePushData op)" "transp c (opcode1Negate op)" "transp c (opcodeN op)"
  "transp c (opcode2Drop op)" "transp c (opcode2Dup op)" "transp c (opcode3Dup op)" "transp c (opcode2Over op)"
  "transp c (opcode2Rot op)" "transp c (opcode2Swap op)" "transp c (opcodeIfDup op)" "transp c (opcodeDepth op)"
  "transp c (opcodeDrop op)" "transp c (opcodeDup op)" "transp c (opcodeNip op)" "transp c (opcodeOver op)"
  "transp c (opcodePick op)" "transp c (opcodeRoll op)" "transp c (opcodeRot op)" "transp c (opcodeSwap op)"
  "transp c (opcodeTuck op)" "transp c (opcodeSize op)" "transp c (opcodeEqual op)"
  using transp_on_dstack [of c]
  by (simp_all add: opcodeFalse_def [abs_def] opcodePushData_def [abs_def] opcode1Negate_def [abs_def] opcodeN_def [abs_def]
      opcode2Drop_def [abs_def] opcode2Dup_def [abs_def] opcode3Dup_def [abs_def] opcode2Over_def [abs_def]
      opcode2Rot_def [abs_def] opcode2Swap_def [abs_def] opcodeIfDup_def [abs_def] opcodeDepth_def [abs_def]
      opcodeDrop_def [abs_def] opcodeDup_def [abs_def] opcodeNip_def [abs_def] opcodeOver_def [abs_def]
      opcodePick_def [abs_def] opcodeRoll_def [abs_def] opcodeRot_def [abs_def] opcodeSwap_def [abs_def]
      opcodeTuck_def [abs_def] opcodeSize_def [abs_def] opcodeEqual_def [abs_def])

lemma transp_arith:
  "transp c (opcode1Add op)" "transp c (opcode1Sub op)" "transp c (opcodeNegate op)" "transp c (opcodeAbs op)"
  "transp c (opcodeNot op)" "transp c (opcode0NotEqual op)" "transp c (opcodeAdd op)" "transp c (opcodeSub op)"
  "transp c (opcodeBoolAnd op)" "transp c (opcodeBoolOr op)" "transp c (opcodeNumEqual op)" "transp c (opcodeNumNotEqual op)"
  "transp c (opcodeLessThan op)" "transp c (opcodeGreaterThan op)" "transp c (opcodeLessThanOrEqual op)"
  "transp c (opcodeGreaterThanOrEqual op)" "transp c (opcodeMin op)" "transp c (opcodeMax op)" "transp c (opcodeWithin op)"
  "transp c (opcodeRipemd160 d op)" "transp c (opcodeSha1 d op)" "transp c (opcodeSha256 d op)"
  "transp c (opcodeHash160 d op)" "transp c (opcodeHash256 d op)"
  using transp_nums [of c]
  by (simp_all add: opcode1Add_def [abs_def] opcode1Sub_def [abs_def] opcodeNegate_def [abs_def] opcodeAbs_def [abs_def]
      opcodeNot_def [abs_def] opcode0NotEqual_def [abs_def] opcodeAdd_def [abs_def] opcodeSub_def [abs_def]
      opcodeBoolAnd_def [abs_def] opcodeBoolOr_def [abs_def] opcodeNumEqual_def [abs_def] opcodeNumNotEqual_def [abs_def]
      opcodeLessThan_def [abs_def] opcodeGreaterThan_def [abs_def] opcodeLessThanOrEqual_def [abs_def]
      opcodeGreaterThanOrEqual_def [abs_def] opcodeMin_def [abs_def] opcodeMax_def [abs_def] opcodeWithin_def [abs_def]
      opcodeRipemd160_def [abs_def] opcodeSha1_def [abs_def] opcodeSha256_def [abs_def] opcodeHash160_def [abs_def]
      opcodeHash256_def [abs_def])

lemma transp_fails: "transp c (opcodeDisabled op)" "transp c (opcodeReserved op)" "transp c (opcodeInvalid op)" "transp c (opcodeReturn op)"
  using transp_fail [of c] by (simp_all add: opcodeDisabled_def [abs_def] opcodeReserved_def [abs_def] opcodeInvalid_def [abs_def]
      opcodeReturn_def [abs_def])

lemma transp_Verify: "transp c (opcodeVerify op)"
proof (rule transp_blind)
  show "opcodeVerify op (strip vm) = map_sum id strip (opcodeVerify op vm)" for vm
    by (cases "PopBool (dstack vm)") (auto simp: opcodeVerify_def strip_upd split: prod.splits)
  show "vm_sigCache v = vm_sigCache vm" if "opcodeVerify op vm = Inr v" for vm v
    using that by (cases "PopBool (dstack vm)") (auto simp: opcodeVerify_def split: if_splits)
qed

lemma transp_alt: "transp c (opcodeToAltStack op)" "transp c (opcodeFromAltStack op)"
proof -
  show "transp c (opcodeToAltStack op)"
  proof (rule transp_blind)
    show "opcodeToAltStack op (strip vm) = map_sum id strip (opcodeToAltStack op vm)" for vm
      by (cases "PopByteArray (dstack vm)") (auto simp: opcodeToAltStack_def strip_def)
    show "vm_sigCache v = vm_sigCache vm" if "opcodeToAltStack op vm = Inr v" for vm v
      using that by (cases "PopByteArray (dstack vm)") (auto simp: opcodeToAltStack_def)
  qed
  show "transp c (opcodeFromAltStack op)"
  proof (rule transp_blind)
    show "opcodeFromAltStack op (strip vm) = map_sum id strip (opcodeFromAltStack op vm)" for vm
      by (cases "PopByteArray (astack vm)") (auto simp: opcodeFromAltStack_def strip_def)
    show "vm_sigCache v = vm_sigCache vm" if "opcodeFromAltStack op vm = Inr v" for vm v
      using that by (cases "PopByteArray (astack vm)") (auto simp: opcodeFromAltStack_def)
  qed
qed

text \<open>A handler that computes from the readable part of the engine either an error or the update to make.\<close>

lemma transp_update:
  assumes "\<And>vm. q (strip vm) = q vm" "\<And>x vm. u x (strip vm) = strip (u x vm)" "\<And>x vm. vm_sigCache (u x vm) = vm_sigCache vm"
    and f: "\<And>vm. f vm = rbind (q vm) (\<lambda>x. Inr (u x vm))"
  shows "transp c f"
proof (rule transp_blind)
  show "f (strip vm) = map_sum id strip (f vm)" for vm
    using assms(1,2) by (cases "q vm") (simp_all add: f)
  show "vm_sigCache v = vm_sigCache vm" if "f vm = Inr v" for vm v
    using that assms(3) by (cases "q vm") (auto simp: f)
qed

lemma transp_conds:
  "transp c (opcodeIf op)" "transp c (opcodeNotIf op)" "transp c (opcodeElse op)" "transp c (opcodeEndif op)"
  "transp c (opcodeNop op)" "transp c (opcodeCodeSeparator op)"
proof -
  let ?pop = "\<lambda>y n vm. if isBranchExecuting vm then rbind (PopBool (dstack vm)) (\<lambda>(ok, s). Inr (if ok then y else n, s))
    else Inr (OpCondSkip, dstack vm)"
  let ?put = "\<lambda>(v, s) vm :: Engine. vm\<lparr>dstack := s, condStack := condStack vm @ [v]\<rparr>"
  have put: "?put x (strip vm) = strip (?put x vm)" "vm_sigCache (?put x vm) = vm_sigCache vm" for x vm
    by (simp_all add: strip_def split: prod.splits)
  have same: "vm\<lparr>dstack := dstack vm, condStack := cs\<rparr> = vm\<lparr>condStack := cs\<rparr>" for vm :: Engine and cs by simp
  show "transp c (opcodeIf op)"
    by (rule transp_update [where q = "?pop OpCondTrue OpCondFalse" and u = ?put])
       (auto simp: put opcodeIf_def same rbind_def split: sum.splits)
  show "transp c (opcodeNotIf op)"
    by (rule transp_update [where q = "?pop OpCondFalse OpCondTrue" and u = ?put])
       (auto simp: put opcodeNotIf_def same rbind_def split: sum.splits)
  show "transp c (opcodeElse op)"
    by (rule transp_blind) (auto simp: opcodeElse_def Let_def strip_upd split: if_splits)
  show "transp c (opcodeEndif op)"
    by (rule transp_blind) (auto simp: opcodeEndif_def strip_upd split: if_splits)
  show "transp c (opcodeNop op)"
    by (rule transp_blind) (auto simp: opcodeNop_def Let_def split: if_splits)
  show "transp c (opcodeCodeSeparator op)"
    by (rule transp_blind) (auto simp: opcodeCodeSeparator_def strip_upd)
qed

lemma transp_locks: "transp c (opcodeCheckLockTimeVerify op)" "transp c (opcodeCheckSequenceVerify op)"
proof -
  have keep: "opcodeCheckLockTimeVerify op vm = Inr v \<Longrightarrow> v = vm" "opcodeCheckSequenceVerify op vm = Inr v \<Longrightarrow> v = vm" for vm v
    by (auto simp: opcodeCheckLockTimeVerify_def opcodeCheckSequenceVerify_def rbind_eq_Inr Let_def split: if_splits)
  show "transp c (opcodeCheckLockTimeVerify op)"
  proof (rule transp_blind)
    show "opcodeCheckLockTimeVerify op (strip vm) = map_sum id strip (opcodeCheckLockTimeVerify op vm)" for vm
      by (simp add: opcodeCheckLockTimeVerify_def Let_def rbind_def split: sum.splits)
    show "vm_sigCache v = vm_sigCache vm" if "opcodeCheckLockTimeVerify op vm = Inr v" for vm v using keep(1) [OF that] by simp
  qed
  show "transp c (opcodeCheckSequenceVerify op)"
  proof (rule transp_blind)
    show "opcodeCheckSequenceVerify op (strip vm) = map_sum id strip (opcodeCheckSequenceVerify op vm)" for vm
      by (simp add: opcodeCheckSequenceVerify_def Let_def rbind_def split: sum.splits)
    show "vm_sigCache v = vm_sigCache vm" if "opcodeCheckSequenceVerify op vm = Inr v" for vm v using keep(2) [OF that] by simp
  qed
qed

lemma transp_composites:
  "transp c (opcodeEqualVerify op)" "transp c (opcodeNumEqualVerify op)"
  using transp_bind [OF transp_dstack_words(23) transp_Verify] transp_bind [OF transp_arith(11) transp_Verify]
  by (simp_all add: opcodeEqualVerify_def [abs_def] opcodeNumEqualVerify_def [abs_def])

section \<open>Signature checks\<close>

lemma verifySig_None: "verifySig c h sg pk None = (sig_Verify c sg h pk, None)"
  by (simp add: verifySig_def)

lemma verifySig_cached:
  assumes "hash_env c" "serialize_faithful c" "calcWitnessSignatureHash (sha256 c) script sh ht tx i amt = Inr h" "cache_ok c cache"
  obtains ca where "verifySig c h sg pk cache = (sig_Verify c sg h pk, ca)" "cache_ok c ca"
proof -
  obtain b ca where "verifySig c h sg pk cache = (b, ca)" by (metis surj_pair)
  with verifySig_ok [OF assms(4,2) sighash_length [OF assms(1,3)] this] show thesis by (intro that [of ca]) simp_all
qed

abbreviation same_out :: "('pk, 'sg) crypto \<Rightarrow> (bool \<times> SigCache option) res \<Rightarrow> (bool \<times> SigCache option) res \<Rightarrow> bool" where
  "same_out c \<equiv> agree (\<lambda>(b, ca). (b, None)) (\<lambda>(b, ca). cache_ok c ca)"

lemma multisig_loop_strip:
  assumes "hash_env c" "serialize_faithful c" "cache_ok c cache"
  shows "same_out c (multisig_loop c (strip vm) script pks sigs None) (multisig_loop c vm script pks sigs cache)"
  using assms(3)
proof (induction pks arbitrary: sigs cache)
  case Nil
  then show ?case by (cases sigs) simp_all
next
  case (Cons pk pks)
  show ?case
  proof (cases sigs)
    case Nil
    then show ?thesis using Cons.prems by simp
  next
    case s: (Cons si ss)
    have sig: "same_out c (let (v, ca) = verifySig c h sg key None in if v then multisig_loop c (strip vm) script pks ss ca
          else multisig_loop c (strip vm) script pks (si' # ss) ca)
        (let (v, ca) = verifySig c h sg key cache in if v then multisig_loop c vm script pks ss ca
          else multisig_loop c vm script pks (si' # ss) ca)"
      if "calcWitnessSignatureHash (sha256 c) script (sigHashes_of c vm) ht (vm_tx vm) (int (txIdx vm)) (inputAmount vm) = Inr h"
      for h ht sg key si'
    proof -
      note hash = that
      obtain ca where "verifySig c h sg key cache = (sig_Verify c sg h key, ca)" "cache_ok c ca"
        using verifySig_cached [OF assms(1,2) hash Cons.prems, of sg key] .
      then show ?thesis using Cons.IH [of ca] by (simp add: verifySig_None)
    qed
    show ?thesis unfolding s multisig_loop.simps Let_def strip_sel strip_read
      by (intro agree_if agree_bind agree_option Cons.IH Cons.prems sig [unfolded Let_def])
         (simp_all add: Cons.prems)
  qed
qed

lemma transp_CheckSig:
  assumes "hash_env c" "serialize_faithful c"
  shows "transp c (opcodeCheckSig c op)"
  unfolding transp_def
proof (intro allI impI)
  fix vm assume ok: "sound_vm c vm"
  have put: "agree strip (sound_vm c) (Inr ((strip vm)\<lparr>dstack := s\<rparr>)) (Inr (vm\<lparr>dstack := s\<rparr>))" for s
    using ok by (simp add: strip_upd)
  have sig: "agree strip (sound_vm c)
      (let (valid, cache) = verifySig c h sg key None in if \<not> valid \<and> n then Inl e
        else Inr ((strip vm)\<lparr>dstack := PushBool valid s, vm_sigCache := cache\<rparr>))
      (let (valid, cache) = verifySig c h sg key (vm_sigCache vm) in if \<not> valid \<and> n then Inl e
        else Inr (vm\<lparr>dstack := PushBool valid s, vm_sigCache := cache\<rparr>))"
    if hash: "calcWitnessSignatureHash (sha256 c) script (sigHashes_of c vm) ht (vm_tx vm) (int (txIdx vm)) (inputAmount vm) = Inr h"
    for script ht h sg key n e s
  proof -
    obtain ca where "verifySig c h sg key (vm_sigCache vm) = (sig_Verify c sg h key, ca)" "cache_ok c ca"
      using verifySig_cached [OF assms hash ok, of sg key] .
    then show ?thesis by (simp add: verifySig_None strip_def)
  qed
  show "agree strip (sound_vm c) (opcodeCheckSig c op (strip vm)) (opcodeCheckSig c op vm)"
    unfolding opcodeCheckSig_def Let_def strip_sel strip_read
    by (intro agree_bind agree_prod agree_if agree_option put sig [unfolded Let_def])
qed

lemma transp_CheckMultiSig:
  assumes "hash_env c" "serialize_faithful c"
  shows "transp c (opcodeCheckMultiSig c op)"
  unfolding transp_def
proof (intro allI impI)
  fix vm assume ok: "sound_vm c vm"
  have fin: "agree strip (sound_vm c)
      (rbind (multisig_loop c (strip (vm\<lparr>numOps := n\<rparr>)) script pks sigs None)
        (\<lambda>(success, cache). if \<not> success \<and> b then Inl e else Inr ((strip (vm\<lparr>numOps := n, dstack := PushBool success s\<rparr>))\<lparr>vm_sigCache := cache\<rparr>)))
      (rbind (multisig_loop c (vm\<lparr>numOps := n\<rparr>) script pks sigs (vm_sigCache (vm\<lparr>numOps := n\<rparr>)))
        (\<lambda>(success, cache). if \<not> success \<and> b then Inl e else Inr (vm\<lparr>numOps := n, dstack := PushBool success s, vm_sigCache := cache\<rparr>)))"
    for n script pks sigs b e s
    by (rule agree_seq [OF multisig_loop_strip [OF assms]]) (use ok in \<open>auto simp: strip_def\<close>)
  show "agree strip (sound_vm c) (opcodeCheckMultiSig c op (strip vm)) (opcodeCheckMultiSig c op vm)"
    unfolding opcodeCheckMultiSig_def Let_def strip_sel strip_read strip_upd
    by (intro agree_bind agree_prod agree_if fin, simp_all)
qed

lemma transp_if_op: "transp c (f op) \<Longrightarrow> transp c (g op) \<Longrightarrow> transp c ((if b then f else g) op)"
  by simp

lemmas transps = transp_if_op transp_fails transp_dstack_words transp_arith transp_Verify transp_alt transp_conds transp_locks
  transp_composites

lemma transp_opfunc:
  assumes "hash_env c" "serialize_faithful c"
  shows "transp c (opfunc c v op)"
proof -
  note sigs = transp_CheckSig [OF assms] transp_CheckMultiSig [OF assms]
  have verify: "transp c (opcodeCheckSigVerify c op)" "transp c (opcodeCheckMultiSigVerify c op)"
    using transp_bind [OF sigs(1) [of op] transp_Verify [of c op]] transp_bind [OF sigs(2) [of op] transp_Verify [of c op]]
    by (simp_all add: opcodeCheckSigVerify_def [abs_def] opcodeCheckMultiSigVerify_def [abs_def])
  show ?thesis
    unfolding opfunc_def opfunc_push_def opfunc_control_def opfunc_stack_def opfunc_splice_bitwise_def opfunc_numeric_def
      opfunc_crypto_def opfunc_nop_def
    by (intro transps sigs verify)
qed

section \<open>Steps and runs\<close>

lemma transp_executeOpcode:
  assumes "hash_env c" "serialize_faithful c"
  shows "transp c (executeOpcode c pop)"
  unfolding transp_def
proof (intro allI impI)
  fix vm assume ok: "sound_vm c vm"
  have start: "agree strip (sound_vm c)
      (if gt then if numOps (strip (vm\<lparr>numOps := n\<rparr>)) > k then Inl e else Inr (strip (vm\<lparr>numOps := n\<rparr>)) else if big then Inl e' else Inr (strip vm))
      (if gt then if numOps (vm\<lparr>numOps := n\<rparr>) > k then Inl e else Inr (vm\<lparr>numOps := n\<rparr>) else if big then Inl e' else Inr vm)" for gt n k e e' big
    using ok by simp
  show "agree strip (sound_vm c) (executeOpcode c pop (strip vm)) (executeOpcode c pop vm)"
    unfolding executeOpcode_def Let_def strip_sel strip_upd
    by (intro agree_if agree_seq [OF start [unfolded strip_sel]])
       (auto intro!: agree_bind agree_if transpD [OF transp_opfunc [OF assms]])
qed

abbreviation same_step :: "('pk, 'sg) crypto \<Rightarrow> (bool \<times> Engine) res \<Rightarrow> (bool \<times> Engine) res \<Rightarrow> bool" where
  "same_step c \<equiv> agree (\<lambda>(fin, v). (fin, strip v)) (\<lambda>(fin, v). sound_vm c v)"

lemma next_script_strip:
  assumes "sound_vm c vm"
  shows "same_step c (next_script c (strip vm)) (next_script c vm)"
proof -
  have verify: "transp c (verifyWitnessProgram c w)" for w
  proof (rule transp_blind)
    show "verifyWitnessProgram c w (strip vm) = map_sum id strip (verifyWitnessProgram c w vm)" for vm
      by (simp add: verifyWitnessProgram_def Let_def rbind_def strip_upd split: sum.splits)
    show "vm_sigCache v = vm_sigCache vm" if "verifyWitnessProgram c w vm = Inr v" for vm v
      using that by (auto simp: verifyWitnessProgram_def Let_def rbind_eq_Inr split: if_splits)
  qed
  show ?thesis
    unfolding next_script_def Let_def strip_sel strip_upd
    by (intro agree_if agree_seq [where st = strip and ok = "sound_vm c"])
       (use assms in \<open>auto simp: strip_upd intro!: agree_bind transpD [OF verify]\<close>)
qed

lemma Step_strip:
  assumes "hash_env c" "serialize_faithful c" "sound_vm c vm"
  shows "same_step c (Step c (strip vm)) (Step c vm)"
  unfolding Step_def Let_def strip_sel strip_read strip_upd
  by (intro agree_bind agree_seq [OF transpD [OF transp_executeOpcode [OF assms(1,2)]]])
     (use assms(3) in \<open>auto intro!: agree_if next_script_strip\<close>)

lemma Execute_strip:
  assumes "hash_env c" "vm_inv vm" "serialize_faithful c" "sound_vm c vm"
  shows "Execute c (strip vm) = Execute c vm"
  using assms
proof (induction rule: run_induct)
  case (step vm)
  note s = Step_strip [OF assms(1) step.prems]
  show ?case
  proof (cases "Step c vm")
    case (Inl e)
    then show ?thesis using s by (simp add: Execute.simps [of c vm] Execute.simps [of c "strip vm"] agree_def)
  next
    case (Inr r)
    obtain fin v where r: "r = (fin, v)" by (cases r)
    have "Step c (strip vm) = Inr (fin, strip v)" "sound_vm c v" using s Inr r by (simp_all add: agree_def)
    moreover have "Execute c (strip v) = Execute c v" if "\<not> fin"
      using step.IH [of v] Inr r that step.prems(1) calculation(2) Step_inv(1) [OF _ assms(1) step.hyps] by simp
    ultimately show ?thesis using Inr r by (simp add: Execute.simps [of c vm] Execute.simps [of c "strip vm"])
  qed
qed

text \<open>C4. The signature cache never changes a verdict. Whatever sound cache the engine for an input is
  given, the input is accepted or refused, with the same error, as with no cache at all; so
  the order in which the goroutines that share the cache fill it does not matter.\<close>

theorem verdict_ignores_cache:
  assumes "hash_env c" "serialize_faithful c" "cache_sound c s"
    "NewEngine pkScript tx idx fl (Some s) hashes amt = Inr vm" "NewEngine pkScript tx idx fl None hashes amt = Inr vm0"
  shows "Execute c vm = Execute c vm0"
proof -
  have "vm0 = strip vm" "vm_sigCache vm = Some s"
    using assms(4,5) by (auto simp: NewEngine_def strip_def Let_def rbind_eq_Inr split: if_splits prod.splits option.splits)
  then show ?thesis using Execute_strip [OF assms(1) NewEngine_inv [OF assms(4)] assms(2)] assms(3) by (simp add: cache_ok_def)
qed

definition example_sig_script :: bytes where
  "example_sig_script = 9 # hd example_sigs @ 33 # hd example_keys @ [OP_CHECKSIG]"

definition example_filled_cache :: SigCache where
  "example_filled_cache = cache_Add key_crypto (replicate 32 0) (butlast (hd example_sigs)) (hd example_keys) (NewSigCache 10)"

definition example_verdict :: "SigCache option \<Rightarrow> unit res option" where
  "example_verdict cache = (case NewEngine example_sig_script witness_tx 0 0 cache None 9 of
     Inl e \<Rightarrow> None | Inr vm \<Rightarrow> Execute key_crypto vm)"

theorem verdict_ignores_cache_witness:
  "cache_sound key_crypto example_filled_cache \<and> example_verdict (Some example_filled_cache) = Some (Inr ())"
proof -
  have s: "cache_sound key_crypto example_filled_cache"
    unfolding example_filled_cache_def
    by (rule cache_sound_Add [OF cache_sound_New]) (simp add: key_crypto_def example_sigs_def example_keys_def)
  have 0: "example_verdict None = Some (Inr ())" by code_simp
  then obtain vm0 where v0: "NewEngine example_sig_script witness_tx 0 0 None None 9 = Inr vm0"
    by (auto simp: example_verdict_def split: sum.splits)
  have "\<exists>vm. NewEngine example_sig_script witness_tx 0 0 (Some example_filled_cache) None 9 = Inr vm"
    using v0 by (auto simp: NewEngine_def Let_def rbind_eq_Inr split: if_splits prod.splits option.splits)
  then obtain vm where v: "NewEngine example_sig_script witness_tx 0 0 (Some example_filled_cache) None 9 = Inr vm" by blast
  have "Execute key_crypto vm = Execute key_crypto vm0"
    by (rule verdict_ignores_cache [OF _ _ s v v0]) (auto simp: hash_env_def serialize_faithful_def key_crypto_def)
  then show ?thesis using s 0 v v0 by (simp add: example_verdict_def)
qed

end
