(* ===== verification/Chain_Error.thy ===== *)
theory Chain_Error
  imports Script_Error
begin

text \<open>
  The errors of the consensus code: one constructor per error variable that the modelled functions of
  \<^verbatim>\<open>src/blockchain/errors.go\<close>, \<^verbatim>\<open>src/chainutil/safetype/uint128.go\<close>, \<^verbatim>\<open>src/chainutil/amount.go\<close> and
  \<^verbatim>\<open>src/database/db.go\<close> return. \<open>ChainText\<close> is an error built in place, with the constant part of its
  message; \<open>ErrTxWitnessLength\<close> and \<open>ErrUnfinalizedTx\<close> are \<^verbatim>\<open>ErrWitnessLength\<close> and \<^verbatim>\<open>errUnFinalizedTx\<close> of
  package \<^verbatim>\<open>blockchain\<close>; \<open>ScriptErr\<close> is an error of package \<^verbatim>\<open>txscript\<close>; \<open>ChainPanic\<close> is a run-time panic.
\<close>

datatype (plugins only: code) chain_error =
    ErrUint128Overflow
  | ErrUint128Underflow
  | ErrUint128InvalidBytes
  | ErrUint128DividedByZero
  | ErrInvalidFloat
  | ErrMaxAmount
  | ErrTxShaMissing
  | ErrTxAlreadyExists
  | ErrInvalidTime
  | ErrTimeTooOld
  | ErrTimeTooNew
  | ErrUnexpectedDifficulty
  | ErrInvalidMerkleRoot
  | ErrInvalidProposalRoot
  | ErrTooManyTransactions
  | ErrNoTxOutputs
  | ErrDuplicateTxInputs
  | ErrConnectGenesis
  | ErrOverwriteTx
  | ErrTooManySigOps
  | ErrFirstTxNotCoinbase
  | ErrMultipleCoinbases
  | ErrLowQuality
  | ErrTimestampFormat
  | ErrBadBlockHeight
  | ErrChainID
  | ErrBlockSIG
  | ErrInvalidBlockVersion
  | ErrInvalidBitLength
  | ErrBannedPk
  | ErrBanSelfPk
  | ErrBanList
  | ErrCheckBannedPk
  | ErrCoinbaseTxInWitness
  | ErrBadCoinbaseValue
  | ErrBadCoinbaseHeight
  | ErrBindingPubKey
  | ErrBadTxInput
  | ErrMissingTx
  | ErrNoTxInputs
  | ErrSequenceNotSatisfied
  | ErrImmatureSpend
  | ErrUnfinalizedTx
  | ErrDoubleSpend
  | ErrDuplicateTx
  | ErrBadTxOutValue
  | ErrBadFees
  | ErrTxTooBig
  | ErrBlockTooBig
  | ErrIncompleteCoinbasePayload
  | ErrBlockNoTransactions
  | ErrInvalidStakingTxValue
  | ErrInvalidFrozenPeriod
  | ErrBindingInputMissing
  | ErrStandardBindingTx
  | ErrInvalidPoolType
  | ErrStandardPoolingTx
  | ErrNonStandardType
  | ErrInvalidTxVersion
  | ErrUnfinishedTx
  | ErrNonStandardTxSize
  | ErrNotAllowedTx
  | ErrTxWitnessLength
  | ErrWitnessSize
  | ErrSignaturePushOnly
  | ErrDust
  | ErrNuLLDataScript
  | ErrParseInputScript
  | ErrExpectedSignInput
  | ErrTxMsgPayloadSize
  | ErrCoinbaseTx
  | ErrInsufficientFee
  | ErrScriptMalformed
  | ErrScriptValidation
  | ErrExpandOrphanRootBlockNode
  | ErrExpandChildRootBlockNode
  | ErrRemoveAllRootBlockNode
  | ErrAttachNonLeafBlockNode
  | ErrDetachParentBlockNode
  | ErrRootNodeAlreadyExists
  | ScriptErr script_error
  | ChainText string
  | ChainPanic

type_synonym 'a chain_res = "chain_error + 'a"

end
