(* ===== verification/Amount.thy ===== *)
theory Amount
  imports Chain_Error
begin

text \<open>
  Monetary amounts: \<^verbatim>\<open>src/chainutil/safetype/uint128.go\<close> (128-bit unsigned integers over \<^verbatim>\<open>math/big\<close>,
  every operation checked) and \<^verbatim>\<open>src/chainutil/amount.go\<close> (amounts limited to the total supply). The
  operations on floating point numbers that \<^verbatim>\<open>NewAmountFromSkt\<close> and \<^verbatim>\<open>MulF64\<close> use are a parameter; the conversions of an amount to a
  floating point number and to text are left out, and so are the two setters for tests. An API history of
  amounts is an inductive predicate; every amount it reaches is within the supply.
\<close>

section \<open>Definitions: Uint128\<close>

datatype Uint128 = Uint128 (u_value: int)

definition Uint128Bytes :: nat where "Uint128Bytes = 16"
definition Uint128Bits :: nat where "Uint128Bits = 128"

text \<open>\<^verbatim>\<open>big.Int.BitLen\<close>, \<^verbatim>\<open>big.Int.Bytes\<close> (the absolute value, big-endian, without leading zeros),
  \<^verbatim>\<open>big.Int.Div\<close> and \<^verbatim>\<open>big.Int.Mod\<close> (Euclidean), \<^verbatim>\<open>big.Int.Cmp\<close>.\<close>

fun nat_bitlen :: "nat \<Rightarrow> nat" where
  "nat_bitlen n = (if n = 0 then 0 else Suc (nat_bitlen (n div 2)))"

fun nat_bytes :: "nat \<Rightarrow> bytes" where
  "nat_bytes n = (if n = 0 then [] else nat_bytes (n div 256) @ [of_nat (n mod 256)])"

declare nat_bitlen.simps [simp del] nat_bytes.simps [simp del]

definition big_Div :: "int \<Rightarrow> int \<Rightarrow> int" where
  "big_Div x y = (if y < 0 then - (x div (- y)) else x div y)"

definition big_Mod :: "int \<Rightarrow> int \<Rightarrow> int" where
  "big_Mod x y = x mod \<bar>y\<bar>"

definition big_Cmp :: "int \<Rightarrow> int \<Rightarrow> int" where
  "big_Cmp x y = (if x < y then -1 else if x = y then 0 else 1)"

definition Validate :: "Uint128 \<Rightarrow> unit chain_res" where
  "Validate u =
     (if u_value u < 0 then Inl ErrUint128Underflow
      else if nat_bitlen (nat \<bar>u_value u\<bar>) > Uint128Bits then Inl ErrUint128Overflow
      else Inr ())"

definition NewUint128 :: Uint128 where
  "NewUint128 = Uint128 0"

definition NewUint128FromUint :: "u64 \<Rightarrow> Uint128" where
  "NewUint128FromUint i = Uint128 (uint i)"

definition NewUint128FromInt :: "int \<Rightarrow> Uint128 chain_res" where
  "NewUint128FromInt i = (let obj = Uint128 i in rbind (Validate obj) (\<lambda>_. Inr obj))"

definition NewUint128FromBigInt :: "int \<Rightarrow> Uint128 chain_res" where
  "NewUint128FromBigInt i = (let obj = Uint128 i in rbind (Validate obj) (\<lambda>_. Inr obj))"

text \<open>The loop looks for the first byte that is not zero and takes the value from there.\<close>

fun u128_scan :: "bytes \<Rightarrow> Uint128" where
  "u128_scan [] = NewUint128"
| "u128_scan (b # bs) = (if b \<noteq> 0 then Uint128 (int (le_val (rev (b # bs)))) else u128_scan bs)"

definition NewUint128FromBytes :: "bytes \<Rightarrow> Uint128 chain_res" where
  "NewUint128FromBytes bs = (if length bs > Uint128Bytes then Inl ErrUint128InvalidBytes else Inr (u128_scan bs))"

definition AbsBytes :: "Uint128 \<Rightarrow> bytes" where
  "AbsBytes u = nat_bytes (nat \<bar>u_value u\<bar>)"

definition u128_Bytes :: "Uint128 \<Rightarrow> bytes chain_res" where
  "u128_Bytes u =
     (let bs = nat_bytes (nat \<bar>u_value u\<bar>); l = length bs in
      if l > 0 then (if l > Uint128Bytes then Inl ChainPanic else Inr (replicate (Uint128Bytes - l) 0 @ bs))
      else Inr (replicate Uint128Bytes 0))"

definition u128_Cmp :: "Uint128 \<Rightarrow> Uint128 \<Rightarrow> int" where
  "u128_Cmp u x = big_Cmp (u_value u) (u_value x)"

definition u128_Gt :: "Uint128 \<Rightarrow> Uint128 \<Rightarrow> bool" where "u128_Gt u x \<longleftrightarrow> u128_Cmp u x > 0"
definition u128_Ge :: "Uint128 \<Rightarrow> Uint128 \<Rightarrow> bool" where "u128_Ge u x \<longleftrightarrow> u128_Cmp u x \<ge> 0"
definition u128_Lt :: "Uint128 \<Rightarrow> Uint128 \<Rightarrow> bool" where "u128_Lt u x \<longleftrightarrow> u128_Cmp u x < 0"
definition u128_Le :: "Uint128 \<Rightarrow> Uint128 \<Rightarrow> bool" where "u128_Le u x \<longleftrightarrow> u128_Cmp u x \<le> 0"
definition u128_Eq :: "Uint128 \<Rightarrow> Uint128 \<Rightarrow> bool" where "u128_Eq u x \<longleftrightarrow> u128_Cmp u x = 0"

definition u128_IsZero :: "Uint128 \<Rightarrow> bool" where
  "u128_IsZero u \<longleftrightarrow> sgn (u_value u) = 0"

definition maxUint64 :: Uint128 where
  "maxUint64 = NewUint128FromUint 18446744073709551615"

definition maxInt64 :: Uint128 where
  "maxInt64 = NewUint128FromUint 9223372036854775807"

definition u128_UintValue :: "Uint128 \<Rightarrow> u64 chain_res" where
  "u128_UintValue u = (if u128_Gt u maxUint64 then Inl ChainPanic else Inr (word_of_int (u_value u)))"

definition u128_IntValue :: "Uint128 \<Rightarrow> int chain_res" where
  "u128_IntValue u = (if u128_Gt u maxInt64 then Inl ChainPanic else Inr (i64 (u_value u)))"

definition u128_Add :: "Uint128 \<Rightarrow> Uint128 \<Rightarrow> Uint128 chain_res" where
  "u128_Add u x = (let obj = Uint128 (u_value u + u_value x) in rbind (Validate obj) (\<lambda>_. Inr obj))"

definition u128_AddInt :: "Uint128 \<Rightarrow> int \<Rightarrow> Uint128 chain_res" where
  "u128_AddInt u i = rbind (NewUint128FromInt i) (u128_Add u)"

definition u128_AddUint :: "Uint128 \<Rightarrow> u64 \<Rightarrow> Uint128 chain_res" where
  "u128_AddUint u i = u128_Add u (NewUint128FromUint i)"

definition u128_Sub :: "Uint128 \<Rightarrow> Uint128 \<Rightarrow> Uint128 chain_res" where
  "u128_Sub u x = (let obj = Uint128 (u_value u - u_value x) in rbind (Validate obj) (\<lambda>_. Inr obj))"

definition u128_SubUint :: "Uint128 \<Rightarrow> u64 \<Rightarrow> Uint128 chain_res" where
  "u128_SubUint u x = u128_Sub u (NewUint128FromUint x)"

definition u128_Mul :: "Uint128 \<Rightarrow> Uint128 \<Rightarrow> Uint128 chain_res" where
  "u128_Mul u x = (let obj = Uint128 (u_value u * u_value x) in rbind (Validate obj) (\<lambda>_. Inr obj))"

definition u128_MulInt :: "Uint128 \<Rightarrow> int \<Rightarrow> Uint128 chain_res" where
  "u128_MulInt u i = rbind (NewUint128FromInt i) (u128_Mul u)"

definition u128_Div :: "Uint128 \<Rightarrow> Uint128 \<Rightarrow> Uint128 chain_res" where
  "u128_Div u x = (if u128_IsZero x then Inl ErrUint128DividedByZero
     else let obj = Uint128 (big_Div (u_value u) (u_value x)) in rbind (Validate obj) (\<lambda>_. Inr obj))"

definition u128_DivInt :: "Uint128 \<Rightarrow> int \<Rightarrow> Uint128 chain_res" where
  "u128_DivInt u i = rbind (NewUint128FromInt i) (u128_Div u)"

definition u128_Mod :: "Uint128 \<Rightarrow> Uint128 \<Rightarrow> Uint128 chain_res" where
  "u128_Mod u x = (if u128_IsZero x then Inl ErrUint128DividedByZero
     else let obj = Uint128 (big_Mod (u_value u) (u_value x)) in rbind (Validate obj) (\<lambda>_. Inr obj))"

definition u128_Exp :: "Uint128 \<Rightarrow> Uint128 \<Rightarrow> Uint128 chain_res" where
  "u128_Exp u x = (let obj = Uint128 (u_value u ^ nat (u_value x)) in rbind (Validate obj) (\<lambda>_. Inr obj))"

definition u128_Rsh :: "Uint128 \<Rightarrow> nat \<Rightarrow> Uint128" where
  "u128_Rsh u n = Uint128 (u_value u div 2 ^ n)"

section \<open>Definitions: Amount\<close>

datatype Amount = Amount (a_value: Uint128)

definition SukhavatiPerSkt :: u64 where "SukhavatiPerSkt = 100000000"

definition MaxSkt :: u64 where
  "MaxSkt = 381945005 + 92705098 + 38318107 + 61803399 + 43262379"

definition MinRelayTxFee :: u64 where "MinRelayTxFee = 10000"

definition ZeroAmount :: Amount where
  "ZeroAmount = Amount NewUint128"

definition MaxAmount :: Amount where
  "MaxAmount = (case u128_Mul (NewUint128FromUint MaxSkt) (NewUint128FromUint SukhavatiPerSkt) of Inr u \<Rightarrow> Amount u)"

definition checkedAmount :: "Uint128 \<Rightarrow> Amount chain_res" where
  "checkedAmount u = (if u128_Gt u (a_value MaxAmount) then Inl ErrMaxAmount else Inr (Amount u))"

definition NewAmountFromInt :: "int \<Rightarrow> Amount chain_res" where
  "NewAmountFromInt i = rbind (NewUint128FromInt i) checkedAmount"

definition NewAmount :: "Uint128 \<Rightarrow> Amount chain_res" where
  "NewAmount u = checkedAmount u"

definition NewAmountFromUint :: "u64 \<Rightarrow> Amount chain_res" where
  "NewAmountFromUint i = NewAmount (NewUint128FromUint i)"

definition amt_Add :: "Amount \<Rightarrow> Amount \<Rightarrow> Amount chain_res" where
  "amt_Add a b = rbind (u128_Add (a_value a) (a_value b)) checkedAmount"

definition amt_AddInt :: "Amount \<Rightarrow> int \<Rightarrow> Amount chain_res" where
  "amt_AddInt a i = rbind (u128_AddInt (a_value a) i) checkedAmount"

definition amt_Sub :: "Amount \<Rightarrow> Amount \<Rightarrow> Amount chain_res" where
  "amt_Sub a b = rbind (u128_Sub (a_value a) (a_value b)) checkedAmount"

definition amt_Cmp :: "Amount \<Rightarrow> Amount \<Rightarrow> int" where
  "amt_Cmp a b = u128_Cmp (a_value a) (a_value b)"

definition amt_IsZero :: "Amount \<Rightarrow> bool" where
  "amt_IsZero a = u128_IsZero (a_value a)"

definition amt_IntValue :: "Amount \<Rightarrow> int chain_res" where
  "amt_IntValue a = u128_IntValue (a_value a)"

definition amt_UintValue :: "Amount \<Rightarrow> u64 chain_res" where
  "amt_UintValue a = u128_UintValue (a_value a)"

text \<open>
  The \<^verbatim>\<open>float64\<close> operations the source uses: the tests of package \<^verbatim>\<open>math\<close>, comparison with zero, adding and subtracting one half, the product, the
  conversion of a \<^verbatim>\<open>uint64\<close>, and the truncation of the conversion to \<^verbatim>\<open>int64\<close>. The conversion is \<open>i64\<close> of the truncation: an \<^verbatim>\<open>int64\<close>
  whatever the operand (outside the range of \<^verbatim>\<open>int64\<close> the language leaves open which).
\<close>

record 'f float64 =
  f_IsNaN :: "'f \<Rightarrow> bool"
  f_IsPosInf :: "'f \<Rightarrow> bool"
  f_IsNegInf :: "'f \<Rightarrow> bool"
  f_negative :: "'f \<Rightarrow> bool"
  f_minus_half :: "'f \<Rightarrow> 'f"
  f_plus_half :: "'f \<Rightarrow> 'f"
  f_mult :: "'f \<Rightarrow> 'f \<Rightarrow> 'f"
  f_of_uint64 :: "u64 \<Rightarrow> 'f"
  f_trunc :: "'f \<Rightarrow> int"

definition amt_round :: "'f float64 \<Rightarrow> 'f \<Rightarrow> Amount chain_res" where
  "amt_round F sukhavati =
     (let v = (if f_negative F sukhavati then i64 (f_trunc F (f_minus_half F sukhavati)) else i64 (f_trunc F (f_plus_half F sukhavati)))
      in rbind (NewUint128FromInt v) checkedAmount)"

definition NewAmountFromSkt :: "'f float64 \<Rightarrow> 'f \<Rightarrow> Amount chain_res" where
  "NewAmountFromSkt F f =
     (if f_IsNaN F f \<or> f_IsPosInf F f \<or> f_IsNegInf F f then Inl ErrInvalidFloat
      else amt_round F (f_mult F f (f_of_uint64 F SukhavatiPerSkt)))"

definition amt_MulF64 :: "'f float64 \<Rightarrow> Amount \<Rightarrow> 'f \<Rightarrow> Amount chain_res" where
  "amt_MulF64 F a f =
     (if f_IsNaN F f \<or> f_IsPosInf F f \<or> f_IsNegInf F f then Inl ErrInvalidFloat
      else rbind (amt_UintValue a) (\<lambda>n. amt_round F (f_mult F (f_of_uint64 F n) f)))"

section \<open>Range facts\<close>

definition valid_u128 :: "Uint128 \<Rightarrow> bool" where
  "valid_u128 u \<longleftrightarrow> 0 \<le> u_value u \<and> u_value u < 2 ^ 128"

abbreviation val :: "Amount \<Rightarrow> int" where
  "val a \<equiv> u_value (a_value a)"

abbreviation (input) max_value :: int where
  "max_value \<equiv> 61803398800000000"

lemma nat_bitlen_le: "nat_bitlen n \<le> k \<longleftrightarrow> n < 2 ^ k"
proof (induction k arbitrary: n)
  case 0
  then show ?case by (subst nat_bitlen.simps) simp
next
  case (Suc k)
  have "n div 2 < 2 ^ k \<longleftrightarrow> n < 2 ^ Suc k" by (simp add: div_less_iff_less_mult mult.commute)
  with Suc [of "n div 2"] show ?case by (subst nat_bitlen.simps) simp
qed

lemma Validate_iff: "Validate u = Inr () \<longleftrightarrow> valid_u128 u"
  using nat_bitlen_le [of "nat (u_value u)" 128]
  by (auto simp: Validate_def valid_u128_def Uint128Bits_def not_less nat_less_iff)

text \<open>The check without the bit length, for evaluation.\<close>

lemma Validate_code [code]:
  "Validate u = (if u_value u < 0 then Inl ErrUint128Underflow
     else if u_value u < 340282366920938463463374607431768211456 then Inr () else Inl ErrUint128Overflow)"
  using nat_bitlen_le [of "nat (u_value u)" 128]
  by (auto simp: Validate_def Uint128Bits_def not_less nat_less_iff)

lemma Validate_bind: "rbind (Validate u) (\<lambda>_. Inr u) = (if valid_u128 u then Inr u else Inl (if u_value u < 0 then ErrUint128Underflow else ErrUint128Overflow))"
  using Validate_iff [of u] by (cases "Validate u") (auto simp: Validate_def split: if_splits)

lemmas u128_checked = u128_Add_def u128_Sub_def u128_Mul_def u128_Div_def u128_Mod_def u128_Exp_def
  NewUint128FromInt_def NewUint128FromBigInt_def Let_def Validate_bind

lemma MaxAmount_val [simp]: "val MaxAmount = max_value"
proof -
  have "valid_u128 (Uint128 max_value)" by (simp add: valid_u128_def)
  then show ?thesis by (simp add: MaxAmount_def u128_checked NewUint128FromUint_def MaxSkt_def SukhavatiPerSkt_def)
qed

lemma ZeroAmount_val [simp]: "val ZeroAmount = 0"
  by (simp add: ZeroAmount_def NewUint128_def)

lemma u128_cmp_iffs [simp]:
  "u128_Gt u x \<longleftrightarrow> u_value x < u_value u" "u128_Ge u x \<longleftrightarrow> u_value x \<le> u_value u"
  "u128_Lt u x \<longleftrightarrow> u_value u < u_value x" "u128_Le u x \<longleftrightarrow> u_value u \<le> u_value x"
  "u128_Eq u x \<longleftrightarrow> u_value u = u_value x" "u128_IsZero u \<longleftrightarrow> u_value u = 0"
  by (auto simp: u128_Gt_def u128_Ge_def u128_Lt_def u128_Le_def u128_Eq_def u128_Cmp_def big_Cmp_def u128_IsZero_def sgn_if)

lemma checkedAmount_iff: "checkedAmount u = Inr a \<longleftrightarrow> a = Amount u \<and> u_value u \<le> max_value"
  by (auto simp: checkedAmount_def)

lemma amt_AddInt_iff:
  assumes "0 \<le> val a" "val a \<le> max_value"
  shows "amt_AddInt a i = Inr c \<longleftrightarrow> 0 \<le> i \<and> val a + i \<le> max_value \<and> c = Amount (Uint128 (val a + i))"
  using assms by (auto simp: amt_AddInt_def u128_AddInt_def u128_checked rbind_eq_Inr checkedAmount_iff valid_u128_def split: if_splits)

lemma amt_Add_iff:
  assumes "0 \<le> val a" "0 \<le> val b"
  shows "amt_Add a b = Inr c \<longleftrightarrow> val a + val b \<le> max_value \<and> c = Amount (Uint128 (val a + val b))"
  using assms by (auto simp: amt_Add_def u128_checked rbind_eq_Inr checkedAmount_iff valid_u128_def split: if_splits)

lemma amt_Sub_iff:
  assumes "val a \<le> max_value" "0 \<le> val b"
  shows "amt_Sub a b = Inr c \<longleftrightarrow> val b \<le> val a \<and> c = Amount (Uint128 (val a - val b))"
  using assms by (auto simp: amt_Sub_def u128_checked rbind_eq_Inr checkedAmount_iff valid_u128_def split: if_splits)

lemma NewAmountFromInt_iff:
  "NewAmountFromInt i = Inr c \<longleftrightarrow> 0 \<le> i \<and> i \<le> max_value \<and> c = Amount (Uint128 i)"
  by (auto simp: NewAmountFromInt_def u128_checked rbind_eq_Inr checkedAmount_iff valid_u128_def split: if_splits)

lemma amt_Cmp_iffs [simp]: "amt_Cmp a b > 0 \<longleftrightarrow> val b < val a" "amt_Cmp a b \<ge> 0 \<longleftrightarrow> val b \<le> val a"
  by (auto simp: amt_Cmp_def u128_Cmp_def big_Cmp_def)

lemma nat_bytes_le: "length (nat_bytes n) \<le> k \<longleftrightarrow> n < 256 ^ k"
proof (induction k arbitrary: n)
  case 0
  then show ?case by (subst nat_bytes.simps) simp
next
  case (Suc k)
  have "n div 256 < 256 ^ k \<longleftrightarrow> n < 256 ^ Suc k" by (simp add: div_less_iff_less_mult mult.commute)
  with Suc [of "n div 256"] show ?case by (subst nat_bytes.simps) simp
qed

lemma le_val_nat_bytes: "le_val (rev (nat_bytes n)) = n"
proof (induction n rule: nat_bytes.induct)
  case (1 n)
  then show ?case by (subst nat_bytes.simps) (simp add: unat_of_nat)
qed

lemma u128_scan_value: "u_value (u128_scan bs) = int (le_val (rev bs))"
  by (induction bs) (simp_all add: NewUint128_def le_val_append)

text \<open>The 16 byte form of a valid number is read back.\<close>

lemma u128_bytes_roundtrip:
  assumes "valid_u128 u"
  shows "\<exists>bs. u128_Bytes u = Inr bs \<and> length bs = Uint128Bytes \<and> NewUint128FromBytes bs = Inr u"
proof -
  let ?b = "nat_bytes (nat (u_value u))"
  have l: "length ?b \<le> 16" using assms by (subst nat_bytes_le) (simp add: valid_u128_def nat_less_iff)
  have v: "u_value (u128_scan (replicate k 0 @ ?b)) = u_value u" for k
    using assms by (simp add: u128_scan_value le_val_append le_val_nat_bytes valid_u128_def)
  have "u128_Bytes u = Inr (replicate (16 - length ?b) 0 @ ?b)"
    using l assms by (auto simp: u128_Bytes_def Let_def Uint128Bytes_def valid_u128_def)
  then show ?thesis using l v
    by (auto simp: NewUint128FromBytes_def Uint128Bytes_def Uint128.expand)
qed

interpretation int_total: checked_sum val max_value "\<lambda>_. True" id amt_AddInt
  by unfold_locales (auto simp: amt_AddInt_iff)

interpretation amt_total: checked_sum val max_value "\<lambda>b. 0 \<le> val b" val amt_Add
  by unfold_locales (auto simp: amt_Add_iff)

section \<open>Amounts a program can hold\<close>

text \<open>What client code can build: the constants, conversions and results of the operations. A \<^verbatim>\<open>Uint128\<close>
  handed to \<^verbatim>\<open>NewAmount\<close> is one that passed \<^verbatim>\<open>Validate\<close>.\<close>

inductive api_amount :: "'f float64 \<Rightarrow> Amount \<Rightarrow> bool" for F where
  zero: "api_amount F ZeroAmount"
| maximum: "api_amount F MaxAmount"
| from_int: "NewAmountFromInt i = Inr a \<Longrightarrow> api_amount F a"
| from_uint: "NewAmountFromUint i = Inr a \<Longrightarrow> api_amount F a"
| from_u128: "Validate u = Inr () \<Longrightarrow> NewAmount u = Inr a \<Longrightarrow> api_amount F a"
| from_skt: "NewAmountFromSkt F f = Inr a \<Longrightarrow> api_amount F a"
| add: "api_amount F a \<Longrightarrow> api_amount F b \<Longrightarrow> amt_Add a b = Inr c \<Longrightarrow> api_amount F c"
| add_int: "api_amount F a \<Longrightarrow> amt_AddInt a i = Inr c \<Longrightarrow> api_amount F c"
| sub: "api_amount F a \<Longrightarrow> api_amount F b \<Longrightarrow> amt_Sub a b = Inr c \<Longrightarrow> api_amount F c"
| mul: "api_amount F a \<Longrightarrow> amt_MulF64 F a f = Inr c \<Longrightarrow> api_amount F c"

lemma amt_round_range:
  assumes "amt_round F x = Inr a"
  shows "0 \<le> val a \<and> val a \<le> max_value"
proof -
  obtain i where "NewAmountFromInt i = Inr a" using assms by (auto simp: amt_round_def NewAmountFromInt_def Let_def)
  then show ?thesis by (auto simp: NewAmountFromInt_iff)
qed

lemma api_amount_range: "api_amount F a \<Longrightarrow> 0 \<le> val a \<and> val a \<le> max_value"
proof (induction rule: api_amount.induct)
  case (from_u128 u a)
  then show ?case by (auto simp: NewAmount_def checkedAmount_iff Validate_iff valid_u128_def)
next
  case (from_skt f a)
  then show ?case by (intro amt_round_range) (simp add: NewAmountFromSkt_def split: if_splits)
next
  case (mul a f c)
  then obtain x where "amt_round F x = Inr c" by (auto simp: amt_MulF64_def rbind_eq_Inr split: if_splits)
  then show ?case by (rule amt_round_range)
qed (auto simp: NewAmountFromInt_iff NewAmountFromUint_def NewUint128FromUint_def NewAmount_def checkedAmount_iff
    amt_Add_iff amt_AddInt_iff amt_Sub_iff)

text \<open>C35. Amounts are a closed type. Every amount that the constructors and operations of \<^verbatim>\<open>Amount\<close> can
  produce, in any order and number (the constants, \<^verbatim>\<open>NewAmountFromInt\<close>, \<^verbatim>\<open>NewAmountFromUint\<close>, \<^verbatim>\<open>NewAmountFromSkt\<close>, \<^verbatim>\<open>NewAmount\<close> on a validated \<^verbatim>\<open>Uint128\<close>, \<^verbatim>\<open>Add\<close>,
  \<^verbatim>\<open>AddInt\<close>, \<^verbatim>\<open>Sub\<close>, \<^verbatim>\<open>MulF64\<close>; not the setters for tests), is between zero and the total supply, whatever the floating point operations
  return; converting it to \<^verbatim>\<open>int64\<close> or \<^verbatim>\<open>uint64\<close> does not panic and loses nothing; and adding two amounts succeeds exactly when their sum is
  within the supply, subtracting exactly when the result is not negative, with the exact result.\<close>

theorem amount_closed:
  assumes "api_amount F a" "api_amount F b"
  shows "0 \<le> val a \<and> val a \<le> val MaxAmount \<and> amt_IntValue a = Inr (val a) \<and>
    (\<exists>n. amt_UintValue a = Inr n \<and> uint n = val a) \<and>
    amt_Add a b = (if val a + val b \<le> val MaxAmount then Inr (Amount (Uint128 (val a + val b))) else Inl ErrMaxAmount) \<and>
    amt_Sub a b = (if val b \<le> val a then Inr (Amount (Uint128 (val a - val b))) else Inl ErrUint128Underflow)"
proof -
  have r: "0 \<le> val a" "val a \<le> max_value" "0 \<le> val b" "val b \<le> max_value" using api_amount_range assms by auto
  have "amt_IntValue a = Inr (val a)"
    using r by (simp add: amt_IntValue_def u128_IntValue_def maxInt64_def NewUint128FromUint_def i64_id)
  moreover have "amt_UintValue a = Inr (word_of_int (val a))" "uint (word_of_int (val a) :: u64) = val a"
    using r by (simp_all add: amt_UintValue_def u128_UintValue_def maxUint64_def NewUint128FromUint_def
        uint_word_of_int take_bit_eq_mod)
  moreover have "amt_Add a b = (if val a + val b \<le> max_value then Inr (Amount (Uint128 (val a + val b))) else Inl ErrMaxAmount)"
    using r by (simp add: amt_Add_def u128_checked checkedAmount_def valid_u128_def)
  moreover have "amt_Sub a b = (if val b \<le> val a then Inr (Amount (Uint128 (val a - val b))) else Inl ErrUint128Underflow)"
    using r by (simp add: amt_Sub_def u128_checked checkedAmount_def valid_u128_def)
  ultimately show ?thesis using r by auto
qed

text \<open>Exact arithmetic on multiples of one half in place of \<^verbatim>\<open>float64\<close>, to evaluate the definitions: \<open>x\<close> stands for \<open>x / 2\<close>.\<close>

definition half_float :: "int float64" where
  "half_float = \<lparr>f_IsNaN = (\<lambda>_. False), f_IsPosInf = (\<lambda>_. False), f_IsNegInf = (\<lambda>_. False), f_negative = (\<lambda>x. x < 0),
     f_minus_half = (\<lambda>x. x - 1), f_plus_half = (\<lambda>x. x + 1), f_mult = (\<lambda>x y. x * y div 2), f_of_uint64 = (\<lambda>n. 2 * uint n),
     f_trunc = (\<lambda>x. if x < 0 then - (- x div 2) else x div 2)\<rparr>"

theorem amount_closed_witness:
  "\<exists>a. NewAmountFromSkt half_float 3 = Inr a \<and> amt_IntValue a = Inr 150000000 \<and> val a \<le> val MaxAmount \<and>
     amt_Sub ZeroAmount a = Inl ErrUint128Underflow"
proof -
  define a where "a = Amount (Uint128 150000000)"
  have "NewAmountFromInt 150000000 = Inr a" by (simp add: NewAmountFromInt_iff a_def)
  then have 1: "NewAmountFromSkt half_float 3 = Inr a"
    by (simp add: NewAmountFromSkt_def amt_round_def half_float_def SukhavatiPerSkt_def NewAmountFromInt_def i64_id)
  have "api_amount half_float a" by (rule api_amount.from_skt [OF 1])
  then show ?thesis
    using amount_closed [of half_float ZeroAmount a] amount_closed [of half_float a a] 1 by (auto simp: api_amount.zero a_def)
qed

end
