(* ===== verification/Subsidy.thy ===== *)
theory Subsidy
  imports Amount
begin

text \<open>
  The block reward (\<^verbatim>\<open>src/blockchain/validate.go\<close>): the subsidy of a height, its split between miner,
  pool and senate, and how much the schedule issues over time.
\<close>

section \<open>Definitions\<close>

definition SubsidyHalvingInterval :: u64 where "SubsidyHalvingInterval = 13440"
definition BaseSubsidy :: u64 where "BaseSubsidy = 128 * SukhavatiPerSkt"
definition MinHalvedSubsidy :: u64 where "MinHalvedSubsidy = 6250000"
definition MiningMaxSkt :: u64 where "MiningMaxSkt = 381945005"
definition CoinbaseSubsidyAttenuation :: int where "CoinbaseSubsidyAttenuation = 94162"
definition CoinbaseSubsidyAttenuationDenominator :: int where "CoinbaseSubsidyAttenuationDenominator = 100000"

definition baseSubsidy :: Uint128 where "baseSubsidy = NewUint128FromUint BaseSubsidy"
definition minHalvedSubsidy :: Uint128 where "minHalvedSubsidy = NewUint128FromUint MinHalvedSubsidy"

text \<open>The table of \<^verbatim>\<open>consensus.BindingRequiredSkt\<close>, converted to base units as \<^verbatim>\<open>init\<close> does.\<close>

definition bindingRequiredAmount :: "int \<Rightarrow> Amount option" where
  "bindingRequiredAmount k = map_option (\<lambda>v. Amount (Uint128 v))
     (map_of [(24, 614400), (26, 2662400), (28, 11200000), (30, 48000000), (32, 204800000), (34, 870400000),
        (36, 3686400000), (38, 15200000000), (40, 64000000000)] k)"

definition bitLengthMissing :: int where "bitLengthMissing = -1"

definition calBlockSubsidy :: "Uint128 \<Rightarrow> bool \<Rightarrow> bool \<Rightarrow> (Amount \<times> Amount) chain_res" where
  "calBlockSubsidy subsidy hasValidBinding hasSuperNode =
     rbind (if \<not> hasSuperNode \<and> \<not> hasValidBinding
            then rbind (u128_MulInt subsidy 1875) (\<lambda>temp. rbind (u128_DivInt temp 10000) (\<lambda>miner. Inr (miner, NewUint128)))
            else if \<not> hasSuperNode \<and> hasValidBinding
            then rbind (u128_MulInt subsidy 8125) (\<lambda>temp. rbind (u128_DivInt temp 10000) (\<lambda>miner. Inr (miner, NewUint128)))
            else if hasSuperNode \<and> \<not> hasValidBinding
            then rbind (u128_MulInt subsidy 1875) (\<lambda>temp. rbind (u128_DivInt temp 10000) (\<lambda>miner.
                 rbind (u128_Sub subsidy miner) (\<lambda>superNode. Inr (miner, superNode))))
            else rbind (u128_MulInt subsidy 8125) (\<lambda>temp. rbind (u128_DivInt temp 10000) (\<lambda>miner.
                 rbind (u128_Sub subsidy miner) (\<lambda>superNode. Inr (miner, superNode))))) (\<lambda>(miner, superNode).
     rbind (NewAmount miner) (\<lambda>m. rbind (NewAmount superNode) (\<lambda>sn. Inr (m, sn))))"

definition calcSktBlockSubsidy :: "Uint128 \<Rightarrow> bool \<Rightarrow> (Amount \<times> Amount \<times> Amount) chain_res" where
  "calcSktBlockSubsidy subsidy hasValidBinding =
     (if u128_IsZero subsidy then Inr (ZeroAmount, ZeroAmount, ZeroAmount)
      else rbind (if \<not> hasValidBinding
                  then rbind (u128_MulInt subsidy 6930) (\<lambda>temp. rbind (u128_DivInt temp 10000) (\<lambda>pool. Inr (NewUint128, pool)))
                  else rbind (u128_MulInt subsidy 6930) (\<lambda>temp. rbind (u128_DivInt temp 10000) (\<lambda>temp.
                       rbind (u128_Add NewUint128 temp) (\<lambda>miner. Inr (miner, NewUint128))))) (\<lambda>(miner, pool).
        rbind (u128_MulInt subsidy 2000) (\<lambda>temp. rbind (u128_DivInt temp 10000) (\<lambda>temp.
        rbind (u128_Add pool temp) (\<lambda>pool.
        rbind (u128_MulInt subsidy 70) (\<lambda>temp. rbind (u128_DivInt temp 10000) (\<lambda>temp.
        rbind (u128_Add miner temp) (\<lambda>miner.
        rbind (u128_MulInt subsidy 1000) (\<lambda>temp. rbind (u128_DivInt temp 10000) (\<lambda>senate.
        rbind (NewAmount miner) (\<lambda>m. rbind (NewAmount pool) (\<lambda>p. rbind (NewAmount senate) (\<lambda>s.
        Inr (m, p, s))))))))))))))"

lemma unat_half: "unat (drop_bit 1 (t :: u64)) = unat t div 2"
proof -
  have "unat t < 2 ^ 64" using unsigned_less [of t] by simp
  then have "take_bit 64 (unat t) = unat t" by (rule take_bit_nat_eq_self)
  then have "drop_bit 1 (take_bit LENGTH(64) (unat t)) = unat t div 2" by (simp add: drop_bit_eq_div)
  then show ?thesis by (simp only: unsigned_drop_bit_eq)
qed

text \<open>The loop of \<^verbatim>\<open>CalcCoinbaseSubsidy\<close>: one attenuation for every binary digit of \<^verbatim>\<open>t\<close> after the first.\<close>

function subsidy_loop :: "u64 \<Rightarrow> Uint128 \<Rightarrow> Uint128 chain_res" where
  "subsidy_loop t subsidy =
     (let t = drop_bit 1 t in
      if t \<noteq> 0
      then rbind (u128_MulInt subsidy CoinbaseSubsidyAttenuation) (\<lambda>temp.
           rbind (u128_DivInt temp CoinbaseSubsidyAttenuationDenominator) (\<lambda>subsidy.
           if u128_Lt subsidy minHalvedSubsidy then Inr NewUint128 else subsidy_loop t subsidy))
      else Inr subsidy)"
  by auto
termination
proof (relation "measure (\<lambda>(t, _). unat t)")
  fix t t' :: u64
  assume "t' = drop_bit 1 t" "t' \<noteq> 0"
  then have "unat t' = unat t div 2" "unat t' \<noteq> 0" using unat_half [of t] by (simp, metis unat_eq_zero)
  then show "((t', s), (t, u)) \<in> measure (\<lambda>(t, _). unat t)" for s u :: Uint128 by simp
qed simp

declare subsidy_loop.simps [simp del]

definition CalcCoinbaseSubsidy :: "u64 \<Rightarrow> u64 \<Rightarrow> Uint128 chain_res" where
  "CalcCoinbaseSubsidy subsidyHalvingInterval height =
     (if height < 1 \<or> subsidyHalvingInterval \<le> 0 then Inr baseSubsidy
      else subsidy_loop ((height - 1) div SubsidyHalvingInterval + 1) baseSubsidy)"

definition CalcBlockSubsidy :: "u64 \<Rightarrow> u64 \<Rightarrow> Amount \<Rightarrow> int \<Rightarrow> (Amount \<times> Amount \<times> Amount) chain_res" where
  "CalcBlockSubsidy height params_interval totalBinding bitLength =
     (let interval = (if params_interval = 0 then 0 else SubsidyHalvingInterval) in
      case CalcCoinbaseSubsidy interval height of
        Inl _ \<Rightarrow> Inr (ZeroAmount, ZeroAmount, ZeroAmount)
      | Inr subsidy \<Rightarrow>
          if u128_IsZero subsidy then Inr (ZeroAmount, ZeroAmount, ZeroAmount)
          else calcSktBlockSubsidy subsidy
            (case bindingRequiredAmount bitLength of None \<Rightarrow> False
             | Some valueRequired \<Rightarrow> amt_Cmp totalBinding valueRequired \<ge> 0))"

function rsh_loop :: "u64 \<Rightarrow> nat \<Rightarrow> nat" where
  "rsh_loop t i = (let t = drop_bit 1 t in if t \<noteq> 0 then rsh_loop t (i + 1) else i)"
  by auto
termination
proof (relation "measure (\<lambda>(t, _). unat t)")
  fix t t' :: u64 and i :: nat
  assume "t' = drop_bit 1 t" "t' \<noteq> 0"
  then have "unat t' = unat t div 2" "unat t' \<noteq> 0" using unat_half [of t] by (simp, metis unat_eq_zero)
  then show "((t', i + 1), (t, i)) \<in> measure (\<lambda>(t, _). unat t)" by simp
qed simp

declare rsh_loop.simps [simp del]

definition calcRshNum :: "u64 \<Rightarrow> nat" where
  "calcRshNum height = rsh_loop ((height - 1) div SubsidyHalvingInterval + 1) 0"

definition GetFeeAfterBurnGas :: "Amount \<Rightarrow> Amount chain_res" where
  "GetFeeAfterBurnGas fees = NewAmount (a_value fees)"

section \<open>The schedule\<close>

text \<open>The subsidy after \<open>k\<close> attenuations.\<close>

primrec lev :: "nat \<Rightarrow> int" where
  "lev 0 = 12800000000"
| "lev (Suc k) = lev k * 94162 div 100000"

lemma lev_mono: "lev (Suc k) \<le> lev k \<and> 0 \<le> lev k"
  by (induction k) (auto simp: div_le_dividend zdiv_mono1 pos_imp_zdiv_nonneg_iff)

lemma lev_antimono: "j \<le> k \<Longrightarrow> lev k \<le> lev j"
  by (rule lift_Suc_antimono_le) (use lev_mono in auto)

lemma lev_50: "6250000 \<le> lev 50"
  by code_simp

lemma lev_range: "k \<le> 50 \<Longrightarrow> 6250000 \<le> lev k" "lev k \<le> 12800000000" "0 \<le> lev k"
  using lev_antimono [of k 50] lev_50 lev_antimono [of 0 k] lev_mono [of k] by auto

lemma MulInt_small: "0 \<le> v \<Longrightarrow> v < 2 ^ 64 \<Longrightarrow> 0 \<le> i \<Longrightarrow> i < 2 ^ 63 \<Longrightarrow> u128_MulInt (Uint128 v) i = Inr (Uint128 (v * i))"
  using mult_strict_mono' [of v "2 ^ 64" i "2 ^ 63"]
  by (simp add: u128_MulInt_def u128_checked valid_u128_def)

lemma DivInt_small:
  assumes "0 \<le> v" "v < 2 ^ 128" "0 < i" "i < 2 ^ 63"
  shows "u128_DivInt (Uint128 v) i = Inr (Uint128 (v div i))"
proof -
  have "v div i \<le> v div 1" using assms by (intro zdiv_mono2) auto
  then have "valid_u128 (Uint128 (v div i))" using assms by (simp add: valid_u128_def pos_imp_zdiv_nonneg_iff)
  then show ?thesis using assms by (simp add: u128_DivInt_def u128_checked big_Div_def valid_u128_def)
qed

lemma subsidy_loop_lev:
  "unat t \<noteq> 0 \<Longrightarrow> i + (nat_bitlen (unat t) - 1) \<le> 50 \<Longrightarrow>
     subsidy_loop t (Uint128 (lev i)) = Inr (Uint128 (lev (i + (nat_bitlen (unat t) - 1))))"
proof (induction "unat t" arbitrary: t i rule: less_induct)
  case less
  let ?t = "drop_bit 1 t"
  have h: "unat ?t = unat t div 2" by (rule unat_half)
  have b: "nat_bitlen (unat t) = Suc (nat_bitlen (unat ?t))"
    using less.prems(1) h by (subst nat_bitlen.simps) simp
  show ?case
  proof (cases "?t = 0")
    case True
    then have "nat_bitlen (unat ?t) = 0" by (subst nat_bitlen.simps) simp
    then show ?thesis using True b by (subst subsidy_loop.simps) simp
  next
    case False
    then have nz: "unat ?t \<noteq> 0" by (metis unat_eq_zero)
    then have pos: "nat_bitlen (unat ?t) > 0" by (subst nat_bitlen.simps) simp
    have r: "6250000 \<le> lev (Suc i)" using lev_range(1) [of "Suc i"] less.prems(2) b pos by simp
    have m: "u128_MulInt (Uint128 (lev i)) CoinbaseSubsidyAttenuation = Inr (Uint128 (lev i * 94162))"
      using lev_range(2,3) [of i] unfolding CoinbaseSubsidyAttenuation_def by (intro MulInt_small) auto
    have d: "u128_DivInt (Uint128 (lev i * 94162)) CoinbaseSubsidyAttenuationDenominator = Inr (Uint128 (lev (Suc i)))"
      using lev_range(2,3) [of i] DivInt_small [of "lev i * 94162" 100000]
      by (simp add: CoinbaseSubsidyAttenuationDenominator_def)
    have lt: "\<not> u128_Lt (Uint128 (lev (Suc i))) minHalvedSubsidy"
      using r by (simp add: minHalvedSubsidy_def NewUint128FromUint_def MinHalvedSubsidy_def del: lev.simps)
    have "subsidy_loop t (Uint128 (lev i)) = subsidy_loop ?t (Uint128 (lev (Suc i)))"
      using False lt by (subst subsidy_loop.simps) (simp only: Let_def m d rbind_Inr if_True if_False simp_thms)
    also have "\<dots> = Inr (Uint128 (lev (Suc i + (nat_bitlen (unat ?t) - 1))))"
      using less.prems b pos h nz by (intro less.hyps) auto
    also have "Suc i + (nat_bitlen (unat ?t) - 1) = i + (nat_bitlen (unat t) - 1)" using b pos by simp
    finally show ?thesis .
  qed
qed

text \<open>The number of attenuations at a height.\<close>

definition epoch :: "nat \<Rightarrow> nat" where
  "epoch h = nat_bitlen ((h - 1) div 13440 + 1) - 1"

lemma bitlen_epoch: "2 ^ k \<le> n \<Longrightarrow> n < 2 ^ Suc k \<Longrightarrow> nat_bitlen n = Suc k"
  using nat_bitlen_le [of n k] nat_bitlen_le [of n "Suc k"] by linarith

lemma subsidy_at:
  assumes "0 < h" "h < 2 ^ 64"
  shows "CalcCoinbaseSubsidy SubsidyHalvingInterval (of_nat h) = Inr (Uint128 (lev (epoch h))) \<and> epoch h \<le> 50"
proof -
  let ?t = "((of_nat h - 1) div SubsidyHalvingInterval + 1) :: u64" and ?n = "(h - 1) div 13440 + 1"
  have n: "?n < 2 ^ 51" using assms by simp
  have "of_nat h - 1 = (of_nat (h - 1) :: u64)" using assms by simp
  moreover have "unat (of_nat (h - 1) :: u64) = h - 1" using assms by (subst unat_of_nat) simp
  ultimately have "unat ((of_nat h - 1 :: u64) div SubsidyHalvingInterval) = (h - 1) div 13440"
    by (simp add: unat_div SubsidyHalvingInterval_def)
  then have "unat ?t = ?n" using n by (subst unat_add_lem [THEN iffD1]) auto
  then have t: "unat ?t = ?n" .
  have "nat_bitlen ?n \<le> 51" using n by (simp add: nat_bitlen_le)
  then have e: "epoch h \<le> 50" by (simp add: epoch_def)
  have base: "baseSubsidy = Uint128 (lev 0)"
    by (simp add: baseSubsidy_def NewUint128FromUint_def BaseSubsidy_def SukhavatiPerSkt_def)
  have "subsidy_loop ?t (Uint128 (lev 0)) = Inr (Uint128 (lev (epoch h)))"
    using subsidy_loop_lev [of ?t 0] t e by (simp add: epoch_def)
  moreover have "\<not> (of_nat h < (1 :: u64))" using assms by (simp add: word_less_nat_alt unat_of_nat)
  ultimately show ?thesis using e
    by (simp add: CalcCoinbaseSubsidy_def base SubsidyHalvingInterval_def del: lev.simps)
qed

section \<open>The split\<close>

lemma floor_parts:
  fixes v :: int
  assumes "0 \<le> v"
  shows "v - 3 \<le> v * 6930 div 10000 + v * 2000 div 10000 + v * 70 div 10000 + v * 1000 div 10000"
    "v * 6930 div 10000 + v * 2000 div 10000 + v * 70 div 10000 + v * 1000 div 10000 \<le> v"
    "0 \<le> v * 6930 div 10000" "0 \<le> v * 2000 div 10000" "0 \<le> v * 70 div 10000" "0 \<le> v * 1000 div 10000"
proof -
  have d: "v * c = 10000 * (v * c div 10000) + v * c mod 10000" "0 \<le> v * c mod 10000" "v * c mod 10000 < 10000" for c
    by simp_all
  note d' = d [of 6930] d [of 2000] d [of 70] d [of 1000]
  show "v - 3 \<le> v * 6930 div 10000 + v * 2000 div 10000 + v * 70 div 10000 + v * 1000 div 10000" using d' by linarith
  show "v * 6930 div 10000 + v * 2000 div 10000 + v * 70 div 10000 + v * 1000 div 10000 \<le> v" using d' by linarith
qed (use assms in \<open>simp_all add: pos_imp_zdiv_nonneg_iff\<close>)

lemma share_of:
  assumes "0 \<le> v" "v \<le> 12800000000" "0 \<le> c" "c < 10000"
  shows "rbind (u128_MulInt (Uint128 v) c) (\<lambda>temp. rbind (u128_DivInt temp 10000) f) = f (Uint128 (v * c div 10000))"
proof -
  have "v * c < 2 ^ 128" using mult_mono [of v 12800000000 c 10000] assms by simp
  then show ?thesis using assms by (simp add: MulInt_small DivInt_small)
qed

lemma u128_Add_small: "0 \<le> x \<Longrightarrow> 0 \<le> y \<Longrightarrow> x + y < 2 ^ 128 \<Longrightarrow> u128_Add (Uint128 x) (Uint128 y) = Inr (Uint128 (x + y))"
  by (simp add: u128_checked valid_u128_def)

lemma NewAmount_small: "x \<le> max_value \<Longrightarrow> NewAmount (Uint128 x) = Inr (Amount (Uint128 x))"
  by (simp add: NewAmount_def checkedAmount_iff)

lemma calcSkt_split:
  assumes "0 < v" "v \<le> 12800000000"
  shows "\<exists>m p s. calcSktBlockSubsidy (Uint128 v) b = Inr (m, p, s) \<and> 0 \<le> val m \<and> 0 \<le> val p \<and> 0 \<le> val s \<and>
    val m + val p + val s \<le> v \<and> v - 3 \<le> val m + val p + val s"
  using assms floor_parts [of v]
  by (cases b) (simp_all add: calcSktBlockSubsidy_def share_of NewUint128_def u128_Add_small NewAmount_small)

lemma reward_at:
  assumes "0 < h" "h < 2 ^ 64"
  shows "\<exists>m p s. CalcBlockSubsidy (of_nat h) pi tb bl = Inr (m, p, s) \<and> lev (epoch h) - 3 \<le> val m + val p + val s"
proof -
  have base: "baseSubsidy = Uint128 12800000000"
    by (simp add: baseSubsidy_def NewUint128FromUint_def BaseSubsidy_def SukhavatiPerSkt_def)
  have l: "6250000 \<le> lev (epoch h)" "lev (epoch h) \<le> 12800000000"
    using subsidy_at [OF assms] lev_range [of "epoch h"] by auto
  obtain v where v: "CalcCoinbaseSubsidy (if pi = 0 then 0 else SubsidyHalvingInterval) (of_nat h) = Inr (Uint128 v)"
    "lev (epoch h) \<le> v" "v \<le> 12800000000"
    using subsidy_at [OF assms] l by (cases "pi = 0") (auto simp: CalcCoinbaseSubsidy_def base)
  then show ?thesis
    using l calcSkt_split [of v "case bindingRequiredAmount bl of None \<Rightarrow> False | Some r \<Rightarrow> 0 \<le> amt_Cmp tb r"]
    by (fastforce simp: CalcBlockSubsidy_def Let_def)
qed

section \<open>Total emission\<close>

lemma epoch_const:
  assumes "13440 * (2 ^ n - 1) < h" "h \<le> 13440 * (2 ^ Suc n - 1)"
  shows "epoch h = n"
proof -
  have p: "(1 :: nat) \<le> 2 ^ n" by simp
  then have "(2 ^ n - 1) * 13440 \<le> h - 1" "h - 1 < (2 ^ Suc n - 1) * 13440" using assms by linarith+
  then have "2 ^ n - 1 \<le> (h - 1) div 13440" "(h - 1) div 13440 < 2 ^ Suc n - 1"
    by (simp_all only: less_eq_div_iff_mult_less_eq div_less_iff_less_mult zero_less_numeral)
  then have "2 ^ n \<le> (h - 1) div 13440 + 1" "(h - 1) div 13440 + 1 < 2 ^ Suc n" using p by linarith+
  then show ?thesis by (simp add: epoch_def bitlen_epoch)
qed

lemma emission_epochs:
  "(\<Sum>h = 1..13440 * (2 ^ n - 1). lev (epoch h) - 3) = (\<Sum>k<n. 13440 * 2 ^ k * (lev k - 3))"
proof (induction n)
  case (Suc n)
  let ?a = "13440 * (2 ^ n - 1) :: nat" and ?b = "13440 * (2 ^ Suc n - 1) :: nat"
  have "{1..?b} = {1..?a} \<union> {Suc ?a..?b}" "{1..?a} \<inter> {Suc ?a..?b} = {}" by auto
  then have "(\<Sum>h = 1..?b. lev (epoch h) - 3) = (\<Sum>h = 1..?a. lev (epoch h) - 3) + (\<Sum>h = Suc ?a..?b. lev (epoch h) - 3)"
    by (simp add: sum.union_disjoint)
  also have "(\<Sum>h = Suc ?a..?b. lev (epoch h) - 3) = (\<Sum>h = Suc ?a..?b. lev n - 3)"
    by (intro sum.cong refl, subst epoch_const [of n]) auto
  also have "\<dots> = 13440 * 2 ^ n * (lev n - 3)" by (simp add: algebra_simps of_nat_diff)
  finally show ?case using Suc.IH by simp
qed simp

lemma subsidy_value:
  "\<exists>u. CalcCoinbaseSubsidy (if pi = 0 then 0 else SubsidyHalvingInterval) height = Inr u \<and>
     6250000 \<le> u_value u \<and> u_value u \<le> 12800000000"
proof (cases "height = 0 \<or> pi = 0")
  case True
  then show ?thesis
    by (auto simp: CalcCoinbaseSubsidy_def baseSubsidy_def NewUint128FromUint_def BaseSubsidy_def SukhavatiPerSkt_def)
next
  case False
  then have h: "0 < unat height" "unat height < 2 ^ 64" using unsigned_less [of height] by (simp_all add: unat_gt_0)
  show ?thesis using subsidy_at [OF h] lev_range [of "epoch (unat height)"] False by auto
qed

lemma subsidy_split:
  "\<exists>u m p s. CalcCoinbaseSubsidy (if pi = 0 then 0 else SubsidyHalvingInterval) height = Inr u \<and>
     CalcBlockSubsidy height pi totalBinding bitLength = Inr (m, p, s) \<and>
     6250000 \<le> u_value u \<and> u_value u \<le> 12800000000 \<and> 0 \<le> val m \<and> 0 \<le> val p \<and> 0 \<le> val s \<and>
     val m + val p + val s \<le> u_value u \<and> u_value u \<le> val m + val p + val s + 3"
proof -
  obtain v where v: "CalcCoinbaseSubsidy (if pi = 0 then 0 else SubsidyHalvingInterval) height = Inr (Uint128 v)"
    "6250000 \<le> v" "v \<le> 12800000000"
    using subsidy_value [of pi height] by (metis Uint128.collapse)
  then show ?thesis
    using calcSkt_split [of v "case bindingRequiredAmount bitLength of None \<Rightarrow> False | Some r \<Rightarrow> 0 \<le> amt_Cmp totalBinding r"]
    by (auto simp: CalcBlockSubsidy_def Let_def)
qed

text \<open>C36. The reward of a block is at most the subsidy of its height: at every height, for every
  binding and bit length, the computation succeeds, the subsidy is between the minimum of 6250000 and
  the base of 128 Skt, and the shares of miner, pool and senate are not negative and add up to the
  subsidy less at most three base units lost to rounding. (A share of 192 Skt, which \<^verbatim>\<open>TestCalcBlockSubsidy\<close> expects at height 13440, is
  above that bound.)\<close>

theorem block_subsidy_split:
  "\<exists>u m p s. CalcCoinbaseSubsidy (if pi = 0 then 0 else SubsidyHalvingInterval) height = Inr u \<and>
     CalcBlockSubsidy height pi totalBinding bitLength = Inr (m, p, s) \<and>
     uint MinHalvedSubsidy \<le> u_value u \<and> u_value u \<le> uint BaseSubsidy \<and> 0 \<le> val m \<and> 0 \<le> val p \<and> 0 \<le> val s \<and>
     val m + val p + val s \<le> u_value u \<and> u_value u \<le> val m + val p + val s + 3"
  using subsidy_split [of pi height totalBinding bitLength] by (simp add: MinHalvedSubsidy_def BaseSubsidy_def SukhavatiPerSkt_def)

definition block_reward :: "u64 \<Rightarrow> u64 \<Rightarrow> Amount \<Rightarrow> int \<Rightarrow> int" where
  "block_reward height pi tb bl = (case CalcBlockSubsidy height pi tb bl of Inr (m, p, s) \<Rightarrow> val m + val p + val s | Inl _ \<Rightarrow> 0)"

text \<open>C37. The schedule issues more than the amount reserved for mining: whatever the miners bind, the
  rewards of the first 6867840 blocks add up to more than \<^verbatim>\<open>defaultMiningMaxSkt\<close>. The attenuation is
  applied once per doubling of the number of elapsed intervals, not once per interval, and no check
  stops the emission at the cap.\<close>

theorem emission_exceeds_mining_cap:
  "uint MiningMaxSkt * uint SukhavatiPerSkt < (\<Sum>h = 1..6867840. block_reward (of_nat h) pi (binding h) (bits h))"
proof -
  have r: "lev (epoch h) - 3 \<le> block_reward (of_nat h) pi (binding h) (bits h)" if "h \<in> {1..6867840}" for h
    using reward_at [of h pi "binding h" "bits h"] that by (auto simp: block_reward_def)
  have "(38194500500000000 :: int) < (\<Sum>k<9. 13440 * 2 ^ k * (lev k - 3))" by code_simp
  also have "\<dots> = (\<Sum>h = 1..6867840. lev (epoch h) - 3)" using emission_epochs [of 9] by simp
  also have "\<dots> \<le> (\<Sum>h = 1..6867840. block_reward (of_nat h) pi (binding h) (bits h))" by (intro sum_mono r)
  finally show ?thesis by (simp add: MiningMaxSkt_def SukhavatiPerSkt_def)
qed

end
