(* ===== verification/Script_Standard.thy ===== *)
theory Script_Standard
  imports Script_Builder Wire_Tx
begin

text \<open>
  Standard scripts (\<^verbatim>\<open>src/txscript/standard.go\<close>): the classes of output scripts, the data they carry,
  the constructors of output scripts, and multi-signature redeem scripts. What a constructor builds is
  recognised as the class it was built for, with the data it was built from.
\<close>

section \<open>Model\<close>

datatype ScriptClass =
    NonStandardTy
  | WitnessV0ScriptHashTy
  | StakingScriptHashTy
  | BindingScriptHashTy
  | MultiSigTy
  | NullDataTy
  | PoolingScriptHashTy
  | AwardingScriptHashTy
  | GoverningScriptHashTy

definition isMultiSig :: "parsedOpcode list \<Rightarrow> bool" where
  "isMultiSig pops =
     (let l = length pops in
      if l < 4 then False
      else if \<not> isSmallInt (pop_opcode (pops ! 0)) then False
      else if \<not> isSmallInt (pop_opcode (pops ! (l - 2))) then False
      else if pop_value (pops ! (l - 1)) \<noteq> OP_CHECKMULTISIG then False
      else if int (l - 2 - 1) \<noteq> asSmallInt (pop_opcode (pops ! (l - 2))) then False
      else list_all (\<lambda>pop. length (pop_data pop) = 33 \<or> length (pop_data pop) = 65) (drop 1 (take (l - 2) pops)))"

definition isNullData :: "parsedOpcode list \<Rightarrow> bool" where
  "isNullData pops =
     (let l = length pops in
      if l = 1 \<and> pop_value (pops ! 0) = OP_RETURN then True
      else l = 2 \<and> pop_value (pops ! 0) = OP_RETURN \<and> pop_value (pops ! 1) \<le> OP_PUSHDATA4 \<and>
        length (pop_data (pops ! 1)) \<le> MaxDataCarrierSize)"

definition typeOfScript :: "parsedOpcode list \<Rightarrow> ScriptClass" where
  "typeOfScript pops =
     (if isWitnessScriptHash pops then WitnessV0ScriptHashTy
      else if isWitnessStakingScript pops then StakingScriptHashTy
      else if isWitnessBindingScript pops then BindingScriptHashTy
      else if isMultiSig pops then MultiSigTy
      else if isNullData pops then NullDataTy
      else if isWitnessPoolingScript pops then PoolingScriptHashTy
      else if isWitnessAwardingScript pops then AwardingScriptHashTy
      else if isWitnessGoverningScript pops then GoverningScriptHashTy
      else NonStandardTy)"

definition GetScriptClass :: "bytes \<Rightarrow> ScriptClass" where
  "GetScriptClass script =
     (case parseScript script of (_, Some _) \<Rightarrow> NonStandardTy | (pops, None) \<Rightarrow> typeOfScript pops)"

definition GetScriptInfo :: "bytes \<Rightarrow> ScriptClass \<times> parsedOpcode list" where
  "GetScriptInfo script =
     (case parseScript script of (_, Some _) \<Rightarrow> (NonStandardTy, []) | (pops, None) \<Rightarrow> (typeOfScript pops, pops))"

text \<open>Index and \<^verbatim>\<open>binary.LittleEndian\<close> reads, which panic when the slice is too short.\<close>

definition data_at :: "parsedOpcode list \<Rightarrow> nat \<Rightarrow> bytes res" where
  "data_at pops i = (if i < length pops then Inr (pop_data (pops ! i)) else Inl GoPanic)"

definition read_u16 :: "bytes \<Rightarrow> u16 res" where
  "read_u16 d = (if length d < 2 then Inl GoPanic else Inr (of_nat (le_val (take 2 d))))"

definition read_u64 :: "bytes \<Rightarrow> u64 res" where
  "read_u64 d = (if length d < 8 then Inl GoPanic else Inr (of_nat (le_val (take 8 d))))"

definition GetParsedOpcode :: "parsedOpcode list \<Rightarrow> ScriptClass \<Rightarrow> (u64 \<times> hash \<times> u16) res" where
  "GetParsedOpcode pops class =
     (if class \<in> {NonStandardTy, MultiSigTy, NullDataTy} then Inl (ErrorText ''invalid script hash type'')
      else rbind (data_at pops 1) (\<lambda>scriptHash.
        if length scriptHash \<noteq> WitnessV0ScriptHashDataSize then Inl ErrWitnessProgramLength
        else case class of
          StakingScriptHashTy \<Rightarrow> rbind (data_at pops 2) (\<lambda>d. rbind (read_u64 d) (\<lambda>height. Inr (height, scriptHash, 0)))
        | BindingScriptHashTy \<Rightarrow> rbind (data_at pops 2) (\<lambda>d.
            if length d \<noteq> WitnessV0PoCPubKeyHashDataSize then Inl ErrWitnessExtProgramLength
            else Inr (172800, scriptHash, 0))
        | GoverningScriptHashTy \<Rightarrow> Inr (0, replicate 32 0, 0)
        | PoolingScriptHashTy \<Rightarrow> rbind (data_at pops 2) (\<lambda>d.
            if length d \<noteq> WitnessV0PoolTypeDataSize then Inl ErrWitnessProgramLength
            else rbind (read_u16 d) (\<lambda>subClass. Inr (0, scriptHash, subClass)))
        | AwardingScriptHashTy \<Rightarrow> rbind (data_at pops 2) (\<lambda>d.
            if length d \<noteq> WitnessV0PoolTypeDataSize then Inl ErrWitnessProgramLength
            else rbind (read_u16 d) (\<lambda>subClass. rbind (data_at pops 3) (\<lambda>d3. rbind (read_u64 d3) (\<lambda>height.
              Inr (height, scriptHash, subClass)))))
        | _ \<Rightarrow> Inr (0, scriptHash, 0)))"

text \<open>The function \<^verbatim>\<open>init\<close> registers as \<^verbatim>\<open>chainutil.WitPkScriptParseFunc\<close>. When \<^verbatim>\<open>GetParsedOpcode\<close> fails
  its other results are zero; a panic stays a panic.\<close>

definition WitPkScriptParseFunc :: "bytes \<Rightarrow> (ScriptClass \<times> u64 \<times> hash \<times> u16) res" where
  "WitPkScriptParseFunc pkScript =
     (let (clazz, pops) = GetScriptInfo pkScript in
      if clazz \<in> {WitnessV0ScriptHashTy, StakingScriptHashTy, BindingScriptHashTy, PoolingScriptHashTy,
                  AwardingScriptHashTy, GoverningScriptHashTy}
      then (case GetParsedOpcode pops clazz of
              Inr (frozen, witHash, subClass) \<Rightarrow> Inr (clazz, frozen, witHash, subClass)
            | Inl GoPanic \<Rightarrow> Inl GoPanic
            | Inl _ \<Rightarrow> Inr (NonStandardTy, 0, replicate 32 0, 0))
      else Inr (clazz, 0, replicate 32 0, 0))"

definition expectedInputs :: "parsedOpcode list \<Rightarrow> ScriptClass \<Rightarrow> int" where
  "expectedInputs pops class =
     (case class of
        WitnessV0ScriptHashTy \<Rightarrow> 1 | StakingScriptHashTy \<Rightarrow> 1 | BindingScriptHashTy \<Rightarrow> 1
      | MultiSigTy \<Rightarrow> asSmallInt (pop_opcode (pops ! 0))
      | PoolingScriptHashTy \<Rightarrow> 0 | AwardingScriptHashTy \<Rightarrow> 1 | GoverningScriptHashTy \<Rightarrow> 1
      | _ \<Rightarrow> - 1)"

record ScriptInfo =
  si_PkScriptClass :: ScriptClass
  si_NumInputs :: nat
  si_ExpectedInputs :: int
  si_SigOps :: int

text \<open>\<^verbatim>\<open>witness[len(witness)-1]\<close> panics on an empty witness.\<close>

definition CalcScriptInfo :: "bytes \<Rightarrow> bytes list \<Rightarrow> ScriptInfo res" where
  "CalcScriptInfo pkScript witness =
     (case parseScript pkScript of
        (_, Some e) \<Rightarrow> Inl e
      | (pkPops, None) \<Rightarrow>
         let class = typeOfScript pkPops; expected = expectedInputs pkPops class in
         if witness = [] then Inl GoPanic
         else let pops = fst (parseScript (last witness)); popsigs = fst (parseScript (witness ! 0)) in
           if class \<in> {WitnessV0ScriptHashTy, StakingScriptHashTy, BindingScriptHashTy}
           then let shInputs = expectedInputs pops (typeOfScript pops) in
             Inr \<lparr>si_PkScriptClass = class, si_NumInputs = length popsigs + 1,
                  si_ExpectedInputs = (if shInputs = - 1 then - 1 else expected + shInputs),
                  si_SigOps = GetWitnessSigOpCount pkScript witness\<rparr>
           else Inr \<lparr>si_PkScriptClass = class, si_NumInputs = length popsigs + length pops,
                  si_ExpectedInputs = expected, si_SigOps = getSigOpCount pkPops True\<rparr>)"

definition CalcMultiSigStats :: "bytes \<Rightarrow> (int \<times> int) res" where
  "CalcMultiSigStats script =
     (case parseScript script of
        (_, Some e) \<Rightarrow> Inl e
      | (pops, None) \<Rightarrow>
         if length pops < 4 then Inl ErrStackUnderflow
         else Inr (asSmallInt (pop_opcode (pops ! (length pops - 2))), asSmallInt (pop_opcode (pops ! 0))))"

section \<open>Output scripts\<close>

definition script_res :: "ScriptBuilder \<Rightarrow> bytes res" where
  "script_res b = (case Script b of (s, None) \<Rightarrow> Inr s | (_, Some e) \<Rightarrow> Inl e)"

definition payToWitnessScriptHashScript :: "bytes \<Rightarrow> bytes res" where
  "payToWitnessScriptHashScript scriptHash =
     (if length scriptHash \<noteq> WitnessV0ScriptHashDataSize then Inl ErrWitnessProgramLength
      else script_res (AddData scriptHash (AddOp OP_0 NewScriptBuilder)))"

definition payToBindingScriptHashScript :: "bytes \<Rightarrow> bytes \<Rightarrow> bytes res" where
  "payToBindingScriptHashScript scriptHash1 scriptHash2 =
     (if length scriptHash1 \<noteq> WitnessV0ScriptHashDataSize \<or> length scriptHash2 \<noteq> WitnessV0PoCPubKeyHashDataSize
      then Inl ErrWitnessProgramLength
      else script_res (AddData scriptHash2 (AddData scriptHash1 (AddOp OP_0 NewScriptBuilder))))"

definition payToStakingScriptHashScript :: "bytes \<Rightarrow> u64 \<Rightarrow> bytes res" where
  "payToStakingScriptHashScript scriptHash frozenPeriod =
     (if length scriptHash \<noteq> WitnessV0ScriptHashDataSize then Inl ErrWitnessProgramLength
      else if \<not> IsValidFrozenPeriod frozenPeriod then Inl ErrFrozenPeriod
      else script_res (AddData (put_le 8 (unat frozenPeriod)) (AddData scriptHash (AddOp OP_0 NewScriptBuilder))))"

definition pool_hash :: "u16 \<Rightarrow> bytes" where
  "pool_hash poolType = replicate 30 0 @ rev (put_le 2 (unat poolType))"

definition payToPoolingAddrScript :: "u16 \<Rightarrow> bytes res" where
  "payToPoolingAddrScript poolType =
     (if \<not> IsValidPoolType poolType then Inl ErrPoolingType
      else script_res (addData (put_le 2 (unat poolType)) (AddData (pool_hash poolType) (AddOp OP_0 NewScriptBuilder))))"

definition payToAwardingAddrScript :: "bytes \<Rightarrow> u64 \<Rightarrow> u16 \<Rightarrow> bytes res" where
  "payToAwardingAddrScript scriptHash frozenPeriod poolType =
     (if \<not> IsValidAwardFrozenPeriod frozenPeriod then Inl ErrFrozenPeriod
      else if length scriptHash \<noteq> WitnessV0ScriptHashDataSize then Inl ErrWitnessProgramLength
      else if \<not> IsValidPoolType poolType then Inl ErrPoolingType
      else script_res (addData (put_le 8 (unat frozenPeriod)) (addData (put_le 2 (unat poolType))
        (AddData scriptHash (AddOp OP_0 NewScriptBuilder)))))"

definition payToGoverningScript :: "bytes \<Rightarrow> u32 \<Rightarrow> u64 \<Rightarrow> bytes res" where
  "payToGoverningScript scriptHash governFlag maturityPeriod =
     script_res (addData (put_le 8 (unat maturityPeriod)) (addData (put_le 4 (unat governFlag))
        (AddData scriptHash (AddOp OP_0 NewScriptBuilder))))"

definition PayToGoverningScript :: "bytes \<Rightarrow> u32 \<Rightarrow> u64 \<Rightarrow> bool \<Rightarrow> bytes res" where
  "PayToGoverningScript scriptHash class maturityPeriod relative =
     (if drop_bit 24 class > 0 then Inl (ErrorText ''Invalid class type '')
      else payToGoverningScript scriptHash (if relative then class OR 0x80000000 else class) maturityPeriod)"

text \<open>\<^verbatim>\<open>MultiSigScript\<close>: the keys are given by the serialisations \<^verbatim>\<open>ScriptAddress\<close> returns.\<close>

definition MultiSigScript :: "bytes list \<Rightarrow> int \<Rightarrow> bytes res" where
  "MultiSigScript pubkeys nrequired =
     (if int (length pubkeys) < nrequired then Inl ErrBadNumRequired
      else rbind (AddInt64 nrequired NewScriptBuilder) (\<lambda>builder.
        rbind (AddInt64 (int (length pubkeys)) (foldl (\<lambda>b key. AddData key b) builder pubkeys)) (\<lambda>builder.
        script_res (AddOp OP_CHECKMULTISIG builder))))"

text \<open>\<^verbatim>\<open>PushedData\<close>: the parser leaves \<^verbatim>\<open>data\<close> nil exactly for the opcodes of length one.\<close>

definition PushedData :: "bytes \<Rightarrow> bytes list res" where
  "PushedData script =
     (case parseScript script of
        (_, Some e) \<Rightarrow> Inl e
      | (pops, None) \<Rightarrow> Inr (concat (map (\<lambda>pop.
          if opcodeLength (pop_value pop) \<noteq> 1 then [pop_data pop]
          else if pop_value pop = OP_0 then [[]] else []) pops)))"

definition GetParsedBindingOpcode :: "parsedOpcode list \<Rightarrow> (bytes \<times> bytes) res" where
  "GetParsedBindingOpcode pops =
     (if \<not> isWitnessBindingScript pops then Inl ErrInvalidBindingScript
      else Inr (pop_data (pops ! 1), pop_data (pops ! 2)))"

definition GetBindingScriptHash :: "bytes \<Rightarrow> (bytes \<times> bytes) res" where
  "GetBindingScriptHash script =
     (case parseScript script of (_, Some e) \<Rightarrow> Inl e | (pops, None) \<Rightarrow> GetParsedBindingOpcode pops)"

section \<open>Scripts of short pushes\<close>

abbreviation short :: "bytes \<Rightarrow> bool" where
  "short d \<equiv> 2 \<le> length d \<and> length d \<le> 75"

definition push_pop :: "bytes \<Rightarrow> parsedOpcode" where
  "push_pop d = \<lparr>pop_opcode = opcodeArray (of_nat (length d)), pop_data = d\<rparr>"

definition op_pop :: "byte \<Rightarrow> parsedOpcode" where
  "op_pop v = \<lparr>pop_opcode = opcodeArray v, pop_data = []\<rparr>"

lemma push_code_short_eq: "short d \<Longrightarrow> push_code d = of_nat (length d) # d"
  by (auto simp: push_code_def addData_def NewScriptBuilder_def Let_def)

lemma parse_push_code: "short d \<Longrightarrow> parse_ref (push_code d) = ([push_pop d], None)"
proof -
  assume d: "short d"
  then have v: "unat (of_nat (length d) :: byte) = length d" by (simp add: unat_of_nat)
  then have ol: "opcodeLength (of_nat (length d)) = int (length d) + 1"
    using d by (auto simp: opcodeLength_def word_le_nat_alt)
  have "from_table (push_pop d)" "data_fits (push_pop d)" "push_prefix (push_pop d) = 0"
    using d by (simp_all add: from_table_def data_fits_def push_prefix_def ol push_pop_def)
  then show ?thesis using parse_ref_instr [of "push_pop d"] d by (simp add: push_code_short_eq push_pop_def)
qed

lemma parse_op: "opcodeLength v = 1 \<Longrightarrow> parse_ref [v] = ([op_pop v], None)"
  using parse1_opcode [of v "[]"] by (simp add: op_pop_def)

lemma parse_pushes: "list_all short ds \<Longrightarrow> parse_ref (concat (map push_code ds)) = (map push_pop ds, None)"
  by (induction ds) (simp_all add: parse_ref_append [OF parse_push_code])

lemma parse_program: "list_all short ds \<Longrightarrow> parse_ref (OP_0 # concat (map push_code ds)) = (op_pop OP_0 # map push_pop ds, None)"
  using parse_ref_append [OF parse_op [of OP_0], of "concat (map push_code ds)"]
  by (simp add: parse_pushes opcodeLength_def)

lemma AddData_short:
  "sb_err b = None \<Longrightarrow> short d \<Longrightarrow> length (sb_script b) \<le> 9000 \<Longrightarrow>
     AddData d b = b\<lparr>sb_script := sb_script b @ push_code d\<rparr>"
  by (simp add: AddData_def addData_eq length_push_code [symmetric] push_code_short_eq)

lemma pop_value_push [simp]: "short d \<Longrightarrow> pop_value (push_pop d) = of_nat (length d)" "pop_value (op_pop v) = v"
  "pop_data (push_pop d) = d"
  by (simp_all add: push_pop_def op_pop_def)

lemma AddOp_New: "AddOp v NewScriptBuilder = \<lparr>sb_script = [v], sb_err = None\<rparr>"
  by (simp add: AddOp_def NewScriptBuilder_def)

lemma put_le_shorts [simp]: "short (put_le 8 n)" "short (put_le 2 n)" "short (put_le 4 n)"
  by simp_all

lemmas standard_builders = payToWitnessScriptHashScript_def payToBindingScriptHashScript_def payToStakingScriptHashScript_def
  payToPoolingAddrScript_def payToAwardingAddrScript_def payToGoverningScript_def script_res_def Script_def AddOp_New AddData_short
  push_code_short_eq addData_eq

lemmas class_defs = typeOfScript_def isWitnessScriptHash_def isWitnessStakingScript_def isWitnessBindingScript_def
  isWitnessPoolingScript_def isWitnessAwardingScript_def isWitnessGoverningScript_def

lemma read_back [simp]: "read_u64 (put_le 8 (unat (n :: u64))) = Inr n" "read_u16 (put_le 2 (unat (k :: u16))) = Inr k"
proof -
  have "unat n < 256 ^ 8" "unat k < 256 ^ 2" using unsigned_less [of n] unsigned_less [of k] by simp_all
  then show "read_u64 (put_le 8 (unat n)) = Inr n" "read_u16 (put_le 2 (unat k)) = Inr k"
    by (simp_all add: read_u64_def read_u16_def le_val_put_le del: put_le.simps)
qed

lemma program_info:
  assumes "list_all short ds" "script = OP_0 # concat (map push_code ds)"
  shows "GetScriptInfo script = (typeOfScript (op_pop OP_0 # map push_pop ds), op_pop OP_0 # map push_pop ds)"
  using parse_program [OF assms(1)] by (simp add: GetScriptInfo_def parseScript_ref assms(2))

lemma pool_hash_length [simp]: "length (pool_hash t) = 32"
  by (simp add: pool_hash_def)

lemma not_multisig: "1 \<le> length ds \<Longrightarrow> list_all short ds \<Longrightarrow> \<not> isMultiSig (op_pop OP_0 # map push_pop ds)"
proof -
  assume d: "1 \<le> length ds" "list_all short ds"
  then have l: "short (last ds)" by (cases ds rule: rev_cases) auto
  then have "unat (of_nat (length (last ds)) :: byte) = length (last ds)" by (simp add: unat_of_nat)
  then have "(of_nat (length (last ds)) :: byte) \<noteq> OP_CHECKMULTISIG" using l by (auto simp: word_unat_eq_iff)
  moreover have "(op_pop OP_0 # map push_pop ds) ! length ds = push_pop (last ds)"
    using d by (cases ds rule: rev_cases) (auto simp: nth_append nth_Cons')
  ultimately show ?thesis using l by (auto simp: isMultiSig_def Let_def)
qed

lemma not_nulldata: "\<not> isNullData (op_pop OP_0 # ps)"
  by (simp add: isNullData_def Let_def)

lemma output_class:
  assumes "length sh = 32"
  shows "typeOfScript (op_pop OP_0 # map push_pop [sh]) = WitnessV0ScriptHashTy"
    "length d = 8 \<Longrightarrow> typeOfScript (op_pop OP_0 # map push_pop [sh, d]) = StakingScriptHashTy"
    "length d = 20 \<Longrightarrow> typeOfScript (op_pop OP_0 # map push_pop [sh, d]) = BindingScriptHashTy"
    "length d = 2 \<Longrightarrow> typeOfScript (op_pop OP_0 # map push_pop [sh, d]) = PoolingScriptHashTy"
    "length d = 2 \<Longrightarrow> length e = 8 \<Longrightarrow> typeOfScript (op_pop OP_0 # map push_pop [sh, d, e]) = AwardingScriptHashTy"
    "length d = 4 \<Longrightarrow> length e = 8 \<Longrightarrow> typeOfScript (op_pop OP_0 # map push_pop [sh, d, e]) = GoverningScriptHashTy"
  using assms not_multisig [of "[sh, d, e]"] not_multisig [of "[sh, d]"]
  by (simp_all add: class_defs not_nulldata nth_Cons' del: One_nat_def)

lemma program_parse:
  assumes "list_all short ds"
  shows "WitPkScriptParseFunc (OP_0 # concat (map push_code ds)) =
    (let pops = op_pop OP_0 # map push_pop ds; clazz = typeOfScript pops in
     if clazz \<in> {WitnessV0ScriptHashTy, StakingScriptHashTy, BindingScriptHashTy, PoolingScriptHashTy,
                 AwardingScriptHashTy, GoverningScriptHashTy}
     then (case GetParsedOpcode pops clazz of
             Inr (frozen, witHash, subClass) \<Rightarrow> Inr (clazz, frozen, witHash, subClass)
           | Inl GoPanic \<Rightarrow> Inl GoPanic
           | Inl _ \<Rightarrow> Inr (NonStandardTy, 0, replicate 32 0, 0))
     else Inr (clazz, 0, replicate 32 0, 0))"
  by (simp only: WitPkScriptParseFunc_def program_info [OF assms refl] Let_def prod.case)

text \<open>C38. Output scripts say what they were made to say, except governing ones: for every script hash of 32 bytes, public key hash
  of 20 bytes, valid frozen period, valid pool type and governing class of 24 bits, the six constructors succeed, and the parser
  that the chain uses recognises the class. For five of them it returns the period (the fixed one for binding outputs), script hash
  (derived from the pool type for pooling outputs) and pool type given. For a governing output it returns a zero hash
  and a zero period whatever the script hash and the maturity period are: \<^verbatim>\<open>GetParsedOpcode\<close> checks the length of the hash there and copies nothing.\<close>

theorem standard_outputs_roundtrip:
  assumes "length sh = WitnessV0ScriptHashDataSize" "length pkh = WitnessV0PoCPubKeyHashDataSize"
    "IsValidFrozenPeriod fp" "IsValidAwardFrozenPeriod ap" "IsValidPoolType pt" "drop_bit 24 cl = 0"
  shows "(\<exists>s. payToWitnessScriptHashScript sh = Inr s \<and> WitPkScriptParseFunc s = Inr (WitnessV0ScriptHashTy, 0, sh, 0)) \<and>
    (\<exists>s. payToStakingScriptHashScript sh fp = Inr s \<and> WitPkScriptParseFunc s = Inr (StakingScriptHashTy, fp, sh, 0)) \<and>
    (\<exists>s. payToBindingScriptHashScript sh pkh = Inr s \<and> WitPkScriptParseFunc s = Inr (BindingScriptHashTy, 172800, sh, 0) \<and>
       GetBindingScriptHash s = Inr (sh, pkh)) \<and>
    (\<exists>s. payToPoolingAddrScript pt = Inr s \<and> WitPkScriptParseFunc s = Inr (PoolingScriptHashTy, 0, pool_hash pt, pt)) \<and>
    (\<exists>s. payToAwardingAddrScript sh ap pt = Inr s \<and> WitPkScriptParseFunc s = Inr (AwardingScriptHashTy, ap, sh, pt)) \<and>
    (\<exists>s. PayToGoverningScript sh cl mp rel = Inr s \<and> WitPkScriptParseFunc s = Inr (GoverningScriptHashTy, 0, replicate 32 0, 0))"
proof -
  let ?s = "\<lambda>ds. OP_0 # concat (map push_code ds)"
  let ?f = "put_le 8 (unat fp)" and ?p = "put_le 2 (unat pt)" and ?a = "put_le 8 (unat ap)"
    and ?g = "put_le 4 (unat (if rel then cl OR 0x80000000 else cl))" and ?m = "put_le 8 (unat mp)"
  have b: "payToWitnessScriptHashScript sh = Inr (?s [sh])" "payToStakingScriptHashScript sh fp = Inr (?s [sh, ?f])"
    "payToBindingScriptHashScript sh pkh = Inr (?s [sh, pkh])" "payToPoolingAddrScript pt = Inr (?s [pool_hash pt, ?p])"
    "payToAwardingAddrScript sh ap pt = Inr (?s [sh, ?p, ?a])" "PayToGoverningScript sh cl mp rel = Inr (?s [sh, ?g, ?m])"
    using assms by (simp_all add: standard_builders PayToGoverningScript_def del: put_le.simps)
  have "WitPkScriptParseFunc (?s [sh]) = Inr (WitnessV0ScriptHashTy, 0, sh, 0)"
    "WitPkScriptParseFunc (?s [sh, ?f]) = Inr (StakingScriptHashTy, fp, sh, 0)"
    "WitPkScriptParseFunc (?s [sh, pkh]) = Inr (BindingScriptHashTy, 172800, sh, 0)"
    "WitPkScriptParseFunc (?s [pool_hash pt, ?p]) = Inr (PoolingScriptHashTy, 0, pool_hash pt, pt)"
    "WitPkScriptParseFunc (?s [sh, ?p, ?a]) = Inr (AwardingScriptHashTy, ap, sh, pt)"
    "WitPkScriptParseFunc (?s [sh, ?g, ?m]) = Inr (GoverningScriptHashTy, 0, replicate 32 0, 0)"
    using assms
    by (simp_all add: program_parse output_class Let_def del: put_le.simps concat.simps list.map)
      (simp_all add: output_class [simplified] GetParsedOpcode_def data_at_def del: put_le.simps)
  moreover have "GetBindingScriptHash (?s [sh, pkh]) = Inr (sh, pkh)"
    using assms parse_program [of "[sh, pkh]"]
    by (simp add: GetBindingScriptHash_def parseScript_ref GetParsedBindingOpcode_def isWitnessBindingScript_def)
  ultimately show ?thesis using b by blast
qed

theorem standard_outputs_roundtrip_witness:
  "(\<exists>s. payToStakingScriptHashScript (replicate 32 7) 61440 = Inr s \<and>
      WitPkScriptParseFunc s = Inr (StakingScriptHashTy, 61440, replicate 32 7, 0)) \<and>
   (\<exists>s. payToPoolingAddrScript 1 = Inr s \<and> WitPkScriptParseFunc s = Inr (PoolingScriptHashTy, 0, pool_hash 1, 1)) \<and>
   (\<exists>s. PayToGoverningScript (replicate 32 7) 2 100 True = Inr s \<and> WitPkScriptParseFunc s = Inr (GoverningScriptHashTy, 0, replicate 32 0, 0))"
proof -
  have "drop_bit 24 (2 :: u32) = 0" by code_simp
  then show ?thesis using standard_outputs_roundtrip [of "replicate 32 7" "replicate 20 9" 61440 1 1 2 100 True]
    by (simp add: IsValidFrozenPeriod_def IsValidAwardFrozenPeriod_def IsValidPoolType_def)
qed

section \<open>Multi-signature scripts\<close>

lemma foldl_AddData:
  "sb_err b = None \<Longrightarrow> list_all short ks \<Longrightarrow> length (sb_script b) + 76 * length ks \<le> 9000 \<Longrightarrow>
     foldl (\<lambda>b key. AddData key b) b ks = b\<lparr>sb_script := sb_script b @ concat (map push_code ks)\<rparr> \<and>
     length (concat (map push_code ks)) \<le> 76 * length ks"
proof (induction ks arbitrary: b)
  case (Cons k ks)
  then have "AddData k b = b\<lparr>sb_script := sb_script b @ push_code k\<rparr>" by (intro AddData_short) auto
  then show ?case using Cons.IH [of "AddData k b"] Cons.prems by (simp add: push_code_short_eq)
qed simp

definition small_op :: "nat \<Rightarrow> byte" where
  "small_op n = word_of_int (0x50 + int n)"

lemma small_op_facts:
  assumes "1 \<le> n" "n \<le> 16"
  shows "unat (small_op n) = 80 + n" "opcodeLength (small_op n) = 1" "isSmallInt (opcodeArray (small_op n))"
    "asSmallInt (opcodeArray (small_op n)) = int n" "OP_1 \<le> small_op n" "small_op n \<le> OP_16"
proof -
  have "small_op n = of_nat (80 + n)" by (simp add: small_op_def)
  then show u: "unat (small_op n) = 80 + n" using assms by (simp only: unat_of_nat) simp
  then show r: "OP_1 \<le> small_op n" "small_op n \<le> OP_16" using assms by (auto simp: word_le_nat_alt)
  then show "opcodeLength (small_op n) = 1" using u assms by (auto simp: opcodeLength_def word_le_nat_alt word_unat_eq_iff)
  have "op_value (opcodeArray (small_op n)) = small_op n" by simp
  moreover have "small_op n \<noteq> OP_0" using u by (auto simp: word_unat_eq_iff)
  moreover have "unat (small_op n - (OP_1 - 1)) = n" using u r(1) by (simp add: unat_sub word_le_nat_alt)
  ultimately show "isSmallInt (opcodeArray (small_op n))" "asSmallInt (opcodeArray (small_op n)) = int n"
    using r by (simp_all add: isSmallInt_def asSmallInt_def)
qed

lemma AddInt64_small:
  "sb_err b = None \<Longrightarrow> length (sb_script b) \<le> 9000 \<Longrightarrow> 1 \<le> n \<Longrightarrow> n \<le> 16 \<Longrightarrow>
     AddInt64 (int n) b = Inr (b\<lparr>sb_script := sb_script b @ [small_op n]\<rparr>)"
  by (simp add: AddInt64_def small_op_def)

definition multisig_pops :: "nat \<Rightarrow> bytes list \<Rightarrow> parsedOpcode list" where
  "multisig_pops n ks = op_pop (small_op n) # map push_pop ks @ [op_pop (small_op (length ks)), op_pop OP_CHECKMULTISIG]"

lemma MultiSigScript_eq:
  assumes "1 \<le> n" "n \<le> length ks" "length ks \<le> 16" "list_all short ks"
  shows "\<exists>s. MultiSigScript ks (int n) = Inr s \<and> parseScript s = (multisig_pops n ks, None)"
proof -
  let ?b = "NewScriptBuilder\<lparr>sb_script := [small_op n]\<rparr>" and ?k = "concat (map push_code ks)"
  let ?s = "small_op n # ?k @ [small_op (length ks), OP_CHECKMULTISIG]"
  have f: "foldl (\<lambda>b key. AddData key b) ?b ks = ?b\<lparr>sb_script := small_op n # ?k\<rparr>" "length ?k \<le> 76 * length ks"
    using foldl_AddData [of ?b ks] assms by (simp_all add: NewScriptBuilder_def)
  have "MultiSigScript ks (int n) = Inr ?s"
    using assms f AddInt64_small [of NewScriptBuilder n] AddInt64_small [of "?b\<lparr>sb_script := small_op n # ?k\<rparr>" "length ks"]
    by (simp add: MultiSigScript_def NewScriptBuilder_def AddOp_def script_res_def Script_def)
  moreover have checkmulti: "parse_ref [OP_CHECKMULTISIG] = ([op_pop OP_CHECKMULTISIG], None)"
    by (rule parse_op) (simp add: opcodeLength_def)
  moreover have "parse_ref ([small_op n] @ ?k @ [small_op (length ks)] @ [OP_CHECKMULTISIG]) = (multisig_pops n ks, None)"
    using assms small_op_facts(2) [of n] small_op_facts(2) [of "length ks"] checkmulti
    by (simp only: parse_ref_append parse_op parse_pushes fst_conv snd_conv) (simp add: multisig_pops_def)
  ultimately show ?thesis by (simp add: parseScript_ref)
qed

lemma sigOps_pushes:
  "list_all short ks \<Longrightarrow> sigOpLoop p prev (map push_pop ks @ rest) =
     sigOpLoop p (if ks = [] then prev else Some (pop_opcode (push_pop (last ks)))) rest"
proof (induction ks arbitrary: prev)
  case (Cons k ks)
  then have "unat (of_nat (length k) :: byte) = length k" by (simp add: unat_of_nat)
  then have "(of_nat (length k) :: byte) \<notin> {OP_CHECKSIG, OP_CHECKSIGVERIFY, OP_CHECKMULTISIG, OP_CHECKMULTISIGVERIFY}"
    using Cons.prems by (auto simp: word_unat_eq_iff)
  then show ?case using Cons by (auto simp: Let_def)
qed simp

lemma multisig_pops_nth:
  "length (multisig_pops n ks) = length ks + 3" "multisig_pops n ks ! 0 = op_pop (small_op n)"
  "multisig_pops n ks ! (length ks + 1) = op_pop (small_op (length ks))"
  "multisig_pops n ks ! (length ks + 2) = op_pop OP_CHECKMULTISIG"
  "drop 1 (take (length ks + 1) (multisig_pops n ks)) = map push_pop ks"
  by (simp_all add: multisig_pops_def nth_append)

lemma multisig_class:
  assumes "1 \<le> n" "n \<le> length ks" "length ks \<le> 16" "list_all (\<lambda>k. length k = 33 \<or> length k = 65) ks"
  shows "typeOfScript (multisig_pops n ks) = MultiSigTy"
proof -
  have z: "small_op n \<noteq> OP_0" using small_op_facts(1) [of n] assms by (auto simp: word_unat_eq_iff)
  have "isMultiSig (multisig_pops n ks)"
    using assms small_op_facts(3) [of n] small_op_facts(3,4) [of "length ks"] multisig_pops_nth [where n = n and ks = ks]
    by (auto simp: isMultiSig_def Let_def op_pop_def list_all_iff push_pop_def numeral_2_eq_2 numeral_3_eq_3)
  then show ?thesis using z multisig_pops_nth(2) [where n = n and ks = ks] by (auto simp: class_defs)
qed

text \<open>A multi-signature redeem script is well formed: for up to 16 keys of 33 or 65 bytes and a threshold
  between one and their number, \<^verbatim>\<open>MultiSigScript\<close> succeeds, the script is classified as \<^verbatim>\<open>MultiSigTy\<close>, the
  numbers of keys and signatures read from it are those given, and its signature-operation count is
  the number of keys.\<close>

theorem multisig_script_class:
  assumes "1 \<le> n" "n \<le> length ks" "length ks \<le> 16" "list_all (\<lambda>k. length k = 33 \<or> length k = 65) ks"
  shows "\<exists>s. MultiSigScript ks (int n) = Inr s \<and> GetScriptClass s = MultiSigTy \<and>
    CalcMultiSigStats s = Inr (int (length ks), int n) \<and> GetSigOpCount s = int (length ks)"
proof -
  have sh: "list_all short ks" using assms(4) by (auto simp: list_all_iff)
  obtain s where s: "MultiSigScript ks (int n) = Inr s" "parseScript s = (multisig_pops n ks, None)"
    using MultiSigScript_eq [OF assms(1-3) sh] by blast
  have so: "small_op k \<notin> {OP_CHECKSIG, OP_CHECKSIGVERIFY, OP_CHECKMULTISIG, OP_CHECKMULTISIGVERIFY}" if "1 \<le> k" "k \<le> 16" for k
    using small_op_facts(1) [OF that] that by (auto simp: word_unat_eq_iff)
  have "GetSigOpCount s = int (length ks)"
    using s(2) so [of n] so [of "length ks"] small_op_facts(4-6) [of "length ks"] assms sh
    by (simp add: GetSigOpCount_def getSigOpCount_def multisig_pops_def sigOps_pushes Let_def op_pop_def)
  moreover have "CalcMultiSigStats s = Inr (int (length ks), int n)"
    using s(2) multisig_pops_nth [where n = n and ks = ks] small_op_facts(4) [of n] small_op_facts(4) [of "length ks"] assms
    by (auto simp: CalcMultiSigStats_def op_pop_def numeral_2_eq_2 numeral_3_eq_3)
  moreover have "GetScriptClass s = MultiSigTy"
    using s(2) multisig_class [OF assms] by (simp add: GetScriptClass_def)
  ultimately show ?thesis using s(1) by blast
qed

theorem multisig_script_class_witness:
  "\<exists>s. MultiSigScript [replicate 33 2, replicate 65 4] 1 = Inr s \<and> GetScriptClass s = MultiSigTy \<and>
     CalcMultiSigStats s = Inr (2, 1) \<and> GetSigOpCount s = 2"
  using multisig_script_class [of 1 "[replicate 33 2, replicate 65 4]"] by simp

end
