(* ===== verification/Tx_Check.thy ===== *)
theory Tx_Check
  imports Subsidy Script_Standard
begin

text \<open>
  Transaction checks of \<^verbatim>\<open>src/blockchain/validate.go\<close> and the view of the spent outputs they work on
  (\<^verbatim>\<open>src/blockchain/txlookup.go\<close>): context-free sanity, maturity, double spends, values and fees, and the
  updates of the view when a block is connected. A \<^verbatim>\<open>TxStore\<close> maps transaction hashes to records; its
  \<^verbatim>\<open>Spent\<close> slices are updated in place by the source, so the model returns the new store. A
  \<^verbatim>\<open>chainutil.Tx\<close> is its \<^verbatim>\<open>MsgTx\<close>; the hashes it caches are recomputed, and so are the script classes of its memo map, which by
  \<open>GetPkScriptInfo_memo_sound\<close> gives the same answers in sequential code. Where goroutines share the map, \<open>Script_Validate\<close> models its accesses.
\<close>

section \<open>Model\<close>

record TxData =
  td_Tx :: "MsgTx option"
  td_Hash :: hash
  td_BlockHeight :: u64
  td_Spent :: "bool list"
  td_Err :: "chain_error option"

type_synonym TxStore = "hash \<Rightarrow> TxData option"

abbreviation (input) MaxBlockPayload :: nat where "MaxBlockPayload \<equiv> 2000000"
abbreviation (input) CoinbaseMaturity :: u64 where "CoinbaseMaturity \<equiv> 10"
abbreviation (input) TransactionMaturity :: u64 where "TransactionMaturity \<equiv> 1"

definition isNullOutpoint :: "OutPoint \<Rightarrow> bool" where
  "isNullOutpoint outpoint =
     (if prev_Index outpoint = 0xffffffff \<and> prev_Hash outpoint = replicate HashSize 0 then True else False)"

definition IsCoinBaseTxOutPoint :: "OutPoint option \<Rightarrow> bool" where
  "IsCoinBaseTxOutPoint outPoint =
     (case outPoint of None \<Rightarrow> False
      | Some op \<Rightarrow> if prev_Index op = 0xffffffff \<or> prev_Hash op = replicate HashSize 0 then True else False)"

definition IsCoinBase :: "MsgTx \<Rightarrow> bool" where
  "IsCoinBase msgTx =
     (if length (tx_TxIn msgTx) < 1 then False
      else let prevOut = in_PreviousOutPoint (tx_TxIn msgTx ! 0) in
        if prev_Index prevOut \<noteq> 0xffffffff \<or> prev_Hash prevOut \<noteq> replicate HashSize 0 then False else True)"

text \<open>What \<^verbatim>\<open>Tx.GetPkScriptInfo\<close> computes for an output that is not in its memo (it indexes the outputs without a check), and the call
  with the memo map it reads and writes.\<close>

definition GetPkScriptInfo :: "MsgTx \<Rightarrow> u32 \<Rightarrow> (ScriptClass \<times> u64 \<times> hash \<times> u16) chain_res" where
  "GetPkScriptInfo tx i =
     (if unat i < length (tx_TxOut tx)
      then (case WitPkScriptParseFunc (out_PkScript (tx_TxOut tx ! unat i)) of Inl _ \<Rightarrow> Inl ChainPanic | Inr r \<Rightarrow> Inr r)
      else Inl ChainPanic)"

type_synonym pkScriptInfos = "u32 \<Rightarrow> (ScriptClass \<times> u64 \<times> hash \<times> u16) option"

definition GetPkScriptInfo_memo ::
  "pkScriptInfos \<Rightarrow> MsgTx \<Rightarrow> u32 \<Rightarrow> ((ScriptClass \<times> u64 \<times> hash \<times> u16) \<times> pkScriptInfos) chain_res" where
  "GetPkScriptInfo_memo infos tx i =
     (case infos i of
        Some psi \<Rightarrow> Inr (psi, infos)
      | None \<Rightarrow> rbind (GetPkScriptInfo tx i) (\<lambda>psi. Inr (psi, infos(i \<mapsto> psi))))"

fun dup_inputs :: "OutPoint set \<Rightarrow> TxIn list \<Rightarrow> bool" where
  "dup_inputs existing [] = False"
| "dup_inputs existing (ti # ins) =
     (if in_PreviousOutPoint ti \<in> existing then True else dup_inputs (insert (in_PreviousOutPoint ti) existing) ins)"

definition CheckTransactionSanity :: "MsgTx \<Rightarrow> unit chain_res" where
  "CheckTransactionSanity msgTx =
     (if length (tx_TxIn msgTx) = 0 then Inl ErrNoTxInputs
      else if length (tx_TxOut msgTx) = 0 then Inl ErrNoTxOutputs
      else if PlainSize msgTx > MaxBlockPayload then Inl ErrTxTooBig
      else case rfold (\<lambda>total txOut. amt_AddInt total (out_Value txOut)) ZeroAmount (tx_TxOut msgTx) of
        Inl _ \<Rightarrow> Inl ErrBadTxOutValue
      | Inr _ \<Rightarrow>
        if dup_inputs {} (tx_TxIn msgTx) then Inl ErrDuplicateTxInputs
        else if list_ex (\<lambda>txIn. isNullOutpoint (in_PreviousOutPoint txIn))
                  (if IsCoinBase msgTx then drop 1 (tx_TxIn msgTx) else tx_TxIn msgTx)
        then Inl ErrBadTxInput
        else Inr ())"

definition isTransactionSpent :: "TxData \<Rightarrow> bool" where
  "isTransactionSpent txD = list_all id (td_Spent txD)"

definition checkDupSpend :: "OutPoint \<Rightarrow> bool list \<Rightarrow> unit chain_res" where
  "checkDupSpend preOutPoint spent =
     (if prev_Index preOutPoint \<ge> of_nat (length spent) then Inl ErrBadTxInput
      else if spent ! unat (prev_Index preOutPoint) then Inl ErrDoubleSpend
      else Inr ())"

definition checkTxInMaturity :: "TxData \<Rightarrow> MsgTx \<Rightarrow> u64 \<Rightarrow> OutPoint \<Rightarrow> bool \<Rightarrow> unit chain_res" where
  "checkTxInMaturity txData tx txHeight preOutPoint isCoinbase =
     (let blocksSincePrev = (if txHeight > td_BlockHeight txData then txHeight - td_BlockHeight txData else 0) in
      if IsCoinBase tx
      then if blocksSincePrev < CoinbaseMaturity
           then rbind (GetPkScriptInfo tx (prev_Index preOutPoint)) (\<lambda>(txOutClass, _).
                if txOutClass = PoolingScriptHashTy \<and> prev_Index preOutPoint > 0 \<and> blocksSincePrev \<ge> TransactionMaturity
                then Inr () else Inl ErrImmatureSpend)
           else Inr ()
      else if isCoinbase \<and> blocksSincePrev < TransactionMaturity then Inl ErrImmatureSpend
      else Inr ())"

text \<open>The output an input refers to, and the store with that output marked as spent.\<close>

definition origin :: "TxStore \<Rightarrow> TxIn \<Rightarrow> (TxData \<times> MsgTx) option" where
  "origin txStore txIn =
     (case txStore (prev_Hash (in_PreviousOutPoint txIn)) of
        None \<Rightarrow> None
      | Some d \<Rightarrow> (case (td_Err d, td_Tx d) of (None, Some tx) \<Rightarrow> Some (d, tx) | _ \<Rightarrow> None))"

definition mark_spent :: "OutPoint \<Rightarrow> bool \<Rightarrow> TxStore \<Rightarrow> TxStore" where
  "mark_spent op b txStore =
     (case txStore (prev_Hash op) of
        None \<Rightarrow> txStore
      | Some d \<Rightarrow> txStore(prev_Hash op \<mapsto> d\<lparr>td_Spent := (td_Spent d)[unat (prev_Index op) := b]\<rparr>))"

text \<open>One iteration of the loop over the inputs in \<^verbatim>\<open>CheckTransactionInputs\<close>.\<close>

definition check_input_value :: "u64 \<Rightarrow> Amount \<times> TxStore \<Rightarrow> TxIn \<Rightarrow> (Amount \<times> TxStore) chain_res" where
  "check_input_value txHeight = (\<lambda>(total, txStore) txIn.
     let op = in_PreviousOutPoint txIn in
     case origin txStore txIn of
       None \<Rightarrow> Inl ErrMissingTx
     | Some (originTx, tx) \<Rightarrow>
        rbind (checkTxInMaturity originTx tx txHeight op False) (\<lambda>_.
        rbind (checkDupSpend op (td_Spent originTx)) (\<lambda>_.
        if unat (prev_Index op) \<ge> length (tx_TxOut tx) then Inl ChainPanic
        else rbind (NewAmountFromInt (out_Value (tx_TxOut tx ! unat (prev_Index op)))) (\<lambda>v.
        rbind (amt_Add total v) (\<lambda>total.
        Inr (total, mark_spent op True txStore))))))"

definition CheckTransactionInputs :: "MsgTx \<Rightarrow> u64 \<Rightarrow> TxStore \<Rightarrow> (Amount \<times> TxStore) chain_res" where
  "CheckTransactionInputs tx txHeight txStore =
     (if IsCoinBase tx
      then if list_ex (\<lambda>txIn. witness_PlainSize (in_Witness txIn) \<noteq> 0) (tx_TxIn tx) then Inl ErrCoinbaseTxInWitness
           else Inr (ZeroAmount, txStore)
      else rbind (rfold (check_input_value txHeight) (ZeroAmount, txStore) (tx_TxIn tx)) (\<lambda>(totalIn, txStore).
        rbind (rfold (\<lambda>total txOut. rbind (NewAmountFromInt (out_Value txOut)) (amt_Add total)) ZeroAmount (tx_TxOut tx)) (\<lambda>totalOut.
        rbind (amt_Sub totalIn totalOut) (\<lambda>fee. Inr (fee, txStore)))))"

subsection \<open>The view of the chain\<close>

text \<open>One transaction of a block in \<^verbatim>\<open>connectTransactions\<close> and \<^verbatim>\<open>disconnectTransactions\<close>; \<open>th\<close> is the transaction's
  hash. \<open>last_spent\<close> stands for \<^verbatim>\<open>db.FetchLastFullySpentTxBeforeHeight\<close>.\<close>

definition spend_inputs :: "bool \<Rightarrow> TxStore \<Rightarrow> TxIn list \<Rightarrow> TxStore chain_res" where
  "spend_inputs b = rfold (\<lambda>txStore txIn.
     case origin txStore txIn of
       None \<Rightarrow> Inr txStore
     | Some (d, _) \<Rightarrow>
        if prev_Index (in_PreviousOutPoint txIn) \<ge> of_nat (length (td_Spent d)) then Inl ErrBadTxInput
        else Inr (mark_spent (in_PreviousOutPoint txIn) b txStore))"

definition connect_tx :: "(MsgTx \<Rightarrow> hash) \<Rightarrow> u64 \<Rightarrow> TxStore \<Rightarrow> MsgTx \<Rightarrow> TxStore chain_res" where
  "connect_tx th height txStore tx =
     rbind (case txStore (th tx) of
              None \<Rightarrow> Inr txStore
            | Some txD \<Rightarrow>
               if td_Tx txD \<noteq> None \<and> \<not> isTransactionSpent txD then Inl ErrTxAlreadyExists
               else Inr (txStore(th tx \<mapsto> txD\<lparr>td_Tx := Some tx, td_BlockHeight := height,
                 td_Spent := replicate (length (tx_TxOut tx)) False, td_Err := None\<rparr>))) (\<lambda>txStore.
     if IsCoinBase tx then Inr txStore else spend_inputs True txStore (tx_TxIn tx))"

definition connectTransactions :: "(MsgTx \<Rightarrow> hash) \<Rightarrow> u64 \<Rightarrow> TxStore \<Rightarrow> MsgTx list \<Rightarrow> TxStore chain_res" where
  "connectTransactions th height = rfold (connect_tx th height)"

definition disconnect_tx :: "(MsgTx \<Rightarrow> hash) \<Rightarrow> (hash \<Rightarrow> u64 \<Rightarrow> (MsgTx \<times> u64) option chain_res) \<Rightarrow> u64 \<Rightarrow>
    TxStore \<Rightarrow> MsgTx \<Rightarrow> TxStore chain_res" where
  "disconnect_tx th last_spent height txStore tx =
     rbind (case txStore (th tx) of
              None \<Rightarrow> Inr txStore
            | Some txD \<Rightarrow>
               rbind (case last_spent (th tx) height of Inl ErrTxShaMissing \<Rightarrow> Inr None | r \<Rightarrow> r) (\<lambda>old.
               case old of
                 None \<Rightarrow> Inr (txStore(th tx \<mapsto> txD\<lparr>td_Tx := None, td_BlockHeight := 0, td_Spent := [],
                   td_Err := Some ErrTxShaMissing\<rparr>))
               | Some (msgTx, h) \<Rightarrow> Inr (txStore(th tx \<mapsto> txD\<lparr>td_Tx := Some msgTx, td_BlockHeight := h,
                   td_Spent := replicate (length (tx_TxOut msgTx)) True, td_Err := None\<rparr>)))) (\<lambda>txStore.
     if IsCoinBase tx then Inr txStore else spend_inputs False txStore (tx_TxIn tx))"

definition disconnectTransactions :: "(MsgTx \<Rightarrow> hash) \<Rightarrow> (hash \<Rightarrow> u64 \<Rightarrow> (MsgTx \<times> u64) option chain_res) \<Rightarrow> u64 \<Rightarrow>
    TxStore \<Rightarrow> MsgTx list \<Rightarrow> TxStore chain_res" where
  "disconnectTransactions th last_spent height txStore txs =
     rfold (disconnect_tx th last_spent height) txStore (rev txs)"

section \<open>The memo of script classes\<close>

text \<open>A memo that holds only answers of \<open>GetPkScriptInfo\<close> gives its answers and stays such a memo.\<close>

lemma GetPkScriptInfo_memo_sound:
  assumes "\<And>k psi. infos k = Some psi \<Longrightarrow> GetPkScriptInfo tx k = Inr psi"
  shows "(case GetPkScriptInfo_memo infos tx i of Inl e \<Rightarrow> Inl e | Inr (psi, _) \<Rightarrow> Inr psi) = GetPkScriptInfo tx i"
    and "GetPkScriptInfo_memo infos tx i = Inr (psi, infos') \<Longrightarrow> infos' k = Some psi' \<Longrightarrow> GetPkScriptInfo tx k = Inr psi'"
proof -
  show "(case GetPkScriptInfo_memo infos tx i of Inl e \<Rightarrow> Inl e | Inr (psi, _) \<Rightarrow> Inr psi) = GetPkScriptInfo tx i"
    by (cases "GetPkScriptInfo tx i"; cases "infos i") (auto simp: GetPkScriptInfo_memo_def dest: assms)
  show "GetPkScriptInfo tx k = Inr psi'" if "GetPkScriptInfo_memo infos tx i = Inr (psi, infos')" "infos' k = Some psi'"
    using that assms [of k psi'] by (cases "GetPkScriptInfo tx i"; cases "infos i") (auto simp: GetPkScriptInfo_memo_def split: if_splits)
qed

section \<open>Outputs of a store\<close>

text \<open>The output an outpoint names in a store, and the outpoints that are available to be spent.\<close>

definition out_at :: "TxStore \<Rightarrow> OutPoint \<Rightarrow> TxOut option" where
  "out_at st op =
     (case st (prev_Hash op) of
        None \<Rightarrow> None
      | Some d \<Rightarrow> (case td_Tx d of
          None \<Rightarrow> None
        | Some tx \<Rightarrow> if unat (prev_Index op) < length (tx_TxOut tx) then Some (tx_TxOut tx ! unat (prev_Index op)) else None))"

definition unspent :: "TxStore \<Rightarrow> OutPoint set" where
  "unspent st = {op. \<exists>d. st (prev_Hash op) = Some d \<and> unat (prev_Index op) < length (td_Spent d) \<and>
     \<not> td_Spent d ! unat (prev_Index op)}"

definition value_at :: "TxStore \<Rightarrow> OutPoint \<Rightarrow> int" where
  "value_at st op = (case out_at st op of None \<Rightarrow> 0 | Some o' \<Rightarrow> out_Value o')"

abbreviation ops_of :: "MsgTx \<Rightarrow> OutPoint list" where
  "ops_of tx \<equiv> map in_PreviousOutPoint (tx_TxIn tx)"

lemma outpoint_eq: "prev_Hash a = prev_Hash b \<Longrightarrow> unat (prev_Index a) = unat (prev_Index b) \<Longrightarrow> a = (b :: OutPoint)"
  by (simp add: word_unat_eq_iff)

lemma mark_spent_out_at [simp]: "out_at (mark_spent op b st) = out_at st"
  by (rule ext) (auto simp: out_at_def mark_spent_def split: option.splits)

lemma mark_spent_value_at [simp]: "value_at (mark_spent op b st) = value_at st"
  by (rule ext) (simp add: value_at_def)

lemma mark_spent_unspent: "unspent (mark_spent op True st) = unspent st - {op}"
proof (cases "st (prev_Hash op)")
  case None
  then show ?thesis by (auto simp: mark_spent_def unspent_def)
next
  case (Some d)
  have "(td_Spent d)[unat (prev_Index op) := True] ! j =
      (if unat (prev_Index op) = j \<and> j < length (td_Spent d) then True else td_Spent d ! j)" for j
    by (metis list_update_beyond not_less nth_list_update nth_list_update_neq)
  then show ?thesis using Some
    by (auto simp: mark_spent_def unspent_def split: if_splits intro: outpoint_eq)
qed

lemma checkDupSpend_ok:
  "checkDupSpend op sp = Inr () \<Longrightarrow> unat (prev_Index op) < length sp \<and> \<not> sp ! unat (prev_Index op)"
  by (auto simp: checkDupSpend_def not_le unat_less_of_nat split: if_splits)

lemma origin_Some: "origin st ti = Some (d, tx) \<longleftrightarrow>
    st (prev_Hash (in_PreviousOutPoint ti)) = Some d \<and> td_Err d = None \<and> td_Tx d = Some tx"
  by (auto simp: origin_def split: option.splits)

lemma check_input_value_ok:
  assumes "check_input_value h (tot, st) ti = Inr (tot', st')" "0 \<le> val tot"
  shows "in_PreviousOutPoint ti \<in> unspent st" "out_at st (in_PreviousOutPoint ti) \<noteq> None"
    "0 \<le> value_at st (in_PreviousOutPoint ti)"
    "val tot' = val tot + value_at st (in_PreviousOutPoint ti)" "val tot' \<le> max_value"
    "st' = mark_spent (in_PreviousOutPoint ti) True st"
proof -
  let ?op = "in_PreviousOutPoint ti"
  obtain d tx v where x: "st (prev_Hash ?op) = Some d" "td_Tx d = Some tx" "checkDupSpend ?op (td_Spent d) = Inr ()"
    "unat (prev_Index ?op) < length (tx_TxOut tx)" "NewAmountFromInt (out_Value (tx_TxOut tx ! unat (prev_Index ?op))) = Inr v"
    "amt_Add tot v = Inr tot'" "st' = mark_spent ?op True st"
    using assms(1) by (auto simp: check_input_value_def Let_def rbind_eq_Inr origin_Some split: option.splits if_splits)
  have v: "val v = value_at st ?op" "0 \<le> val v" using x by (auto simp: NewAmountFromInt_iff value_at_def out_at_def)
  show "?op \<in> unspent st" using checkDupSpend_ok [OF x(3)] x(1) by (auto simp: unspent_def)
  show "out_at st ?op \<noteq> None" using x by (simp add: out_at_def)
  show "st' = mark_spent ?op True st" by (rule x(7))
  show "0 \<le> value_at st ?op" "val tot' = val tot + value_at st ?op" "val tot' \<le> max_value"
    using x(6) v assms(2) by (auto simp: amt_Add_iff)
qed

text \<open>The loop over the inputs: the outputs spent are distinct, were available, and are not afterwards.\<close>

lemma inputs_fold:
  assumes "rfold (check_input_value h) (tot, st) ins = Inr (tot', st')" "0 \<le> val tot" "val tot \<le> max_value"
  shows "distinct (map in_PreviousOutPoint ins) \<and> set (map in_PreviousOutPoint ins) \<subseteq> unspent st \<and>
    unspent st' = unspent st - set (map in_PreviousOutPoint ins) \<and> out_at st' = out_at st \<and>
    list_all (\<lambda>ti. out_at st (in_PreviousOutPoint ti) \<noteq> None) ins \<and>
    val tot' = val tot + (\<Sum>ti\<leftarrow>ins. value_at st (in_PreviousOutPoint ti)) \<and> val tot' \<le> max_value \<and> 0 \<le> val tot'"
  using assms
proof (induction ins arbitrary: tot st)
  case (Cons ti ins)
  obtain t1 s1 where s: "check_input_value h (tot, st) ti = Inr (t1, s1)" "rfold (check_input_value h) (t1, s1) ins = Inr (tot', st')"
    using Cons.prems(1) by (auto simp: rbind_eq_Inr)
  note c = check_input_value_ok [OF s(1) Cons.prems(2)]
  note ih = Cons.IH [OF s(2)]
  have u: "unspent s1 = unspent st - {in_PreviousOutPoint ti}" "out_at s1 = out_at st" "value_at s1 = value_at st"
    using c(6) by (simp_all add: mark_spent_unspent)
  show ?case using ih c u Cons.prems by auto
qed simp

abbreviation out_total :: "MsgTx \<Rightarrow> int" where
  "out_total tx \<equiv> sum_list (map out_Value (tx_TxOut tx))"

lemma outputs_fold:
  assumes "rfold (\<lambda>tot txOut. rbind (NewAmountFromInt (out_Value txOut)) (amt_Add tot)) tot outs = Inr tot'"
    "0 \<le> val tot" "val tot \<le> max_value"
  shows "val tot' = val tot + sum_list (map out_Value outs) \<and> 0 \<le> val tot' \<and> val tot' \<le> max_value"
  using assms
proof (induction outs arbitrary: tot)
  case (Cons t outs)
  then obtain t1 where s: "0 \<le> out_Value t" "amt_Add tot (Amount (Uint128 (out_Value t))) = Inr t1"
    "rfold (\<lambda>tot txOut. rbind (NewAmountFromInt (out_Value txOut)) (amt_Add tot)) t1 outs = Inr tot'"
    by (auto simp: rbind_eq_Inr NewAmountFromInt_iff)
  then show ?case using Cons.IH [OF s(3)] Cons.prems(2,3) by (auto simp: amt_Add_iff)
qed simp

text \<open>What an accepted transaction does: it spends distinct available outputs, which are unavailable afterwards,
  and the values spent are the values created and the fee.\<close>

lemma CheckTransactionInputs_ok:
  assumes "CheckTransactionInputs tx h st = Inr (fee, st')" "\<not> IsCoinBase tx"
  shows "distinct (ops_of tx) \<and> set (ops_of tx) \<subseteq> unspent st \<and> unspent st' = unspent st - set (ops_of tx) \<and>
    out_at st' = out_at st \<and> list_all (\<lambda>op. out_at st op \<noteq> None) (ops_of tx) \<and>
    (\<Sum>op\<leftarrow>ops_of tx. value_at st op) = out_total tx + val fee \<and> 0 \<le> val fee \<and> val fee \<le> max_value"
proof -
  obtain i o' where x: "rfold (check_input_value h) (ZeroAmount, st) (tx_TxIn tx) = Inr (i, st')"
    "rfold (\<lambda>tot txOut. rbind (NewAmountFromInt (out_Value txOut)) (amt_Add tot)) ZeroAmount (tx_TxOut tx) = Inr o'"
    "amt_Sub i o' = Inr fee"
    using assms by (auto simp: CheckTransactionInputs_def rbind_eq_Inr)
  have o: "val o' = out_total tx" "0 \<le> val o'" using outputs_fold [OF x(2)] by simp_all
  have "val i = (\<Sum>op\<leftarrow>ops_of tx. value_at st op)" "val i \<le> max_value" using inputs_fold [OF x(1)] by (simp_all add: o_def)
  moreover from this have "val o' \<le> val i" "val fee = val i - val o'" using x(3) o by (auto simp: amt_Sub_iff)
  ultimately show ?thesis using inputs_fold [OF x(1)] o by (auto simp: list_all_iff)
qed

lemma CheckTransactionInputs_coinbase:
  "CheckTransactionInputs tx h st = Inr (fee, st') \<Longrightarrow> IsCoinBase tx \<Longrightarrow> fee = ZeroAmount \<and> st' = st"
  by (auto simp: CheckTransactionInputs_def split: if_splits)

text \<open>C34. A transaction can crash the validation. When the first input of a transaction that is not a coinbase names a coinbase
  transaction confirmed fewer than \<^verbatim>\<open>CoinbaseMaturity\<close> blocks below the height the inputs are checked for, with an output index that does not exist, \<^verbatim>\<open>checkTxInMaturity\<close>
  looks up the class of that output before \<^verbatim>\<open>checkDupSpend\<close> checks the index, and the index expression
  panics instead of the transaction being rejected. (For an origin that is not a coinbase the lookup is not made.)\<close>

theorem immature_index_panics:
  assumes "\<not> IsCoinBase tx" "tx_TxIn tx = ti # ins" "origin st ti = Some (d, cb)" "IsCoinBase cb"
    "td_BlockHeight d < h" "h - td_BlockHeight d < CoinbaseMaturity"
    "length (tx_TxOut cb) \<le> unat (prev_Index (in_PreviousOutPoint ti))"
  shows "CheckTransactionInputs tx h st = Inl ChainPanic"
proof -
  have "checkTxInMaturity d cb h (in_PreviousOutPoint ti) False = Inl ChainPanic"
    using assms by (simp add: checkTxInMaturity_def Let_def GetPkScriptInfo_def)
  then show ?thesis using assms by (simp add: CheckTransactionInputs_def check_input_value_def Let_def)
qed

definition example_coinbase :: MsgTx where
  "example_coinbase = \<lparr>tx_Version = 1,
     tx_TxIn = [\<lparr>in_PreviousOutPoint = \<lparr>prev_Hash = replicate 32 0, prev_Index = 0xffffffff\<rparr>, in_Witness = [], in_Sequence = 0\<rparr>],
     tx_TxOut = [\<lparr>out_Value = 10, out_PkScript = []\<rparr>], tx_LockTime = 0, tx_Payload = []\<rparr>"

definition example_spend :: "u32 \<Rightarrow> MsgTx" where
  "example_spend i = \<lparr>tx_Version = 1,
     tx_TxIn = [\<lparr>in_PreviousOutPoint = \<lparr>prev_Hash = replicate 32 9, prev_Index = i\<rparr>, in_Witness = [], in_Sequence = 0\<rparr>],
     tx_TxOut = [\<lparr>out_Value = 7, out_PkScript = []\<rparr>], tx_LockTime = 0, tx_Payload = []\<rparr>"

definition example_store :: TxStore where
  "example_store = [replicate 32 9 \<mapsto> \<lparr>td_Tx = Some example_coinbase, td_Hash = replicate 32 9, td_BlockHeight = 100,
     td_Spent = [False], td_Err = None\<rparr>]"

theorem immature_index_panics_witness:
  "CheckTransactionInputs (example_spend 5) 103 example_store = Inl ChainPanic"
  by (rule immature_index_panics [where cb = example_coinbase])
     (auto simp: example_spend_def example_store_def example_coinbase_def IsCoinBase_def origin_def)

end
