(* ===== verification/Script_Validate.thy ===== *)
theory Script_Validate
  imports Engine_Cache Tx_Check "HOL-Library.Multiset"
begin

text \<open>
  The validation of the scripts of a transaction or a block (\<^verbatim>\<open>src/blockchain/scriptval.go\<close>). The verdict on
  one input is the function \<open>validate_item\<close>; the exchange between \<^verbatim>\<open>Validate\<close> and the
  goroutines that run \<^verbatim>\<open>validateHandler\<close> over the unbuffered channels is a step relation. It includes the one piece of memory the
  goroutines share without a lock: \<^verbatim>\<open>Tx.GetPkScriptInfo\<close> (\<^verbatim>\<open>src/chainutil/tx.go\<close>) keeps its answers in a map of the origin transaction, which
  it reads and writes. A verdict is
  \<open>None\<close> when the engine does not return; a panic in a goroutine ends the process. The signature cache an
  item is run with is a parameter: by \<open>Engine_Cache\<close> its contents do not matter, and its methods lock.
\<close>

section \<open>Model\<close>

subsection \<open>One input\<close>

record txValidateItem =
  vi_txInIndex :: nat
  vi_txIn :: TxIn
  vi_tx :: MsgTx
  vi_sigHashes :: "TxSigHashes option"

definition script_error_of :: "chain_error \<Rightarrow> script_error \<Rightarrow> unit chain_res" where
  "script_error_of e err = Inl (if err = GoPanic then ChainPanic else e)"

definition validate_item :: "('pk, 'sg) crypto \<Rightarrow> TxStore \<Rightarrow> u32 \<Rightarrow> SigCache option \<Rightarrow> txValidateItem \<Rightarrow> unit chain_res option" where
  "validate_item c txStore fl sigCache txVI =
     (let txIn = vi_txIn txVI; originTxIndex = prev_Index (in_PreviousOutPoint txIn) in
      case origin txStore txIn of
        None \<Rightarrow> Some (Inl ErrMissingTx)
      | Some (_, originMsgTx) \<Rightarrow>
         if originTxIndex \<ge> of_nat (length (tx_TxOut originMsgTx)) then Some (Inl ErrBadTxInput)
         else (case GetPkScriptInfo originMsgTx originTxIndex of
           Inl e \<Rightarrow> Some (Inl e)
         | Inr (class, _) \<Rightarrow>
            if class = PoolingScriptHashTy then Some (Inr ())
            else let out = tx_TxOut originMsgTx ! unat originTxIndex in
              if length (in_Witness txIn) \<noteq> 2 then Some (Inl ErrTxWitnessLength)
              else (case NewEngine (out_PkScript out) (vi_tx txVI) (int (vi_txInIndex txVI)) fl sigCache (vi_sigHashes txVI) (out_Value out) of
                Inl err \<Rightarrow> Some (script_error_of ErrScriptMalformed err)
              | Inr vm \<Rightarrow> (case Execute c vm of
                  None \<Rightarrow> None
                | Some (Inl err) \<Rightarrow> Some (script_error_of ErrScriptValidation err)
                | Some (Inr _) \<Rightarrow> Some (Inr ())))))"

text \<open>The cell of a memo map that the goroutine of an item looks up: the map belongs to the origin transaction, the cell to the output.
  An item without origin or output is refused before the lookup.\<close>

definition memo_cell :: "TxStore \<Rightarrow> txValidateItem \<Rightarrow> (hash \<times> u32) option" where
  "memo_cell txStore txVI =
     (let op = in_PreviousOutPoint (vi_txIn txVI) in
      case origin txStore (vi_txIn txVI) of
        None \<Rightarrow> None
      | Some (_, originMsgTx) \<Rightarrow>
         if prev_Index op \<ge> of_nat (length (tx_TxOut originMsgTx)) then None else Some (prev_Hash op, prev_Index op))"

subsection \<open>The goroutines\<close>

text \<open>
  A goroutine waits in its \<open>select\<close>; has received an item; is inside the map lookup of \<^verbatim>\<open>GetPkScriptInfo\<close>; has missed and parses
  the script; is inside the map assignment; runs the checks after \<^verbatim>\<open>GetPkScriptInfo\<close>; is in \<^verbatim>\<open>sendResult\<close>; or has ended. The caller is in
  its loop with \<^verbatim>\<open>currentItem\<close> and \<^verbatim>\<open>processedItems\<close>, or has returned. \<open>v_memo\<close> holds the filled cells of all memo maps.
\<close>

datatype worker = Idle | Working nat | Reading nat | Parsing nat | Writing nat | Checking nat | Sending nat "unit chain_res" | Exited

datatype driver = Driving nat nat | Returned "unit chain_res" | Crashed

record validator =
  v_main :: driver
  v_workers :: "worker list"
  v_quit :: bool
  v_memo :: "(hash \<times> u32) set"

definition numWorkers :: "int \<Rightarrow> nat \<Rightarrow> nat" where
  "numWorkers numCPU items =
     (let maxGoRoutines = numCPU * 3;
          maxGoRoutines = (if maxGoRoutines \<le> 0 then 1 else maxGoRoutines)
      in nat (if maxGoRoutines > int items then int items else maxGoRoutines))"

definition startValidator :: "int \<Rightarrow> nat \<Rightarrow> (hash \<times> u32) set \<Rightarrow> validator" where
  "startValidator numCPU items memo =
     \<lparr>v_main = (if items = 0 then Returned (Inr ()) else Driving 0 0), v_workers = replicate (numWorkers numCPU items) Idle,
      v_quit = False, v_memo = memo\<rparr>"

text \<open>The main loop takes a result: an error ends it, and so does the result of the last item.\<close>

definition take_result :: "nat \<Rightarrow> nat \<Rightarrow> nat \<Rightarrow> unit chain_res \<Rightarrow> driver" where
  "take_result n cur processed r =
     (case r of Inl e \<Rightarrow> Returned (Inl e)
      | Inr _ \<Rightarrow> if processed + 1 < n then Driving cur (processed + 1) else Returned (Inr ()))"

text \<open>Whether a goroutine is inside an access to the map of \<open>h\<close>.\<close>

fun map_read :: "(nat \<Rightarrow> (hash \<times> u32) option) \<Rightarrow> hash \<Rightarrow> worker \<Rightarrow> bool" where
  "map_read cell h (Reading j) = (map_option fst (cell j) = Some h)"
| "map_read cell h _ = False"

fun map_write :: "(nat \<Rightarrow> (hash \<times> u32) option) \<Rightarrow> hash \<Rightarrow> worker \<Rightarrow> bool" where
  "map_write cell h (Writing j) = (map_option fst (cell j) = Some h)"
| "map_write cell h _ = False"

text \<open>
  \<open>vd j\<close> is the verdict on item \<open>j\<close> of the \<open>n\<close> items, \<open>cell j\<close> its memo cell. A map access that overlaps a write of the same map by another goroutine
  is a data race, on which the Go runtime stops the process (\<^verbatim>\<open>fatal error: concurrent map read and map write\<close>): a crash. A panic
  on an item strikes while its script is parsed or checked.
\<close>

inductive validator_step :: "(nat \<Rightarrow> unit chain_res option) \<Rightarrow> (nat \<Rightarrow> (hash \<times> u32) option) \<Rightarrow> nat \<Rightarrow> validator \<Rightarrow> validator \<Rightarrow> bool"
  for vd cell n where
  send: "v_main s = Driving cur done \<Longrightarrow> cur < n \<Longrightarrow> i < length (v_workers s) \<Longrightarrow> v_workers s ! i = Idle \<Longrightarrow>
     validator_step vd cell n s (s\<lparr>v_main := Driving (cur + 1) done, v_workers := (v_workers s)[i := Working cur]\<rparr>)"
| refuse: "v_main s \<noteq> Crashed \<Longrightarrow> i < length (v_workers s) \<Longrightarrow> v_workers s ! i = Working j \<Longrightarrow> cell j = None \<Longrightarrow> vd j = Some r \<Longrightarrow>
     validator_step vd cell n s (s\<lparr>v_workers := (v_workers s)[i := Sending j r]\<rparr>)"
| read: "v_main s \<noteq> Crashed \<Longrightarrow> i < length (v_workers s) \<Longrightarrow> v_workers s ! i = Working j \<Longrightarrow> cell j = Some (h, x) \<Longrightarrow>
     \<not> list_ex (map_write cell h) (v_workers s) \<Longrightarrow>
     validator_step vd cell n s (s\<lparr>v_workers := (v_workers s)[i := Reading j]\<rparr>)"
| race_read: "v_main s \<noteq> Crashed \<Longrightarrow> i < length (v_workers s) \<Longrightarrow> v_workers s ! i = Working j \<Longrightarrow> cell j = Some (h, x) \<Longrightarrow>
     list_ex (map_write cell h) (v_workers s) \<Longrightarrow> validator_step vd cell n s (s\<lparr>v_main := Crashed\<rparr>)"
| hit: "v_main s \<noteq> Crashed \<Longrightarrow> i < length (v_workers s) \<Longrightarrow> v_workers s ! i = Reading j \<Longrightarrow> cell j = Some c \<Longrightarrow> c \<in> v_memo s \<Longrightarrow>
     validator_step vd cell n s (s\<lparr>v_workers := (v_workers s)[i := Checking j]\<rparr>)"
| miss: "v_main s \<noteq> Crashed \<Longrightarrow> i < length (v_workers s) \<Longrightarrow> v_workers s ! i = Reading j \<Longrightarrow> cell j = Some c \<Longrightarrow> c \<notin> v_memo s \<Longrightarrow>
     validator_step vd cell n s (s\<lparr>v_workers := (v_workers s)[i := Parsing j]\<rparr>)"
| write_cell: "v_main s \<noteq> Crashed \<Longrightarrow> i < length (v_workers s) \<Longrightarrow> v_workers s ! i = Parsing j \<Longrightarrow> cell j = Some (h, x) \<Longrightarrow>
     \<not> list_ex (\<lambda>w. map_read cell h w \<or> map_write cell h w) (v_workers s) \<Longrightarrow>
     validator_step vd cell n s (s\<lparr>v_workers := (v_workers s)[i := Writing j]\<rparr>)"
| race_write: "v_main s \<noteq> Crashed \<Longrightarrow> i < length (v_workers s) \<Longrightarrow> v_workers s ! i = Parsing j \<Longrightarrow> cell j = Some (h, x) \<Longrightarrow>
     list_ex (\<lambda>w. map_read cell h w \<or> map_write cell h w) (v_workers s) \<Longrightarrow> validator_step vd cell n s (s\<lparr>v_main := Crashed\<rparr>)"
| written: "v_main s \<noteq> Crashed \<Longrightarrow> i < length (v_workers s) \<Longrightarrow> v_workers s ! i = Writing j \<Longrightarrow> cell j = Some c \<Longrightarrow>
     validator_step vd cell n s (s\<lparr>v_workers := (v_workers s)[i := Checking j], v_memo := insert c (v_memo s)\<rparr>)"
| finish: "v_main s \<noteq> Crashed \<Longrightarrow> i < length (v_workers s) \<Longrightarrow> v_workers s ! i = Checking j \<Longrightarrow> vd j = Some r \<Longrightarrow>
     r \<noteq> Inl ChainPanic \<Longrightarrow> validator_step vd cell n s (s\<lparr>v_workers := (v_workers s)[i := Sending j r]\<rparr>)"
| crash: "v_main s \<noteq> Crashed \<Longrightarrow> i < length (v_workers s) \<Longrightarrow> v_workers s ! i \<in> {Parsing j, Checking j} \<Longrightarrow> vd j = Some (Inl ChainPanic) \<Longrightarrow>
     validator_step vd cell n s (s\<lparr>v_main := Crashed\<rparr>)"
| receive: "v_main s = Driving cur done \<Longrightarrow> i < length (v_workers s) \<Longrightarrow> v_workers s ! i = Sending j r \<Longrightarrow>
     take_result n cur done r = m \<Longrightarrow>
     validator_step vd cell n s (s\<lparr>v_main := m, v_workers := (v_workers s)[i := (if r = Inr () then Idle else Exited)],
       v_quit := (case m of Driving _ _ \<Rightarrow> False | _ \<Rightarrow> True)\<rparr>)"
| quit_idle: "v_main s \<noteq> Crashed \<Longrightarrow> v_quit s \<Longrightarrow> i < length (v_workers s) \<Longrightarrow> v_workers s ! i = Idle \<Longrightarrow>
     validator_step vd cell n s (s\<lparr>v_workers := (v_workers s)[i := Exited]\<rparr>)"
| quit_sending: "v_main s \<noteq> Crashed \<Longrightarrow> v_quit s \<Longrightarrow> i < length (v_workers s) \<Longrightarrow> v_workers s ! i = Sending j r \<Longrightarrow>
     validator_step vd cell n s (s\<lparr>v_workers := (v_workers s)[i := (if r = Inr () then Idle else Exited)]\<rparr>)"

subsection \<open>Transactions and blocks\<close>

text \<open>The verdict of \<^verbatim>\<open>Validate\<close> with the items taken in order, one at a time. A run of the goroutines may report the error of
  another item, or crash on a race: \<open>validator_correct\<close> below relates the two.\<close>

fun validate_all :: "('i \<Rightarrow> unit chain_res option) \<Rightarrow> 'i list \<Rightarrow> unit chain_res option" where
  "validate_all vd [] = Some (Inr ())"
| "validate_all vd (it # items) = (case vd it of Some (Inr _) \<Rightarrow> validate_all vd items | r \<Rightarrow> r)"

definition script_items :: "MsgTx \<Rightarrow> TxSigHashes option \<Rightarrow> txValidateItem list" where
  "script_items tx hashes =
     map (\<lambda>(i, txIn). \<lparr>vi_txInIndex = i, vi_txIn = txIn, vi_tx = tx, vi_sigHashes = hashes\<rparr>)
       (filter (\<lambda>(i, txIn). prev_Index (in_PreviousOutPoint txIn) \<noteq> 0xffffffff) (enumerate 0 (tx_TxIn tx)))"

definition ValidateTransactionScripts :: "('pk, 'sg) crypto \<Rightarrow> MsgTx \<Rightarrow> TxStore \<Rightarrow> u32 \<Rightarrow> SigCache option \<Rightarrow> HashCache \<Rightarrow>
    unit chain_res option \<times> HashCache" where
  "ValidateTransactionScripts c tx txStore fl sigCache hashCache =
     (let h = the (TxHash (sha256 c) tx);
          hashCache = (if \<not> ContainsHashes h hashCache then AddSigHashes (sha256 c) tx hashCache else hashCache)
      in (validate_all (validate_item c txStore fl sigCache) (script_items tx (GetSigHashes h hashCache)), hashCache))"

definition block_items :: "(bytes \<Rightarrow> bytes) \<Rightarrow> HashCache option \<times> txValidateItem list \<Rightarrow> MsgTx \<Rightarrow> HashCache option \<times> txValidateItem list" where
  "block_items sha = (\<lambda>(hashCache, items) tx.
     let h = the (TxHash sha tx) in
     case hashCache of
       None \<Rightarrow> (None, items @ script_items tx (Some (NewTxSigHashes sha tx)))
     | Some hc \<Rightarrow> let hc = (if \<not> ContainsHashes h hc then AddSigHashes sha tx hc else hc)
                  in (Some hc, items @ script_items tx (GetSigHashes h hc)))"

definition checkBlockScripts :: "('pk, 'sg) crypto \<Rightarrow> MsgTx list \<Rightarrow> TxStore \<Rightarrow> u32 \<Rightarrow> SigCache option \<Rightarrow> HashCache option \<Rightarrow>
    unit chain_res option \<times> HashCache option" where
  "checkBlockScripts c txs txStore fl sigCache hashCache =
     (if txs = [] then (Some (Inl ChainPanic), hashCache)
      else let (hashCache, items) = foldl (block_items (sha256 c)) (hashCache, []) (drop 1 txs) in
        case validate_all (validate_item c txStore fl sigCache) items of
          Some (Inr _) \<Rightarrow> (Some (Inr ()),
            map_option (\<lambda>hc. foldl (\<lambda>hc tx. PurgeSigHashes (the (TxHash (sha256 c) tx)) hc) hc txs) hashCache)
        | r \<Rightarrow> (r, hashCache))"

section \<open>Schedules\<close>

fun held :: "worker \<Rightarrow> nat multiset" where
  "held Idle = {#}"
| "held Exited = {#}"
| "held (Working j) = {#j#}"
| "held (Reading j) = {#j#}"
| "held (Parsing j) = {#j#}"
| "held (Writing j) = {#j#}"
| "held (Checking j) = {#j#}"
| "held (Sending j r) = {#j#}"

abbreviation in_work :: "worker list \<Rightarrow> nat multiset" where
  "in_work ws \<equiv> sum_list (map held ws)"

text \<open>The items sent so far are in the hands of a goroutine or have been processed, and those were accepted. A crash has a cause: a panic on an
  item, or two items of one origin of which one was not in the memo.\<close>

definition contended :: "(nat \<Rightarrow> (hash \<times> u32) option) \<Rightarrow> (hash \<times> u32) set \<Rightarrow> nat \<Rightarrow> bool" where
  "contended cell memo n \<longleftrightarrow>
     (\<exists>j<n. \<exists>k<n. \<exists>h x y. j \<noteq> k \<and> cell j = Some (h, x) \<and> cell k = Some (h, y) \<and> (h, x) \<notin> memo)"

fun main_inv :: "(nat \<Rightarrow> unit chain_res option) \<Rightarrow> bool \<Rightarrow> nat \<Rightarrow> worker list \<Rightarrow> bool \<Rightarrow> driver \<Rightarrow> bool" where
  "main_inv vd race n ws q (Driving cur processed) \<longleftrightarrow> \<not> q \<and> cur \<le> n \<and> processed < n \<and> Exited \<notin> set ws \<and>
     (\<exists>dn. in_work ws + mset dn = mset [0..<cur] \<and> length dn = processed \<and> list_all (\<lambda>j. vd j = Some (Inr ())) dn)"
| "main_inv vd race n ws q (Returned r) \<longleftrightarrow> (q \<or> ws = []) \<and>
     (case r of Inr _ \<Rightarrow> (\<forall>j<n. vd j = Some (Inr ())) | Inl e \<Rightarrow> (\<exists>j<n. vd j = Some (Inl e)))"
| "main_inv vd race n ws q Crashed \<longleftrightarrow> race \<or> (\<exists>j<n. vd j = Some (Inl ChainPanic))"

text \<open>What holds of a goroutine: the verdict it sends is that of its item, and inside or before an access it has a cell, before a write a cell
  that was not in the memo at the start.\<close>

fun worker_inv :: "(nat \<Rightarrow> unit chain_res option) \<Rightarrow> (nat \<Rightarrow> (hash \<times> u32) option) \<Rightarrow> (hash \<times> u32) set \<Rightarrow> worker \<Rightarrow> bool" where
  "worker_inv vd cell memo (Sending j r) \<longleftrightarrow> vd j = Some r"
| "worker_inv vd cell memo (Reading j) \<longleftrightarrow> cell j \<noteq> None"
| "worker_inv vd cell memo (Parsing j) \<longleftrightarrow> (\<exists>c. cell j = Some c \<and> c \<notin> memo)"
| "worker_inv vd cell memo (Writing j) \<longleftrightarrow> (\<exists>c. cell j = Some c \<and> c \<notin> memo)"
| "worker_inv vd cell memo _ \<longleftrightarrow> True"

definition validator_inv :: "(nat \<Rightarrow> unit chain_res option) \<Rightarrow> (nat \<Rightarrow> (hash \<times> u32) option) \<Rightarrow> (hash \<times> u32) set \<Rightarrow> nat \<Rightarrow> validator \<Rightarrow> bool" where
  "validator_inv vd cell memo n s \<longleftrightarrow> main_inv vd (contended cell memo n) n (v_workers s) (v_quit s) (v_main s) \<and>
     in_work (v_workers s) \<subseteq># mset_set {0..<n} \<and>
     (\<forall>w \<in> set (v_workers s). worker_inv vd cell memo w) \<and> memo \<subseteq> v_memo s"

definition worker_weight :: "worker \<Rightarrow> nat" where
  "worker_weight w = (case w of Idle \<Rightarrow> 1 | Working _ \<Rightarrow> 7 | Reading _ \<Rightarrow> 6 | Parsing _ \<Rightarrow> 5 | Writing _ \<Rightarrow> 4 | Checking _ \<Rightarrow> 3
     | Sending _ _ \<Rightarrow> 2 | Exited \<Rightarrow> 0)"

definition main_weight :: "nat \<Rightarrow> driver \<Rightarrow> nat" where
  "main_weight n m = (case m of Driving cur _ \<Rightarrow> 7 * (n - cur) + 1 | Returned _ \<Rightarrow> 1 | Crashed \<Rightarrow> 0)"

definition validator_weight :: "nat \<Rightarrow> validator \<Rightarrow> nat" where
  "validator_weight n s = main_weight n (v_main s) + sum_list (map worker_weight (v_workers s))"

subsection \<open>Goroutines and their items\<close>

lemma in_work_update: "i < length ws \<Longrightarrow> in_work (ws[i := w]) + held (ws ! i) = in_work ws + held w"
proof (induction ws arbitrary: i)
  case (Cons x ws)
  then show ?case by (cases i) (auto simp: add_ac)
qed simp

lemma weight_update:
  "i < length ws \<Longrightarrow> sum_list (map worker_weight (ws[i := w])) + worker_weight (ws ! i) = sum_list (map worker_weight ws) + worker_weight w"
proof (induction ws arbitrary: i)
  case (Cons x ws)
  then show ?case by (cases i) auto
qed simp

lemma weight_less:
  "i < length ws \<Longrightarrow> worker_weight w < worker_weight (ws ! i) \<Longrightarrow>
     sum_list (map worker_weight (ws[i := w])) < sum_list (map worker_weight ws)"
  using weight_update [of i ws w] by linarith

lemma held_in_work: "i < length ws \<Longrightarrow> held (ws ! i) \<subseteq># in_work ws"
proof (induction ws arbitrary: i)
  case (Cons x ws)
  then show ?case by (cases i) (auto simp: subset_mset.add_increasing)
qed simp

text \<open>Two goroutines never hold the same item.\<close>

lemma held_twice:
  assumes "i < length ws" "k < length ws" "i \<noteq> k" "j \<in># held (ws ! i)" "j \<in># held (ws ! k)"
  shows "2 \<le> count (in_work ws) j"
proof -
  have "in_work (ws[i := Idle]) + held (ws ! i) = in_work ws" using in_work_update [OF assms(1), of Idle] by simp
  moreover have "j \<in># in_work (ws[i := Idle])"
    using held_in_work [of k "ws[i := Idle]"] assms(2,3,5) by (auto dest: mset_subset_eqD)
  ultimately have "count (in_work ws) j = count (in_work (ws[i := Idle])) j + count (held (ws ! i)) j"
    by (metis count_union)
  moreover have "0 < count (in_work (ws[i := Idle])) j" "0 < count (held (ws ! i)) j"
    using \<open>j \<in># in_work (ws[i := Idle])\<close> assms(4) by (simp_all only: count_greater_zero_iff)
  ultimately show ?thesis by linarith
qed

lemma step_weight: "validator_step vd cell n s t \<Longrightarrow> validator_weight n t < validator_weight n s"
proof (induction rule: validator_step.induct)
  case (send s cur pr i)
  then show ?case using weight_update [of i "v_workers s" "Working cur"]
    by (simp add: validator_weight_def main_weight_def worker_weight_def)
next
  case (receive s cur pr i j r m)
  have "main_weight n (take_result n cur pr r) \<le> main_weight n (Driving cur pr)"
    by (cases r) (simp_all add: main_weight_def take_result_def)
  then have "main_weight n m \<le> main_weight n (v_main s)" using receive by simp
  moreover have "worker_weight (if r = Inr () then Idle else Exited) < worker_weight (v_workers s ! i)"
    using receive by (simp add: worker_weight_def)
  ultimately show ?case using weight_update [OF receive(2), of "if r = Inr () then Idle else Exited"]
    by (simp add: validator_weight_def)
next
qed (auto simp: validator_weight_def main_weight_def worker_weight_def intro!: weight_less split: driver.splits)

lemma in_update: "x \<in> set (ws[i := w]) \<Longrightarrow> x = w \<or> x \<in> set ws"
  using set_update_subset_insert [of ws i w] by blast

lemma idle_in_work: "set ws \<subseteq> {Idle} \<Longrightarrow> in_work ws = {#}"
  by (induction ws) auto

subsection \<open>The invariant\<close>

lemma held_bound: "validator_inv vd cell memo n s \<Longrightarrow> i < length (v_workers s) \<Longrightarrow> j \<in># held (v_workers s ! i) \<Longrightarrow> j < n"
  using held_in_work [of i "v_workers s"] by (auto simp: validator_inv_def dest!: mset_subset_eqD)

lemma held_once:
  assumes "validator_inv vd cell memo n s" "i < length (v_workers s)" "k < length (v_workers s)" "i \<noteq> k"
    "j \<in># held (v_workers s ! i)" "l \<in># held (v_workers s ! k)"
  shows "j \<noteq> l"
proof
  assume "j = l"
  then have "2 \<le> count (in_work (v_workers s)) j" using held_twice [OF assms(2,3,4)] assms(5,6) by blast
  also have "\<dots> \<le> count (mset_set {0..<n}) j" using assms(1) by (simp only: validator_inv_def subseteq_mset_def)
  also have "\<dots> \<le> 1" by (simp add: count_mset_set')
  finally show False by simp
qed

lemma worker_has: "validator_inv vd cell memo n s \<Longrightarrow> i < length (v_workers s) \<Longrightarrow> worker_inv vd cell memo (v_workers s ! i)"
  by (auto simp: validator_inv_def)

text \<open>A goroutine moves on with the item it holds.\<close>

lemma inv_worker:
  assumes "validator_inv vd cell memo n s" "i < length (v_workers s)" "held w = held (v_workers s ! i)"
    "v_quit s \<or> w \<noteq> Exited" "worker_inv vd cell memo w" "memo \<subseteq> M"
  shows "validator_inv vd cell memo n (s\<lparr>v_workers := (v_workers s)[i := w], v_memo := M\<rparr>)"
proof -
  have u: "in_work ((v_workers s)[i := w]) = in_work (v_workers s)" using in_work_update [OF assms(2), of w] assms(3) by simp
  show ?thesis using assms by (cases "v_main s") (auto simp: validator_inv_def u dest!: in_update)
qed

lemma inv_worker_only:
  assumes "validator_inv vd cell memo n s" "i < length (v_workers s)" "held w = held (v_workers s ! i)"
    "v_quit s \<or> w \<noteq> Exited" "worker_inv vd cell memo w"
  shows "validator_inv vd cell memo n (s\<lparr>v_workers := (v_workers s)[i := w]\<rparr>)"
  using inv_worker [OF assms, of "v_memo s"] assms(1) by (simp add: validator_inv_def)

lemma drop_work:
  assumes "i < length ws" "held w = {#}" "in_work ws \<subseteq># M"
  shows "in_work (ws[i := w]) \<subseteq># M"
  using in_work_update [OF assms(1), of w] assms(2,3) by (metis mset_subset_eq_add_left add.right_neutral subset_mset.order_trans)

lemma inv_quit_sending:
  assumes "validator_inv vd cell memo n s" "v_main s \<noteq> Crashed" "v_quit s" "i < length (v_workers s)" "w \<in> {Idle, Exited}"
  shows "validator_inv vd cell memo n (s\<lparr>v_workers := (v_workers s)[i := w]\<rparr>)"
proof -
  have h: "held w = {#}" "worker_inv vd cell memo w" using assms(5) by auto
  have "in_work ((v_workers s)[i := w]) \<subseteq># mset_set {0..<n}"
    by (rule drop_work [OF assms(4) h(1)]) (use assms(1) in \<open>simp add: validator_inv_def\<close>)
  then show ?thesis using assms h
    by (cases "v_main s") (auto simp: validator_inv_def dest!: in_update)
qed

text \<open>A race is between two items of one origin.\<close>

lemma inv_race:
  assumes "validator_inv vd cell memo n s" "i < length (v_workers s)" "k < length (v_workers s)" "i \<noteq> k"
    "j \<in># held (v_workers s ! i)" "l \<in># held (v_workers s ! k)" "cell j = Some (h, x)" "cell l = Some (h, y)" "(h, x) \<notin> memo"
  shows "validator_inv vd cell memo n (s\<lparr>v_main := Crashed\<rparr>)"
proof -
  have "contended cell memo n" unfolding contended_def
    using held_bound [OF assms(1,2,5)] held_bound [OF assms(1,3,6)] held_once [OF assms(1-6)] assms(7-9) by blast
  then show ?thesis using assms(1) by (simp add: validator_inv_def)
qed

lemma inv_receive:
  assumes "validator_inv vd cell memo n s" "v_main s = Driving cur pr" "i < length (v_workers s)" "v_workers s ! i = Sending j r"
  shows "validator_inv vd cell memo n (s\<lparr>v_main := take_result n cur pr r, v_workers := (v_workers s)[i := (if r = Inr () then Idle else Exited)],
    v_quit := (case take_result n cur pr r of Driving _ _ \<Rightarrow> False | _ \<Rightarrow> True)\<rparr>)"
proof -
  let ?ws = "v_workers s" and ?race = "contended cell memo n"
  define w where "w = (if r = Inr () then Idle else Exited)"
  have w: "held w = {#}" "worker_inv vd cell memo w" "r = Inr () \<Longrightarrow> w = Idle" by (simp_all add: w_def)
  have u: "add_mset j (in_work (?ws[i := w])) = in_work ?ws" using in_work_update [OF assms(3), of w] assms(4) w(1) by simp
  have vd: "vd j = Some r" using worker_has [OF assms(1,3)] assms(4) by simp
  have jn: "j < n" by (rule held_bound [OF assms(1,3)]) (simp add: assms(4))
  obtain dn where dn: "in_work ?ws + mset dn = mset [0..<cur]" "length dn = pr" "list_all (\<lambda>j. vd j = Some (Inr ())) dn"
    and le: "cur \<le> n" "pr < n" "Exited \<notin> set ?ws"
    using assms(1,2) by (auto simp: validator_inv_def)
  have rest: "\<forall>w \<in> set (?ws[i := w]). worker_inv vd cell memo w" "memo \<subseteq> v_memo s"
    "in_work (?ws[i := w]) \<subseteq># mset_set {0..<n}"
    using assms(1) w(2) drop_work [OF assms(3) w(1)] by (auto simp: validator_inv_def dest!: in_update)
  have "main_inv vd ?race n (?ws[i := w]) (case take_result n cur pr r of Driving _ _ \<Rightarrow> False | _ \<Rightarrow> True) (take_result n cur pr r)"
  proof (cases r)
    case (Inl e)
    then show ?thesis using vd jn by (auto simp: take_result_def)
  next
    case (Inr x)
    have dn': "in_work (?ws[i := w]) + mset (j # dn) = mset [0..<cur]" unfolding dn(1) [symmetric] u [symmetric] by simp
    have ok: "list_all (\<lambda>j. vd j = Some (Inr ())) (j # dn)" using vd Inr dn(3) by simp
    have ex: "Exited \<notin> set (?ws[i := w])" using le(3) Inr w(3) by (auto dest: in_update)
    show ?thesis
    proof (cases "pr + 1 < n")
      case True
      then show ?thesis using Inr le(1) ex dn' ok dn(2) by (auto simp: take_result_def intro!: exI [of _ "j # dn"])
    next
      case False
      have "size (in_work (?ws[i := w])) + size (mset (j # dn)) = cur" using arg_cong [OF dn', of size] by simp
      then have "cur = n" "size (in_work (?ws[i := w])) = 0" using False le(1,2) dn(2) unfolding size_mset length_Cons by linarith+
      then have "cur = n" "in_work (?ws[i := w]) = {#}" by (simp_all only: size_eq_0_iff_empty)
      then have "set (j # dn) = {0..<n}" using arg_cong [OF dn', of set_mset] by simp
      then show ?thesis using Inr False ok by (auto simp: take_result_def list_all_iff)
    qed
  qed
  then show ?thesis using rest unfolding w_def by (simp add: validator_inv_def)
qed

lemma inv_send:
  assumes "validator_inv vd cell memo n s" "v_main s = Driving cur pr" "cur < n" "i < length (v_workers s)" "v_workers s ! i = Idle"
  shows "validator_inv vd cell memo n (s\<lparr>v_main := Driving (cur + 1) pr, v_workers := (v_workers s)[i := Working cur]\<rparr>)"
proof -
  have u: "in_work ((v_workers s)[i := Working cur]) = add_mset cur (in_work (v_workers s))"
    using in_work_update [OF assms(4), of "Working cur"] assms(5) by simp
  have "in_work (v_workers s) \<subseteq># mset_set {0..<cur}" using assms(1,2) by (auto simp: validator_inv_def) (metis mset_subset_eq_add_left)
  moreover have "mset_set {0..<Suc cur} = add_mset cur (mset_set {0..<cur})" by (simp add: atLeast0_lessThan_Suc)
  moreover have "mset_set {0..<Suc cur} \<subseteq># mset_set {0..<n}" using assms(3) by (intro subset_imp_msubset_mset_set) auto
  ultimately have "add_mset cur (in_work (v_workers s)) \<subseteq># mset_set {0..<n}"
    by (metis mset_subset_eq_add_mset_cancel subset_mset.order_trans)
  then show ?thesis using assms by (auto simp: validator_inv_def u dest!: in_update)
qed

lemma step_inv: "validator_step vd cell n s t \<Longrightarrow> validator_inv vd cell memo n s \<Longrightarrow> validator_inv vd cell memo n t"
proof (induction rule: validator_step.induct)
  case (race_read s i j h x)
  then obtain k l where k: "k < length (v_workers s)" "v_workers s ! k = Writing l" "map_option fst (cell l) = Some h"
    by (auto simp: list_ex_iff in_set_conv_nth elim!: map_write.elims)
  then obtain y where "cell l = Some (h, y)" "(h, y) \<notin> memo" using worker_has [OF race_read(6) k(1)] by auto
  then show ?case using inv_race [OF race_read(6) k(1) race_read(2), of l j] race_read k by force
next
  case (race_write s i j h x)
  then obtain k l where k: "k < length (v_workers s)" "v_workers s ! k = Reading l \<or> v_workers s ! k = Writing l" "map_option fst (cell l) = Some h"
    by (auto simp: list_ex_iff in_set_conv_nth elim!: map_write.elims map_read.elims)
  moreover have "(h, x) \<notin> memo" using worker_has [OF race_write(6,2)] race_write(3,4) by simp
  ultimately show ?case using inv_race [OF race_write(6,2) k(1), of j l] race_write by force
next
  case (crash s i j)
  then show ?case using held_bound [of vd cell memo n s i j] by (auto simp: validator_inv_def)
next
  case (miss s i j c)
  then have "c \<notin> memo" by (auto simp: validator_inv_def)
  with miss show ?case by (intro inv_worker_only) auto
next
  case (write_cell s i j h x)
  then show ?case using worker_has [of vd cell memo n s i] by (intro inv_worker_only) auto
next
  case (written s i j c)
  then have "memo \<subseteq> insert c (v_memo s)" by (auto simp: validator_inv_def)
  with written show ?case by (intro inv_worker) auto
next
  case (send s cur pr i)
  then show ?case by (intro inv_send)
next
  case (receive s cur pr i j r m)
  then show ?case using inv_receive [of vd cell memo n s cur pr i j r] by simp
next
  case (quit_sending s i j r)
  then show ?case by (intro inv_quit_sending) auto
qed (simp_all add: inv_worker_only)

lemma start_inv: "validator_inv vd cell memo n (startValidator numCPU n memo)"
proof -
  have "in_work (replicate k Idle) = {#}" for k by (rule idle_in_work) auto
  then show ?thesis by (cases "n = 0") (auto simp: validator_inv_def startValidator_def numWorkers_def)
qed

lemma step_workers: "validator_step vd cell n s t \<Longrightarrow> length (v_workers t) = length (v_workers s)"
  by (induction rule: validator_step.induct) simp_all

text \<open>A state with no step left is final: nobody waits for ever.\<close>

lemma busy_steps:
  assumes inv: "validator_inv vd cell memo n s" and total: "\<And>j. j < n \<Longrightarrow> vd j \<noteq> None" and nc: "v_main s \<noteq> Crashed"
    and i: "i < length (v_workers s)" and w: "v_workers s ! i \<in> {Working j, Reading j, Parsing j, Writing j, Checking j}"
  shows "\<exists>t. validator_step vd cell n s t"
proof -
  have "j < n" by (rule held_bound [OF inv i]) (use w in auto)
  then obtain r where r: "vd j = Some r" using total by blast
  note inv_i = worker_has [OF inv i]
  consider "v_workers s ! i = Working j" | "v_workers s ! i = Reading j" | "v_workers s ! i = Parsing j"
    | "v_workers s ! i = Writing j" | "v_workers s ! i = Checking j" using w by blast
  then show ?thesis
  proof cases
    case 1
    then show ?thesis
      using refuse [OF nc i 1, of cell vd r n] r read [OF nc i 1, of cell] race_read [OF nc i 1, of cell] by (cases "cell j") (auto, blast)
  next
    case 2
    then obtain c where "cell j = Some c" using inv_i by auto
    then show ?thesis using hit [OF nc i 2, of cell] miss [OF nc i 2, of cell] by blast
  next
    case 3
    then obtain h x where "cell j = Some (h, x)" using inv_i by auto
    then show ?thesis using write_cell [OF nc i 3, of cell] race_write [OF nc i 3, of cell] by blast
  next
    case 4
    then obtain c where "cell j = Some c" using inv_i by auto
    then show ?thesis using written [OF nc i 4, of cell c vd n] by blast
  next
    case 5
    then show ?thesis using finish [where vd = vd, OF nc i 5 r] crash [OF nc i, of j vd] r by (cases "r = Inl ChainPanic") auto
  qed
qed

lemma validator_stuck:
  assumes inv: "validator_inv vd cell memo n s" and total: "\<And>j. j < n \<Longrightarrow> vd j \<noteq> None" and ws: "0 < n \<Longrightarrow> v_workers s \<noteq> []"
    and stuck: "\<And>t. \<not> validator_step vd cell n s t" and "v_main s \<noteq> Crashed"
  shows "\<exists>r. v_main s = Returned r \<and> set (v_workers s) \<subseteq> {Exited}"
proof -
  note busy = busy_steps [OF inv total assms(5)]
  show ?thesis
  proof (cases "v_main s")
    case (Driving cur pr)
    have idle: "v_workers s ! i = Idle" if "i < length (v_workers s)" for i
      using busy [OF _ that] stuck receive [OF Driving that _ refl] inv that Driving
      by (cases "v_workers s ! i") (auto simp: validator_inv_def, (metis nth_mem)+)
    then have "set (v_workers s) \<subseteq> {Idle}" by (auto simp: in_set_conv_nth)
    then have none: "in_work (v_workers s) = {#}" by (rule idle_in_work)
    have "\<not> cur < n" using stuck send [OF Driving _ _ idle, of _ 0] ws by auto
    then show ?thesis using inv Driving none by (auto simp: validator_inv_def dest: arg_cong [where f = size])
  next
    case (Returned r)
    have "v_workers s ! i = Exited" if i: "i < length (v_workers s)" for i
      using busy [OF _ i] stuck quit_idle [OF assms(5) _ i, of vd cell n] quit_sending [OF assms(5) _ i, of _ _ vd cell n] inv Returned i
      by (cases "v_workers s ! i") (auto simp: validator_inv_def)
    then show ?thesis using Returned by (auto simp: in_set_conv_nth)
  qed (use assms(5) in simp)
qed

lemma validator_run:
  assumes "(validator_step vd cell n ^^ m) (startValidator numCPU n memo) s"
  shows "validator_inv vd cell memo n s" "length (v_workers s) = numWorkers numCPU n" "validator_weight n s + m \<le> 8 * n + 1"
proof -
  have "validator_inv vd cell memo n s \<and> length (v_workers s) = numWorkers numCPU n \<and> validator_weight n s + m \<le> 8 * n + 1"
    using assms
  proof (induction m arbitrary: s)
    case 0
    have "sum_list (map worker_weight (replicate k Idle)) = k" for k by (induction k) (simp_all add: worker_weight_def)
    moreover have "numWorkers numCPU n \<le> n" by (auto simp: numWorkers_def Let_def)
    ultimately show ?case using 0 start_inv [of vd cell memo n numCPU]
      by (auto simp: validator_weight_def startValidator_def main_weight_def)
  next
    case (Suc m)
    then obtain t where "(validator_step vd cell n ^^ m) (startValidator numCPU n memo) t" "validator_step vd cell n t s" by auto
    then show ?case using Suc.IH [of t] step_inv [of vd cell n t s memo] step_workers [of vd cell n t s] step_weight [of vd cell n t s] by auto
  qed
  then show "validator_inv vd cell memo n s" "length (v_workers s) = numWorkers numCPU n" "validator_weight n s + m \<le> 8 * n + 1" by simp_all
qed

lemma validate_all_ok: "validate_all vd items = Some (Inr ()) \<longleftrightarrow> (\<forall>it \<in> set items. vd it = Some (Inr ()))"
  by (induction items) (auto split: option.splits sum.splits)

lemma validate_item_total:
  assumes "hash_env c"
  shows "validate_item c st fl cache it \<noteq> None"
proof -
  have e: "Execute c vm = None \<Longrightarrow> NewEngine pk tx i fl cache hs v \<noteq> Inr vm" for pk tx i hs v vm
    using Execute_total [OF assms NewEngine_inv] by fastforce
  show ?thesis by (auto simp: validate_item_def Let_def e split: option.splits sum.splits prod.splits)
qed

section \<open>Pooling outputs\<close>

lemma validate_pooling:
  assumes "origin st (vi_txIn it) = Some (d, mtx)" "prev_Index (in_PreviousOutPoint (vi_txIn it)) < of_nat (length (tx_TxOut mtx))"
    "GetPkScriptInfo mtx (prev_Index (in_PreviousOutPoint (vi_txIn it))) = Inr (PoolingScriptHashTy, r)"
  shows "validate_item c st fl cache it = Some (Inr ())"
  using assms by (simp add: validate_item_def Let_def not_le [symmetric])

lemma pooling_info:
  assumes "GetScriptClass pk = PoolingScriptHashTy"
  shows "\<exists>r. WitPkScriptParseFunc pk = Inr (PoolingScriptHashTy, r)"
proof -
  obtain ps where ps: "parseScript pk = (ps, None)" "isWitnessPoolingScript ps" "typeOfScript ps = PoolingScriptHashTy"
    using assms by (auto simp: GetScriptClass_def typeOfScript_def split: prod.splits option.splits if_splits)
  have l: "length ps = 3" "pop_value (ps ! 1) = OP_DATA_32" "pop_value (ps ! 2) = OP_DATA_2"
    using ps(2) by (simp_all add: isWitnessPoolingScript_def)
  then have "instr_ok (ps ! 1)" "instr_ok (ps ! 2)" using parse_instr_ok [OF ps(1)] by (simp_all add: list_all_length)
  from push_op_data(2) [OF this(1)] push_op_data(2) [OF this(2)] l
  have "length (pop_data (ps ! 1)) = 32" "length (pop_data (ps ! 2)) = 2" by simp_all
  then show ?thesis using ps l
    by (simp add: WitPkScriptParseFunc_def GetScriptInfo_def GetParsedOpcode_def data_at_def read_u16_def)
qed

lemma block_items_mem:
  assumes "foldl (block_items sha) (hc, items) txs = (hc', items')" "it \<in> set items'"
  shows "it \<in> set items \<or> (\<exists>tx \<in> set txs. vi_txIn it \<in> set (tx_TxIn tx))"
  using assms
proof (induction txs arbitrary: hc items)
  case (Cons tx txs)
  obtain h1 items1 where b: "block_items sha (hc, items) tx = (h1, items1)" by (metis surj_pair)
  have "vi_txIn it \<in> set (tx_TxIn tx)" if "it \<in> set items1" "it \<notin> set items"
    using b that by (auto simp: block_items_def script_items_def Let_def in_set_enumerate_eq split: option.splits)
  then show ?case using Cons.IH [of h1 items1] Cons.prems b by auto
qed simp

section \<open>Properties\<close>

text \<open>C3. The concurrent validation of a list of inputs ends, and with the right verdict, under every
  scheduling that is not stopped by a crash. A run takes at most \<open>8 n + 1\<close> steps; a state from which no step is possible has a caller that
  returned and goroutines that all ended, or the process has crashed. When the caller returns, it returns nil
  exactly when every input is accepted, and an error it returns is the error of one of the inputs. A crash has one of two causes:
  an input panics, or two inputs spend outputs of the same origin transaction and the script class of one of these outputs was not in
  the origin's memo at the start, so that the accesses to the unsynchronised memo map may collide.\<close>

theorem validator_correct:
  assumes "hash_env c"
    "(validator_step (\<lambda>j. validate_item c st fl cache (items ! j)) (\<lambda>j. memo_cell st (items ! j)) (length items) ^^ m)
       (startValidator numCPU (length items) memo) s"
  shows "m \<le> 8 * length items + 1 \<and>
    ((\<exists>t. validator_step (\<lambda>j. validate_item c st fl cache (items ! j)) (\<lambda>j. memo_cell st (items ! j)) (length items) s t) \<or> v_main s = Crashed \<or>
      (\<exists>r. v_main s = Returned r \<and> set (v_workers s) \<subseteq> {Exited})) \<and>
    (\<forall>r. v_main s = Returned r \<longrightarrow> (r = Inr () \<longleftrightarrow> validate_all (validate_item c st fl cache) items = Some (Inr ())) \<and>
      (\<forall>e. r = Inl e \<longrightarrow> (\<exists>it \<in> set items. validate_item c st fl cache it = Some (Inl e)))) \<and>
    (v_main s = Crashed \<longrightarrow> (\<exists>it \<in> set items. validate_item c st fl cache it = Some (Inl ChainPanic)) \<or>
      (\<exists>j k h x y. j < length items \<and> k < length items \<and> j \<noteq> k \<and> memo_cell st (items ! j) = Some (h, x) \<and>
        memo_cell st (items ! k) = Some (h, y) \<and> (h, x) \<notin> memo))"
proof -
  let ?vd = "\<lambda>j. validate_item c st fl cache (items ! j)" and ?cell = "\<lambda>j. memo_cell st (items ! j)" and ?n = "length items"
  note r = validator_run [OF assms(2)]
  have "0 < ?n \<Longrightarrow> 0 < numWorkers numCPU ?n" by (simp add: numWorkers_def Let_def)
  then have ws: "0 < ?n \<Longrightarrow> v_workers s \<noteq> []" using r(2) by auto
  have stuck: "(\<exists>t. validator_step ?vd ?cell ?n s t) \<or> v_main s = Crashed \<or> (\<exists>r. v_main s = Returned r \<and> set (v_workers s) \<subseteq> {Exited})"
    using validator_stuck [OF r(1) validate_item_total [OF assms(1)] ws] by blast
  have verdict: "(v = Inr () \<longleftrightarrow> validate_all (validate_item c st fl cache) items = Some (Inr ())) \<and>
      (\<forall>e. v = Inl e \<longrightarrow> (\<exists>it \<in> set items. validate_item c st fl cache it = Some (Inl e)))" if ret: "v_main s = Returned v" for v
  proof (cases v)
    case (Inl e)
    then obtain j where "j < ?n" "?vd j = Some (Inl e)" using r(1) ret by (auto simp: validator_inv_def)
    then have "items ! j \<in> set items \<and> validate_item c st fl cache (items ! j) = Some (Inl e)" by simp
    then show ?thesis using Inl unfolding validate_all_ok by (metis Inl_Inr_False option.inject sum.inject(1))
  next
    case (Inr x)
    then show ?thesis using r(1) ret unfolding validate_all_ok by (auto simp: validator_inv_def in_set_conv_nth)
  qed
  have "v_main s = Crashed \<Longrightarrow> (\<exists>it \<in> set items. validate_item c st fl cache it = Some (Inl ChainPanic)) \<or> contended ?cell memo ?n"
    using r(1) by (auto simp: validator_inv_def)
  then show ?thesis using r(3) stuck verdict unfolding contended_def by (intro conjI) (linarith, blast+)
qed

text \<open>One input that spends a pooling output, from the start to the end of the only goroutine.\<close>

definition pooling_script :: bytes where
  "pooling_script = OP_0 # 32 # replicate 31 0 @ [1, 2, 1, 0]"

definition example_item :: txValidateItem where
  "example_item = \<lparr>vi_txInIndex = 0, vi_txIn = hd (tx_TxIn (example_spend 0)), vi_tx = example_spend 0, vi_sigHashes = None\<rparr>"

definition pooling_tx :: "bytes \<Rightarrow> MsgTx" where
  "pooling_tx pk = example_coinbase\<lparr>tx_TxOut := [\<lparr>out_Value = 10, out_PkScript = pk\<rparr>]\<rparr>"

definition pooling_store :: "bytes \<Rightarrow> TxStore" where
  "pooling_store pk = [replicate 32 9 \<mapsto> \<lparr>td_Tx = Some (pooling_tx pk), td_Hash = replicate 32 9, td_BlockHeight = 100,
     td_Spent = [False], td_Err = None\<rparr>]"

lemma pooling_tx_info: "GetPkScriptInfo (pooling_tx pooling_script) 0 = Inr (PoolingScriptHashTy, 0, replicate 31 0 @ [1], 1)"
  by code_simp

lemma pooling_item: "validate_item c (pooling_store pooling_script) fl cache example_item = Some (Inr ())"
  by (rule validate_pooling [where mtx = "pooling_tx pooling_script"])
     (auto simp: pooling_store_def example_item_def example_spend_def origin_def pooling_tx_info, simp add: pooling_tx_def)

lemma example_cell: "memo_cell (pooling_store pooling_script) example_item = Some (replicate 32 9, 0)"
  by (simp add: memo_cell_def pooling_store_def pooling_tx_def example_item_def example_spend_def origin_def)

theorem validator_correct_witness:
  "\<exists>s. (validator_step (\<lambda>j. validate_item example_crypto (pooling_store pooling_script) 0 None ([example_item] ! j))
        (\<lambda>j. memo_cell (pooling_store pooling_script) ([example_item] ! j)) 1 ^^ 8) (startValidator 8 1 {}) s \<and>
     v_main s = Returned (Inr ()) \<and> v_workers s = [Exited] \<and>
     validate_all (validate_item example_crypto (pooling_store pooling_script) 0 None) [example_item] = Some (Inr ())"
proof -
  let ?vd = "\<lambda>j. validate_item example_crypto (pooling_store pooling_script) 0 None ([example_item] ! j)"
    and ?cell = "\<lambda>j. memo_cell (pooling_store pooling_script) ([example_item] ! j)"
  let ?st = "\<lambda>m w q M. \<lparr>v_main = m, v_workers = [w], v_quit = q, v_memo = M\<rparr>" and ?D = "Driving 1 0" and ?c = "(replicate 32 9, 0)"
  have 0: "startValidator 8 1 {} = ?st (Driving 0 0) Idle False {}" by (simp add: startValidator_def numWorkers_def)
  have 1: "validator_step ?vd ?cell 1 (?st (Driving 0 0) Idle False {}) (?st ?D (Working 0) False {})"
    using send [of "?st (Driving 0 0) Idle False {}" 0 0 1 0 ?vd ?cell] by simp
  have 2: "validator_step ?vd ?cell 1 (?st ?D (Working 0) False {}) (?st ?D (Reading 0) False {})"
    using read [of "?st ?D (Working 0) False {}" 0 0 ?cell _ _ ?vd 1] example_cell by simp
  have 3: "validator_step ?vd ?cell 1 (?st ?D (Reading 0) False {}) (?st ?D (Parsing 0) False {})"
    using miss [of "?st ?D (Reading 0) False {}" 0 0 ?cell _ ?vd 1] example_cell by simp
  have 4: "validator_step ?vd ?cell 1 (?st ?D (Parsing 0) False {}) (?st ?D (Writing 0) False {})"
    using write_cell [of "?st ?D (Parsing 0) False {}" 0 0 ?cell _ _ ?vd 1] example_cell by simp
  have 5: "validator_step ?vd ?cell 1 (?st ?D (Writing 0) False {}) (?st ?D (Checking 0) False {?c})"
    using written [of "?st ?D (Writing 0) False {}" 0 0 ?cell _ ?vd 1] example_cell by simp
  have 6: "validator_step ?vd ?cell 1 (?st ?D (Checking 0) False {?c}) (?st ?D (Sending 0 (Inr ())) False {?c})"
    using finish [of "?st ?D (Checking 0) False {?c}" 0 0 ?vd "Inr ()" ?cell 1] by (simp add: pooling_item)
  have 7: "validator_step ?vd ?cell 1 (?st ?D (Sending 0 (Inr ())) False {?c}) (?st (Returned (Inr ())) Idle True {?c})"
    using receive [of "?st ?D (Sending 0 (Inr ())) False {?c}" 1 0 0 0 "Inr ()" 1 _ ?vd ?cell] by (simp add: take_result_def)
  have 8: "validator_step ?vd ?cell 1 (?st (Returned (Inr ())) Idle True {?c}) (?st (Returned (Inr ())) Exited True {?c})"
    using quit_idle [of "?st (Returned (Inr ())) Idle True {?c}" 0 ?vd ?cell 1] by simp
  have e: "(8::nat) = Suc (Suc (Suc (Suc (Suc (Suc (Suc (Suc 0)))))))" by simp
  have run: "(validator_step ?vd ?cell 1 ^^ 8) (startValidator 8 1 {}) (?st (Returned (Inr ())) Exited True {?c})"
    unfolding 0 e by (rule relpowp_Suc_I2, rule 1, rule relpowp_Suc_I2, rule 2, rule relpowp_Suc_I2, rule 3, rule relpowp_Suc_I2, rule 4,
      rule relpowp_Suc_I2, rule 5, rule relpowp_Suc_I2, rule 6, rule relpowp_Suc_I2, rule 7, rule relpowp_Suc_I2, rule 8, rule relpowp_0_I)
  then have "(validator_step ?vd ?cell (length [example_item]) ^^ 8) (startValidator 8 (length [example_item]) {}) (?st (Returned (Inr ())) Exited True {?c})"
    by simp
  note validator_correct [OF example_hash_env this]
  then have "validate_all (validate_item example_crypto (pooling_store pooling_script) 0 None) [example_item] = Some (Inr ())"
    by (simp del: validate_all.simps)
  with run show ?thesis by auto
qed

text \<open>C32. The validation of inputs can crash the process on a data race, whatever the verdicts on the inputs. When the first two inputs of a
  list spend outputs of the same origin transaction, the first of them an output whose script class is not in the origin's memo, and there is
  at least one processor (so at least two goroutines), then some schedule ends in a crash: one goroutine looks up the memo map
  while the other assigns to it, without a lock.\<close>

theorem validator_race:
  assumes "memo_cell st it1 = Some (h, x)" "memo_cell st it2 = Some (h, y)" "(h, x) \<notin> memo" "1 \<le> numCPU"
  shows "\<exists>s. (validator_step (\<lambda>j. validate_item c st fl cache ((it1 # it2 # items) ! j)) (\<lambda>j. memo_cell st ((it1 # it2 # items) ! j))
      (length items + 2))\<^sup>*\<^sup>* (startValidator numCPU (length items + 2) memo) s \<and> v_main s = Crashed"
proof -
  let ?n = "length items + 2"
  let ?R = "validator_step (\<lambda>j. validate_item c st fl cache ((it1 # it2 # items) ! j)) (\<lambda>j. memo_cell st ((it1 # it2 # items) ! j)) ?n"
  let ?st = "\<lambda>m v w ws. \<lparr>v_main = m, v_workers = v # w # ws, v_quit = False, v_memo = memo\<rparr>"
  have "2 \<le> numWorkers numCPU ?n" using assms(4) by (auto simp: numWorkers_def Let_def)
  then obtain k where k: "numWorkers numCPU ?n = Suc (Suc k)" by (metis Suc_le_D numeral_2_eq_2 Suc_le_mono)
  define ws where "ws = replicate k Idle"
  have 0: "startValidator numCPU ?n memo = ?st (Driving 0 0) Idle Idle ws" by (simp add: startValidator_def k [simplified] ws_def)
  have 1: "?R (?st (Driving 0 0) Idle Idle ws) (?st (Driving 1 0) (Working 0) Idle ws)"
    using validator_step.send [of "?st (Driving 0 0) Idle Idle ws" 0 0 ?n 0] by simp
  have 2: "?R (?st (Driving 1 0) (Working 0) Idle ws) (?st (Driving 2 0) (Working 0) (Working 1) ws)"
    using validator_step.send [of "?st (Driving 1 0) (Working 0) Idle ws" 1 0 ?n 1] by (simp add: numeral_2_eq_2)
  have idle: "\<not> list_ex (map_write cell h) ws" "\<not> list_ex (map_read cell h) ws" for cell by (simp_all add: ws_def list_ex_iff)
  have 3: "?R (?st (Driving 2 0) (Working 0) (Working 1) ws) (?st (Driving 2 0) (Reading 0) (Working 1) ws)"
    using validator_step.read [of "?st (Driving 2 0) (Working 0) (Working 1) ws" 0 0 _ h x _ ?n] assms(1) idle by simp
  have 4: "?R (?st (Driving 2 0) (Reading 0) (Working 1) ws) (?st (Driving 2 0) (Parsing 0) (Working 1) ws)"
    using validator_step.miss [of "?st (Driving 2 0) (Reading 0) (Working 1) ws" 0 0 _ "(h, x)" _ ?n] assms(1,3) by simp
  have 5: "?R (?st (Driving 2 0) (Parsing 0) (Working 1) ws) (?st (Driving 2 0) (Writing 0) (Working 1) ws)"
    using validator_step.write_cell [of "?st (Driving 2 0) (Parsing 0) (Working 1) ws" 0 0 _ h x _ ?n] assms(1) by (simp add: ws_def list_ex_iff)
  have 6: "?R (?st (Driving 2 0) (Writing 0) (Working 1) ws) (?st Crashed (Writing 0) (Working 1) ws)"
    using validator_step.race_read [of "?st (Driving 2 0) (Writing 0) (Working 1) ws" 1 1 _ h y _ ?n] assms(1,2) by simp
  have "?R\<^sup>*\<^sup>* (?st (Driving 0 0) Idle Idle ws) (?st Crashed (Writing 0) (Working 1) ws)"
    using 1 2 3 4 5 6 by (meson converse_rtranclp_into_rtranclp rtranclp.rtrancl_refl)
  then show ?thesis unfolding 0 by (intro exI conjI) auto
qed

text \<open>A transaction that spends both outputs of one origin.\<close>

definition twin_item :: "nat \<Rightarrow> txValidateItem" where
  "twin_item i = example_item\<lparr>vi_txInIndex := i, vi_txIn := \<lparr>in_PreviousOutPoint = \<lparr>prev_Hash = replicate 32 9, prev_Index = of_nat i\<rparr>,
     in_Witness = [], in_Sequence = 0\<rparr>\<rparr>"

definition twin_store :: TxStore where
  "twin_store = [replicate 32 9 \<mapsto> \<lparr>td_Tx = Some (example_coinbase\<lparr>tx_TxOut := replicate 2 \<lparr>out_Value = 10, out_PkScript = pooling_script\<rparr>\<rparr>),
     td_Hash = replicate 32 9, td_BlockHeight = 100, td_Spent = [False, False], td_Err = None\<rparr>]"

lemma twin_cell: "i < 2 \<Longrightarrow> memo_cell twin_store (twin_item i) = Some (replicate 32 9, of_nat i)"
  by (auto simp: memo_cell_def twin_store_def twin_item_def origin_def less_2_cases_iff Let_def not_le)

theorem validator_race_witness:
  "\<exists>s. (validator_step (\<lambda>j. validate_item example_crypto twin_store 0 None ([twin_item 0, twin_item 1] ! j))
      (\<lambda>j. memo_cell twin_store ([twin_item 0, twin_item 1] ! j)) 2)\<^sup>*\<^sup>* (startValidator 1 2 {}) s \<and> v_main s = Crashed"
  using validator_race [OF twin_cell twin_cell, of 0 1 "{}" 1 example_crypto 0 None "[]"] by (simp add: numeral_2_eq_2)

text \<open>C33. Pooling outputs are not protected by any signature. A block in which the transactions after
  the coinbase spend only outputs of the pooling class passes the script check with whatever witnesses,
  outputs and sequence numbers these transactions have: anybody who makes a block can take them.\<close>

theorem pooling_spends_unsigned:
  assumes "txs \<noteq> []" "\<And>tx ti. tx \<in> set (tl txs) \<Longrightarrow> ti \<in> set (tx_TxIn tx) \<Longrightarrow> \<exists>d mtx. origin st ti = Some (d, mtx) \<and>
      prev_Index (in_PreviousOutPoint ti) < of_nat (length (tx_TxOut mtx)) \<and>
      GetScriptClass (out_PkScript (tx_TxOut mtx ! unat (prev_Index (in_PreviousOutPoint ti)))) = PoolingScriptHashTy"
  shows "fst (checkBlockScripts c txs st fl cache hashes) = Some (Inr ())"
proof -
  obtain hc items where i: "foldl (block_items (sha256 c)) (hashes, []) (drop 1 txs) = (hc, items)" by (metis surj_pair)
  have "validate_item c st fl cache it = Some (Inr ())" if it: "it \<in> set items" for it
  proof -
    let ?op = "in_PreviousOutPoint (vi_txIn it)"
    obtain tx where "tx \<in> set (tl txs)" "vi_txIn it \<in> set (tx_TxIn tx)"
      using block_items_mem [OF i it] by (auto simp: drop_Suc)
    then obtain d mtx where o: "origin st (vi_txIn it) = Some (d, mtx)" "prev_Index ?op < of_nat (length (tx_TxOut mtx))"
      "GetScriptClass (out_PkScript (tx_TxOut mtx ! unat (prev_Index ?op))) = PoolingScriptHashTy"
      using assms(2) by blast
    have "unat (prev_Index ?op) < length (tx_TxOut mtx)"
      using o(2) by (rule unat_less_of_nat)
    then obtain r where "GetPkScriptInfo mtx (prev_Index ?op) = Inr (PoolingScriptHashTy, r)"
      using pooling_info [OF o(3)] by (auto simp: GetPkScriptInfo_def)
    then show ?thesis by (rule validate_pooling [OF o(1,2)])
  qed
  then have "validate_all (validate_item c st fl cache) items = Some (Inr ())" unfolding validate_all_ok by blast
  then show ?thesis using assms(1) i by (simp add: checkBlockScripts_def)
qed

theorem pooling_spends_unsigned_witness:
  "fst (checkBlockScripts key_crypto [example_coinbase, example_spend 0] (pooling_store pooling_script) 0 None None) = Some (Inr ())"
proof (rule pooling_spends_unsigned)
  have "GetScriptClass pooling_script = PoolingScriptHashTy" by code_simp
  then show "\<exists>d mtx. origin (pooling_store pooling_script) ti = Some (d, mtx) \<and>
      prev_Index (in_PreviousOutPoint ti) < of_nat (length (tx_TxOut mtx)) \<and>
      GetScriptClass (out_PkScript (tx_TxOut mtx ! unat (prev_Index (in_PreviousOutPoint ti)))) = PoolingScriptHashTy"
    if "tx \<in> set (tl [example_coinbase, example_spend 0])" "ti \<in> set (tx_TxIn tx)" for tx ti
    using that by (auto simp: example_spend_def pooling_store_def pooling_tx_def origin_def)
qed simp

end
