(* ===== verification/Block_Connect.thy ===== *)
theory Block_Connect
  imports Script_Validate
begin

text \<open>
  The checks that connect a block to the chain (\<^verbatim>\<open>src/blockchain/validate.go\<close>, \<^verbatim>\<open>src/blockchain/txlookup.go\<close> and
  the lock times of \<^verbatim>\<open>src/blockchain/chain.go\<close>). The database is the record of the queries of the interface
  \<^verbatim>\<open>database.DB\<close> that this code makes; the position of the block in the chain enters through the
  blocks to detach and attach and the median times of its ancestors. Maps that the source ranges
  over are lists here: the order only decides which of several errors is reported.
\<close>

section \<open>Model\<close>

subsection \<open>The view from a block's position\<close>

record TxReply =
  rp_TxSha :: hash
  rp_Tx :: MsgTx
  rp_Height :: u64
  rp_TxSpent :: "bool list"
  rp_Err :: "chain_error option"

record chain_db =
  FetchTxByShaList :: "hash list \<Rightarrow> TxReply list"
  FetchUnSpentTxByShaList :: "hash list \<Rightarrow> TxReply list"
  FetchLastFullySpentTxBeforeHeight :: "hash \<Rightarrow> u64 \<Rightarrow> (MsgTx \<times> u64) option chain_res"

definition missing_tx :: "hash \<Rightarrow> TxData" where
  "missing_tx h = \<lparr>td_Tx = None, td_Hash = h, td_BlockHeight = 0, td_Spent = [], td_Err = Some ErrTxShaMissing\<rparr>"

definition fill_reply :: "TxStore \<Rightarrow> TxReply \<Rightarrow> TxStore" where
  "fill_reply txStore r =
     (case txStore (rp_TxSha r) of
        None \<Rightarrow> txStore
      | Some txD \<Rightarrow> txStore(rp_TxSha r \<mapsto>
          (if rp_Err r = None
           then txD\<lparr>td_Err := None, td_Tx := Some (rp_Tx r), td_BlockHeight := rp_Height r, td_Spent := rp_TxSpent r\<rparr>
           else txD\<lparr>td_Err := rp_Err r\<rparr>)))"

definition fetchTxStoreMain :: "chain_db \<Rightarrow> hash list \<Rightarrow> bool \<Rightarrow> TxStore" where
  "fetchTxStoreMain db txSet includeSpent =
     (if length txSet = 0 then Map.empty
      else let txStore = (\<lambda>h. if h \<in> set txSet then Some (missing_tx h) else None);
               txReplyList = (if includeSpent then FetchTxByShaList db txSet else FetchUnSpentTxByShaList db txSet)
           in foldl fill_reply txStore txReplyList)"

text \<open>\<^verbatim>\<open>fetchTxStore\<close>: \<open>at_tip\<close> says that the block extends the best chain; otherwise \<open>detach\<close> and \<open>attach\<close> are
  the heights and transactions of the blocks \<^verbatim>\<open>getReorganizeNodes\<close> returns for its parent.\<close>

definition fetchTxStore :: "(MsgTx \<Rightarrow> hash) \<Rightarrow> chain_db \<Rightarrow> bool \<Rightarrow> (u64 \<times> MsgTx list) list \<Rightarrow> (u64 \<times> MsgTx list) list \<Rightarrow>
    hash list \<Rightarrow> TxStore chain_res" where
  "fetchTxStore th db at_tip detach attach txSet =
     (if at_tip then Inr (fetchTxStoreMain db txSet False)
      else rbind (rfold (\<lambda>st (h, txs). disconnectTransactions th (FetchLastFullySpentTxBeforeHeight db) h st txs)
                   (fetchTxStoreMain db txSet True) detach) (\<lambda>txStore.
        rfold (\<lambda>st (h, txs). connectTransactions th h st txs) txStore attach))"

definition in_flight :: "(MsgTx \<Rightarrow> hash) \<Rightarrow> MsgTx list \<Rightarrow> hash \<Rightarrow> nat option" where
  "in_flight th txs = foldl (\<lambda>m (i, tx). m(th tx \<mapsto> i)) Map.empty (enumerate 0 txs)"

definition need_input :: "(MsgTx \<Rightarrow> hash) \<Rightarrow> u64 \<Rightarrow> MsgTx list \<Rightarrow> nat \<Rightarrow> TxStore \<times> hash list \<Rightarrow> TxIn \<Rightarrow> TxStore \<times> hash list" where
  "need_input th height txs i = (\<lambda>(txStore, needed) txIn.
     let originHash = prev_Hash (in_PreviousOutPoint txIn) in
     case in_flight th txs originHash of
       Some j \<Rightarrow>
         if i \<ge> j
         then (txStore(originHash \<mapsto> \<lparr>td_Tx = Some (txs ! j), td_Hash = originHash, td_BlockHeight = height,
                 td_Spent = replicate (length (tx_TxOut (txs ! j))) False, td_Err = None\<rparr>), needed)
         else (txStore(originHash \<mapsto> missing_tx originHash), List.insert originHash needed)
     | None \<Rightarrow> (txStore(originHash \<mapsto> missing_tx originHash), List.insert originHash needed))"

definition fetchInputTransactions :: "(MsgTx \<Rightarrow> hash) \<Rightarrow> (hash list \<Rightarrow> TxStore chain_res) \<Rightarrow> u64 \<Rightarrow> MsgTx list \<Rightarrow> TxStore chain_res" where
  "fetchInputTransactions th fts height txs =
     (let (txStore, needed) = foldl (\<lambda>acc (i, tx).
            foldl (need_input th height txs i) acc (if IsCoinBase tx then drop 1 (tx_TxIn tx) else tx_TxIn tx))
            (Map.empty, []) (enumerate 0 txs)
      in rbind (fts needed) (\<lambda>txNeededStore. Inr (txStore ++ txNeededStore)))"

definition checkDupTx :: "(MsgTx \<Rightarrow> hash) \<Rightarrow> (hash list \<Rightarrow> TxStore chain_res) \<Rightarrow> MsgTx list \<Rightarrow> unit chain_res" where
  "checkDupTx th fts txs =
     rbind (fts (remdups (map th txs))) (\<lambda>txResults.
     rfold (\<lambda>_ h. case txResults h of
        None \<Rightarrow> Inr ()
      | Some txD \<Rightarrow> (case td_Err txD of
          Some ErrTxShaMissing \<Rightarrow> Inr ()
        | None \<Rightarrow> if \<not> isTransactionSpent txD then Inl ErrOverwriteTx else Inr ()
        | Some e \<Rightarrow> Inl e)) () (remdups (map th txs)))"

subsection \<open>The coinbase\<close>

text \<open>\<open>hash160\<close> stands for \<^verbatim>\<open>chainutil.Hash160\<close> (RIPEMD-160 of SHA-256).\<close>

definition pkToScriptHash :: "(bytes \<Rightarrow> bytes) \<Rightarrow> bytes \<Rightarrow> bytes chain_res" where
  "pkToScriptHash hash160 pubKey =
     (if length (hash160 pubKey) \<noteq> 20 then Inl (ChainText ''pkHash must be 20 bytes'') else Inr (hash160 pubKey))"

definition coinbase_input :: "(bytes \<Rightarrow> bytes) \<Rightarrow> TxStore \<Rightarrow> bytes \<Rightarrow> u64 \<Rightarrow> Amount \<Rightarrow> TxIn \<Rightarrow> Amount chain_res" where
  "coinbase_input hash160 txStore pk nextBlockHeight totalIn txIn =
     (let op = in_PreviousOutPoint txIn in
      case origin txStore txIn of
        None \<Rightarrow> Inl ErrMissingTx
      | Some (originTx, mtx) \<Rightarrow>
         rbind (checkTxInMaturity originTx mtx nextBlockHeight op True) (\<lambda>_.
         rbind (checkDupSpend op (td_Spent originTx)) (\<lambda>_.
         if unat (prev_Index op) \<ge> length (tx_TxOut mtx) then Inl ChainPanic
         else let out = tx_TxOut mtx ! unat (prev_Index op); (class, pops) = GetScriptInfo (out_PkScript out) in
           if class = PoolingScriptHashTy then Inr totalIn
           else if class \<noteq> BindingScriptHashTy then Inl ErrBindingPubKey
           else rbind (pkToScriptHash hash160 pk) (\<lambda>pkScriptHash.
             case GetParsedBindingOpcode pops of
               Inl e \<Rightarrow> Inl (ScriptErr e)
             | Inr (_, bindingScriptHash) \<Rightarrow>
                if pkScriptHash \<noteq> bindingScriptHash then Inl ErrBindingPubKey
                else rbind (NewAmountFromInt (out_Value out)) (amt_Add totalIn)))))"

definition checkCoinbaseInputs :: "(bytes \<Rightarrow> bytes) \<Rightarrow> MsgTx \<Rightarrow> TxStore \<Rightarrow> bytes \<Rightarrow> u64 \<Rightarrow> Amount chain_res" where
  "checkCoinbaseInputs hash160 tx txStore pk nextBlockHeight =
     (if tx_TxIn tx = [] then Inl ChainPanic
      else rfold (coinbase_input hash160 txStore pk nextBlockHeight) ZeroAmount (drop 1 (tx_TxIn tx)))"

record genesis_doc =
  gd_InitHeight :: u64
  gd_AllocTxOut :: "TxOut list"

definition checkCoinbase :: "genesis_doc \<Rightarrow> MsgTx \<Rightarrow> u64 \<Rightarrow> Amount \<Rightarrow> u64 \<Rightarrow> int \<Rightarrow> Amount chain_res" where
  "checkCoinbase gd tx nextBlockHeight totalBinding params_interval bitLength =
     rbind (CalcBlockSubsidy nextBlockHeight params_interval totalBinding bitLength) (\<lambda>(miner, poolReward, senateNode).
     rbind (amt_Add ZeroAmount miner) (\<lambda>totalReward.
     rbind (amt_Add totalReward poolReward) (\<lambda>totalReward.
     rbind (amt_Add totalReward senateNode) (\<lambda>totalReward.
     if nextBlockHeight = gd_InitHeight gd
     then rfold (\<lambda>totalReward allocOut.
            case find (\<lambda>txOut. out_PkScript txOut = out_PkScript allocOut \<and> out_Value txOut = out_Value allocOut) (tx_TxOut tx) of
              None \<Rightarrow> Inl (ChainText ''error tx :'')
            | Some txOut \<Rightarrow> amt_AddInt totalReward (out_Value txOut)) totalReward (gd_AllocTxOut gd)
     else Inr totalReward))))"

definition extractCoinbaseHeight :: "MsgTx \<Rightarrow> u64 chain_res" where
  "extractCoinbaseHeight tx =
     (if length (tx_Payload tx) < 8 then Inl ErrIncompleteCoinbasePayload
      else Inr (of_nat (le_val (take 8 (tx_Payload tx)))))"

definition extractCoinbaseStakingRewardNumber :: "MsgTx \<Rightarrow> u32 chain_res" where
  "extractCoinbaseStakingRewardNumber tx =
     (if length (tx_Payload tx) < 12 then Inl ErrIncompleteCoinbasePayload
      else Inr (of_nat (le_val (take 4 (drop 8 (tx_Payload tx))))))"

definition checkSerializedHeight :: "MsgTx \<Rightarrow> u64 \<Rightarrow> unit chain_res" where
  "checkSerializedHeight tx wantHeight =
     rbind (extractCoinbaseHeight tx) (\<lambda>h. if h \<noteq> wantHeight then Inl ErrBadCoinbaseHeight else Inr ())"

subsection \<open>Signature operations and lock times\<close>

definition CountSigOps :: "MsgTx \<Rightarrow> int" where
  "CountSigOps tx =
     (if IsCoinBase tx then 0
      else foldl (\<lambda>n txOut. n + GetSigOpCount (out_PkScript txOut))
             (foldl (\<lambda>n txIn. if length (in_Witness txIn) > 0 then n + GetSigOpCount (last (in_Witness txIn)) else n) 0 (tx_TxIn tx))
             (tx_TxOut tx))"

definition MaxSigOpsPerBlock :: int where
  "MaxSigOpsPerBlock = 2000000 div 150 * 20"

definition sigops_step :: "int \<Rightarrow> MsgTx \<Rightarrow> int chain_res" where
  "sigops_step totalSigOps tx =
     (let n = i64 (totalSigOps + CountSigOps tx) in
      if n < totalSigOps \<or> n > MaxSigOpsPerBlock then Inl ErrTooManySigOps else Inr n)"

record SequenceLock =
  sl_Seconds :: int
  sl_BlockHeight :: u64

abbreviation (input) mempoolHeight :: u64 where "mempoolHeight \<equiv> 0xffffffffffffffff"

definition SequenceLockActive :: "SequenceLock \<Rightarrow> u64 \<Rightarrow> int \<Rightarrow> bool" where
  "SequenceLockActive sequenceLock blockHeight medianTimePast =
     (if sl_Seconds sequenceLock \<ge> medianTimePast \<or> sl_BlockHeight sequenceLock \<ge> blockHeight then False else True)"

text \<open>\<open>median h\<close> is the past median time, in seconds, of the ancestor of the node at height \<open>h\<close>.\<close>

definition seq_lock_input :: "(u64 \<Rightarrow> int) \<Rightarrow> u64 \<Rightarrow> TxStore \<Rightarrow> SequenceLock \<Rightarrow> TxIn \<Rightarrow> SequenceLock chain_res" where
  "seq_lock_input median nextHeight txStore sequenceLock txIn =
     (case txStore (prev_Hash (in_PreviousOutPoint txIn)) of
        None \<Rightarrow> Inl ErrMissingTx
      | Some utxo \<Rightarrow>
         let coinHeight = (if td_BlockHeight utxo = mempoolHeight then nextHeight else td_BlockHeight utxo);
             sequenceNum = in_Sequence txIn; relativeLock = sequenceNum AND SequenceLockTimeMask in
         if sequenceNum AND SequenceLockTimeDisabled = SequenceLockTimeDisabled then Inr sequenceLock
         else if sequenceNum AND SequenceLockTimeIsSeconds = SequenceLockTimeIsSeconds
         then let prevInputHeight = (if coinHeight > 0 then coinHeight - 1 else 0);
                  timeLockSeconds = push_bit 5 relativeLock - 1;
                  timeLock = i64 (median prevInputHeight + sint timeLockSeconds)
              in Inr (if timeLock > sl_Seconds sequenceLock then sequenceLock\<lparr>sl_Seconds := timeLock\<rparr> else sequenceLock)
         else let blockHeight = coinHeight + relativeLock - 1
              in Inr (if blockHeight > sl_BlockHeight sequenceLock then sequenceLock\<lparr>sl_BlockHeight := blockHeight\<rparr> else sequenceLock))"

definition calcSequenceLock :: "(u64 \<Rightarrow> int) \<Rightarrow> u64 \<Rightarrow> MsgTx \<Rightarrow> TxStore \<Rightarrow> SequenceLock chain_res" where
  "calcSequenceLock median nodeHeight tx txStore =
     (if IsCoinBase tx then Inr \<lparr>sl_Seconds = 0, sl_BlockHeight = 0\<rparr>
      else rfold (seq_lock_input median (nodeHeight + 1) txStore) \<lparr>sl_Seconds = 0, sl_BlockHeight = 0\<rparr> (tx_TxIn tx))"

definition LockTimeToSequence :: "bool \<Rightarrow> u64 \<Rightarrow> u64" where
  "LockTimeToSequence isSeconds locktime =
     (if \<not> isSeconds then locktime else SequenceLockTimeIsSeconds OR drop_bit 5 locktime)"

definition IsFinalizedTransaction :: "MsgTx \<Rightarrow> u64 \<Rightarrow> int \<Rightarrow> bool" where
  "IsFinalizedTransaction msgTx blockHeight blockTime =
     (let lockTime = tx_LockTime msgTx in
      if lockTime = 0 then True
      else let blockTimeOrHeight = (if lockTime < of_nat LockTimeThreshold then sint blockHeight else blockTime) in
        if sint lockTime < blockTimeOrHeight then True
        else list_all (\<lambda>txIn. in_Sequence txIn = MaxTxInSequenceNum) (tx_TxIn msgTx))"

subsection \<open>Output scripts\<close>

text \<open>The inputs of a transaction with a binding output: a missing map entry is a nil pointer.\<close>

definition binding_input :: "TxStore \<Rightarrow> unit \<Rightarrow> TxIn \<Rightarrow> unit chain_res" where
  "binding_input txStore = (\<lambda>_ txIn.
     case txStore (prev_Hash (in_PreviousOutPoint txIn)) of
       None \<Rightarrow> Inl ChainPanic
     | Some d \<Rightarrow> (case td_Tx d of
         None \<Rightarrow> Inl ErrBindingInputMissing
       | Some originTx \<Rightarrow>
          if unat (prev_Index (in_PreviousOutPoint txIn)) \<ge> length (tx_TxOut originTx) then Inl ChainPanic
          else if GetScriptClass (out_PkScript (tx_TxOut originTx ! unat (prev_Index (in_PreviousOutPoint txIn)))) = BindingScriptHashTy
          then Inl ErrStandardBindingTx else Inr ()))"

definition parse_output :: "MsgTx \<Rightarrow> TxStore \<Rightarrow> bool \<Rightarrow> nat \<times> TxOut \<Rightarrow> bool chain_res" where
  "parse_output tx txStore = (\<lambda>checkedBinding (i, txOut).
     rbind (GetPkScriptInfo tx (of_nat i)) (\<lambda>(txOutClass, frozenPeriod, scriptHash, subClass).
     case txOutClass of
       StakingScriptHashTy \<Rightarrow>
         if \<not> IsValidStakingValue (out_Value txOut) then Inl ErrInvalidStakingTxValue
         else if \<not> IsValidFrozenPeriod frozenPeriod then Inl ErrInvalidFrozenPeriod
         else Inr checkedBinding
     | BindingScriptHashTy \<Rightarrow>
         if \<not> checkedBinding
         then rbind (if \<not> IsCoinBase tx then rfold (binding_input txStore) () (tx_TxIn tx) else Inr ()) (\<lambda>_. Inr True)
         else Inr checkedBinding
     | PoolingScriptHashTy \<Rightarrow>
         if \<not> IsValidPoolType subClass then Inl ErrInvalidPoolType
         else if pool_hash subClass \<noteq> scriptHash then Inl ErrStandardPoolingTx
         else Inr checkedBinding
     | AwardingScriptHashTy \<Rightarrow>
         if \<not> IsValidPoolType subClass then Inl ErrInvalidPoolType
         else if \<not> IsValidAwardFrozenPeriod frozenPeriod then Inl ErrInvalidFrozenPeriod
         else Inr checkedBinding
     | NonStandardTy \<Rightarrow> Inl ErrNonStandardType
     | MultiSigTy \<Rightarrow> Inl ErrNonStandardType
     | _ \<Rightarrow> Inr checkedBinding))"

definition checkParsePkScript :: "MsgTx \<Rightarrow> TxStore \<Rightarrow> unit chain_res" where
  "checkParsePkScript tx txStore =
     rbind (rfold (parse_output tx txStore) False (enumerate 0 (tx_TxOut tx))) (\<lambda>_. Inr ())"

subsection \<open>Connecting a block\<close>

text \<open>
  What \<^verbatim>\<open>checkConnectBlock\<close> reads of its node, the block header and the chain: whether the node is the
  genesis block, its height, the public key of the header (none when it is nil or the empty key), the
  bit length of the proof, the view of the chain, the error of fetching the staking rank, the past
  median time of the best chain, the medians of the ancestors and the two caches.
\<close>

record ('pk, 'sg) connect_env =
  ce_crypto :: "('pk, 'sg) crypto"
  ce_genesis :: genesis_doc
  ce_interval :: u64
  ce_isGenesis :: bool
  ce_Height :: u64
  ce_PubKey :: "bytes option"
  ce_BitLength :: int
  ce_fetchTxStore :: "hash list \<Rightarrow> TxStore chain_res"
  ce_staking :: "unit chain_res"
  ce_medianTime :: "int chain_res"
  ce_median :: "u64 \<Rightarrow> int"
  ce_sigCache :: "SigCache option"
  ce_hashCache :: "HashCache option"

definition ce_TxHash :: "('pk, 'sg) connect_env \<Rightarrow> MsgTx \<Rightarrow> hash" where
  "ce_TxHash e tx = the (TxHash (sha256 (ce_crypto e)) tx)"

definition ce_hash160 :: "('pk, 'sg) connect_env \<Rightarrow> bytes \<Rightarrow> bytes" where
  "ce_hash160 e b = ripemd160 (ce_crypto e) (sha256 (ce_crypto e) b)"

definition fees_step :: "u64 \<Rightarrow> Amount \<times> TxStore \<Rightarrow> MsgTx \<Rightarrow> (Amount \<times> TxStore) chain_res" where
  "fees_step height = (\<lambda>(totalFees, txStore) tx.
     rbind (CheckTransactionInputs tx height txStore) (\<lambda>(txFee, txStore).
     case amt_Add totalFees txFee of Inl _ \<Rightarrow> Inl ErrBadFees | Inr totalFees \<Rightarrow> Inr (totalFees, txStore)))"

definition coinbase_value :: "('pk, 'sg) connect_env \<Rightarrow> MsgTx \<Rightarrow> Amount \<Rightarrow> Amount \<Rightarrow> TxStore \<Rightarrow> unit chain_res" where
  "coinbase_value e coinbase totalFees totalCoinbaseOut txStore =
     (case ce_PubKey e of
        None \<Rightarrow> Inr ()
      | Some pk \<Rightarrow>
         rbind (checkCoinbaseInputs (ce_hash160 e) coinbase txStore pk (ce_Height e)) (\<lambda>totalBinding.
         rbind (checkCoinbase (ce_genesis e) coinbase (ce_Height e) totalBinding (ce_interval e) (ce_BitLength e)) (\<lambda>totalReward.
         rbind (GetFeeAfterBurnGas totalFees) (\<lambda>feesAfterGas.
         rbind (amt_Add totalReward feesAfterGas) (\<lambda>maxTotalCoinbaseOut.
         if amt_Cmp totalCoinbaseOut maxTotalCoinbaseOut > 0 then Inl ErrBadCoinbaseValue else Inr ())))))"

definition locks_step :: "('pk, 'sg) connect_env \<Rightarrow> int \<Rightarrow> TxStore \<Rightarrow> unit \<Rightarrow> MsgTx \<Rightarrow> unit chain_res" where
  "locks_step e medianTime txStore = (\<lambda>_ tx.
     rbind (calcSequenceLock (ce_median e) (ce_Height e) tx txStore) (\<lambda>sequenceLock.
     if \<not> SequenceLockActive sequenceLock (ce_Height e) medianTime then Inl ErrSequenceNotSatisfied
     else checkParsePkScript tx txStore))"

text \<open>The checks before the scripts run, which give the store of the inputs with the spent flags set.\<close>

definition connect_checks :: "('pk, 'sg) connect_env \<Rightarrow> MsgTx list \<Rightarrow> TxStore chain_res" where
  "connect_checks e txs =
     (if ce_isGenesis e then Inl ErrConnectGenesis
      else rbind (checkDupTx (ce_TxHash e) (ce_fetchTxStore e) txs) (\<lambda>_.
        rbind (fetchInputTransactions (ce_TxHash e) (ce_fetchTxStore e) (ce_Height e) txs) (\<lambda>txInputStore.
        rbind (rfold sigops_step 0 txs) (\<lambda>_.
        rbind (rfold (fees_step (ce_Height e)) (ZeroAmount, txInputStore) txs) (\<lambda>(totalFees, txInputStore).
        if txs = [] then Inl ChainPanic
        else rbind (rfold (\<lambda>t txOut. amt_AddInt t (out_Value txOut)) ZeroAmount (tx_TxOut (txs ! 0))) (\<lambda>totalCoinbaseOut.
        rbind (ce_staking e) (\<lambda>_.
        rbind (coinbase_value e (txs ! 0) totalFees totalCoinbaseOut txInputStore) (\<lambda>_.
        rbind (ce_medianTime e) (\<lambda>medianTime.
        rbind (rfold (locks_step e medianTime txInputStore) () txs) (\<lambda>_.
        Inr txInputStore))))))))))"

definition checkConnectBlock :: "('pk, 'sg) connect_env \<Rightarrow> MsgTx list \<Rightarrow> unit chain_res option \<times> HashCache option" where
  "checkConnectBlock e txs =
     (case connect_checks e txs of
        Inl err \<Rightarrow> (Some (Inl err), ce_hashCache e)
      | Inr txInputStore \<Rightarrow> checkBlockScripts (ce_crypto e) txs txInputStore 0 (ce_sigCache e) (ce_hashCache e))"

section \<open>Value\<close>

text \<open>The genesis allocation, which the coinbase of the initial height pays in addition to its reward.\<close>

definition alloc_total :: "('pk, 'sg) connect_env \<Rightarrow> int" where
  "alloc_total e = (if ce_Height e = gd_InitHeight (ce_genesis e) then sum_list (map out_Value (gd_AllocTxOut (ce_genesis e))) else 0)"

lemma fees_step_ok:
  "fees_step h (fees, st) tx = Inr (fees', st') \<longleftrightarrow>
     (\<exists>fee. CheckTransactionInputs tx h st = Inr (fee, st') \<and> amt_Add fees fee = Inr fees')"
  by (cases "CheckTransactionInputs tx h st") (auto simp: fees_step_def split: sum.splits)

lemma fees_fold:
  assumes "rfold (fees_step h) (fees, st) txs = Inr (fees', st')" "list_all (\<lambda>tx. \<not> IsCoinBase tx) txs" "0 \<le> val fees" "val fees \<le> max_value"
  shows "distinct (concat (map ops_of txs)) \<and> set (concat (map ops_of txs)) \<subseteq> unspent st \<and>
    unspent st' = unspent st - set (concat (map ops_of txs)) \<and> out_at st' = out_at st \<and>
    (\<Sum>op\<leftarrow>concat (map ops_of txs). value_at st op) = sum_list (map out_total txs) + (val fees' - val fees) \<and>
    0 \<le> val fees' \<and> val fees' \<le> max_value"
  using assms
proof (induction txs arbitrary: fees st)
  case (Cons tx txs)
  obtain fee st1 fees1 where s: "CheckTransactionInputs tx h st = Inr (fee, st1)" "amt_Add fees fee = Inr fees1"
    "rfold (fees_step h) (fees1, st1) txs = Inr (fees', st')"
    using Cons.prems(1) by (auto simp: fees_step_ok rbind_eq_Inr)
  note c = CheckTransactionInputs_ok [OF s(1)]
  have "val fees1 = val fees + val fee" "0 \<le> val fees1" "val fees1 \<le> max_value"
    using s(2) c Cons.prems by (auto simp: amt_Add_iff)
  moreover from this have "value_at st1 = value_at st" using c Cons.prems(2) by (auto simp: value_at_def)
  ultimately show ?case using Cons.IH [OF s(3)] c Cons.prems(2) by auto
qed simp

lemma connect_checks_ok:
  assumes "connect_checks e txs = Inr st'"
  obtains st fees co mt where "txs \<noteq> []" "fetchInputTransactions (ce_TxHash e) (ce_fetchTxStore e) (ce_Height e) txs = Inr st"
    "rfold (fees_step (ce_Height e)) (ZeroAmount, st) txs = Inr (fees, st')"
    "rfold (\<lambda>t txOut. amt_AddInt t (out_Value txOut)) ZeroAmount (tx_TxOut (txs ! 0)) = Inr co"
    "coinbase_value e (txs ! 0) fees co st' = Inr ()" "rfold (locks_step e mt st') () txs = Inr ()"
  using assms by (auto simp: connect_checks_def rbind_eq_Inr split: if_splits)

lemma checkConnectBlock_ok:
  "fst (checkConnectBlock e txs) = Some (Inr ()) \<longleftrightarrow>
     (\<exists>st. connect_checks e txs = Inr st \<and> fst (checkBlockScripts (ce_crypto e) txs st 0 (ce_sigCache e) (ce_hashCache e)) = Some (Inr ()))"
  by (auto simp: checkConnectBlock_def split: sum.splits)

lemma alloc_fold:
  assumes "rfold (\<lambda>t allocOut.
      case find (\<lambda>txOut. out_PkScript txOut = out_PkScript allocOut \<and> out_Value txOut = out_Value allocOut) outs of
        None \<Rightarrow> Inl err
      | Some txOut \<Rightarrow> amt_AddInt t (out_Value txOut)) a allocs = Inr a'" "0 \<le> val a" "val a \<le> max_value"
  shows "val a' = val a + sum_list (map out_Value allocs) \<and> 0 \<le> val a' \<and> val a' \<le> max_value"
  using assms
proof (induction allocs arbitrary: a)
  case (Cons x allocs)
  then obtain y b where "find (\<lambda>txOut. out_PkScript txOut = out_PkScript x \<and> out_Value txOut = out_Value x) outs = Some y"
    and b: "amt_AddInt a (out_Value y) = Inr b"
    and r: "rfold (\<lambda>t allocOut.
      case find (\<lambda>txOut. out_PkScript txOut = out_PkScript allocOut \<and> out_Value txOut = out_Value allocOut) outs of
        None \<Rightarrow> Inl err
      | Some txOut \<Rightarrow> amt_AddInt t (out_Value txOut)) b allocs = Inr a'"
    by (auto simp: rbind_eq_Inr split: option.splits)
  moreover from this(1) have "out_Value y = out_Value x" by (auto simp: find_Some_iff)
  ultimately show ?case using Cons.IH [OF r] Cons.prems(2,3) by (auto simp: amt_AddInt_iff)
qed simp

text \<open>The reward a coinbase may pay: the subsidy of the height, at the initial height the allocation, and the fees.\<close>

lemma coinbase_value_ok:
  assumes "coinbase_value e cb fees co st = Inr ()" "ce_PubKey e = Some pk" "0 \<le> val fees" "val fees \<le> max_value"
  shows "\<exists>u. CalcCoinbaseSubsidy (if ce_interval e = 0 then 0 else SubsidyHalvingInterval) (ce_Height e) = Inr u \<and>
    val co \<le> u_value u + alloc_total e + val fees"
proof -
  obtain tb tr f mx where x: "checkCoinbase (ce_genesis e) cb (ce_Height e) tb (ce_interval e) (ce_BitLength e) = Inr tr"
    "GetFeeAfterBurnGas fees = Inr f" "amt_Add tr f = Inr mx" "\<not> val mx < val co"
    using assms(1,2) by (auto simp: coinbase_value_def rbind_eq_Inr split: if_splits)
  obtain u m p s where u: "CalcCoinbaseSubsidy (if ce_interval e = 0 then 0 else SubsidyHalvingInterval) (ce_Height e) = Inr u"
    "CalcBlockSubsidy (ce_Height e) (ce_interval e) tb (ce_BitLength e) = Inr (m, p, s)"
    "0 \<le> val m" "0 \<le> val p" "0 \<le> val s" "val m + val p + val s \<le> u_value u"
    using subsidy_split [of "ce_interval e" "ce_Height e" tb "ce_BitLength e"] by blast
  obtain t1 t2 t where t: "amt_Add ZeroAmount m = Inr t1" "amt_Add t1 p = Inr t2" "amt_Add t2 s = Inr t"
    and r: "(if ce_Height e = gd_InitHeight (ce_genesis e)
      then rfold (\<lambda>totalReward allocOut.
            case find (\<lambda>txOut. out_PkScript txOut = out_PkScript allocOut \<and> out_Value txOut = out_Value allocOut) (tx_TxOut cb) of
              None \<Rightarrow> Inl (ChainText ''error tx :'')
            | Some txOut \<Rightarrow> amt_AddInt totalReward (out_Value txOut)) t (gd_AllocTxOut (ce_genesis e))
      else Inr t) = Inr tr"
    using x(1) u(2) by (auto simp: checkCoinbase_def rbind_eq_Inr)
  have v: "val t = val m + val p + val s" "0 \<le> val t" "val t \<le> max_value" using t u(3-5) by (auto simp: amt_Add_iff)
  have "val tr = val m + val p + val s + alloc_total e \<and> 0 \<le> val tr"
  proof (cases "ce_Height e = gd_InitHeight (ce_genesis e)")
    case True
    then show ?thesis using alloc_fold [OF _ v(2,3)] r v(1) by (auto simp: alloc_total_def)
  qed (use r v in \<open>auto simp: alloc_total_def\<close>)
  moreover have "val f = val fees" using x(2) by (auto simp: GetFeeAfterBurnGas_def NewAmount_def checkedAmount_iff)
  ultimately have "val mx = val m + val p + val s + alloc_total e + val fees" using x(3) assms(3) by (auto simp: amt_Add_iff) 
  then show ?thesis using u x(4) by auto
qed

lemma coinbase_out_total:
  assumes "rfold (\<lambda>t txOut. amt_AddInt t (out_Value txOut)) ZeroAmount outs = Inr co"
  shows "val co = sum_list (map out_Value outs)"
proof -
  have "val a' = val a + sum_list (map out_Value outs)"
    if "rfold (\<lambda>t txOut. amt_AddInt t (out_Value txOut)) a outs = Inr a'" "0 \<le> val a" "val a \<le> max_value" for a a'
    using that
  proof (induction outs arbitrary: a)
    case (Cons x outs)
    then obtain b where "amt_AddInt a (out_Value x) = Inr b" "rfold (\<lambda>t txOut. amt_AddInt t (out_Value txOut)) b outs = Inr a'"
      by (auto simp: rbind_eq_Inr)
    then show ?case using Cons.IH [of b] Cons.prems(2,3) by (auto simp: amt_AddInt_iff)
  qed simp
  from this [OF assms] show ?thesis by simp
qed

section \<open>Properties\<close>


text \<open>A block at height 200 with a coinbase that pays 40 and a transaction that spends 10 and pays 7.\<close>

definition example_out :: "int \<Rightarrow> TxOut" where
  "example_out v = \<lparr>out_Value = v, out_PkScript = OP_0 # 32 # replicate 32 7\<rparr>"

definition example_block :: "MsgTx list" where
  "example_block = [example_coinbase\<lparr>tx_TxOut := [example_out 40]\<rparr>, (example_spend 0)\<lparr>tx_TxOut := [example_out 7]\<rparr>]"

definition example_env :: "bytes \<Rightarrow> (bytes, bytes) connect_env" where
  "example_env pk = \<lparr>ce_crypto = key_crypto, ce_genesis = \<lparr>gd_InitHeight = 1, gd_AllocTxOut = []\<rparr>, ce_interval = SubsidyHalvingInterval,
     ce_isGenesis = False, ce_Height = 200, ce_PubKey = Some [2], ce_BitLength = 24,
     ce_fetchTxStore = (\<lambda>hs. Inr (\<lambda>h. if h \<in> set hs then pooling_store pk h else None)), ce_staking = Inr (), ce_medianTime = Inr 1000,
     ce_median = (\<lambda>_. 0), ce_sigCache = None, ce_hashCache = None\<rparr>"

lemma example_TxHash: "ce_TxHash (example_env pk) = (\<lambda>_. replicate 32 32)"
  by (rule ext) (simp add: ce_TxHash_def example_env_def TxHash_eq DoubleHashH_def key_crypto_def)

lemma example_checks:
  "case connect_checks (example_env pooling_script) example_block of Inl e \<Rightarrow> False
   | Inr st \<Rightarrow> map_option snd (origin st (hd (tx_TxIn (example_spend 0)))) = Some (pooling_tx pooling_script)"
  unfolding connect_checks_def example_TxHash by code_simp

lemma example_block_accepted: "fst (checkConnectBlock (example_env pooling_script) example_block) = Some (Inr ())"
proof -
  obtain st d where st: "connect_checks (example_env pooling_script) example_block = Inr st"
    "origin st (hd (tx_TxIn (example_spend 0))) = Some (d, pooling_tx pooling_script)"
    using example_checks by (auto split: sum.splits)
  have "validate_item c st fl cache it = Some (Inr ())" if "vi_txIn it = hd (tx_TxIn (example_spend 0))"
    for it fl cache and c :: "(bytes, bytes) crypto"
    by (rule validate_pooling) (use st(2) that in \<open>auto simp: example_spend_def pooling_tx_info\<close>, simp add: pooling_tx_def)
  then have "validate_all (validate_item c st fl cache) (script_items (example_block ! 1) hs) = Some (Inr ())"
    for hs fl cache and c :: "(bytes, bytes) crypto"
    unfolding validate_all_ok by (auto simp: script_items_def example_block_def example_spend_def enumerate_eq_zip)
  then show ?thesis using st(1) unfolding checkConnectBlock_ok
    by (auto simp: checkBlockScripts_def block_items_def example_block_def example_env_def)
qed


end
