(* ===== verification/Block_Safety.thy ===== *)
theory Block_Safety
  imports Block_Connect
begin

text \<open>
  What an accepted block means for locked outputs. The script engine (\<^verbatim>\<open>src/txscript/engine.go\<close>) makes the
  sequence number of an input satisfy the lock that a staking or binding output carries, and
  \<^verbatim>\<open>calcSequenceLock\<close> (\<^verbatim>\<open>src/blockchain/chain.go\<close>) makes the block high enough for that sequence number; the two
  are joined here over \<^verbatim>\<open>checkConnectBlock\<close>.
\<close>

section \<open>Sequence numbers\<close>

lemma and_or_mask: "w AND m = w \<Longrightarrow> w AND (s OR m) = (w :: u64)" "(w AND (s OR m)) AND s = w AND s"
  by (metis and.assoc word_ao_absorbs(1)) (auto intro!: bit_word_eqI simp: bit_simps)

lemma and_single_bit: "(w :: u64) AND 2 ^ n \<noteq> 0 \<Longrightarrow> w AND 2 ^ n = 2 ^ n"
  by (auto intro!: bit_word_eqI simp: and_exp_eq_0_iff_not_bit bit_simps)

text \<open>A lock of less than \<open>2 ^ 32\<close> blocks forces a sequence number that counts at least as many blocks.\<close>

lemma lock_in_blocks:
  assumes "lock_satisfied (word_of_int (int n)) sq" "n < 2 ^ 32"
  shows "sq AND SequenceLockTimeDisabled = 0" "sq AND SequenceLockTimeIsSeconds = 0" "n \<le> unat (sq AND SequenceLockTimeMask)"
proof -
  let ?w = "word_of_int (int n) :: u64" and ?M = "SequenceLockTimeIsSeconds OR SequenceLockTimeMask"
  have u: "unat ?w = n" using assms(2) by (simp add: unat_of_nat)
  have s: "sq AND SequenceLockTimeDisabled = 0" "?w AND ?M \<le> sq AND ?M"
    "?w AND ?M < SequenceLockTimeIsSeconds \<longleftrightarrow> sq AND ?M < SequenceLockTimeIsSeconds"
    using assms(1) by (simp_all add: lock_satisfied_def Let_def)
  have m: "SequenceLockTimeMask = mask 32" "SequenceLockTimeIsSeconds = 2 ^ 38" by (simp_all add: mask_eq_exp_minus_1)
  have "?w < 2 ^ 32" using u assms(2) by (simp add: word_less_nat_alt)
  then have "?w AND SequenceLockTimeMask = ?w" unfolding m(1) by (rule less_mask_eq)
  then have w: "?w AND ?M = ?w" by (rule and_or_mask(1))
  have "?w < SequenceLockTimeIsSeconds" by (rule order.strict_trans [OF \<open>?w < 2 ^ 32\<close>]) simp
  then have lt: "sq AND ?M < SequenceLockTimeIsSeconds" using s(3) unfolding w by (simp only:)
  have sec: "sq AND SequenceLockTimeIsSeconds = 0"
  proof (rule ccontr)
    assume "sq AND SequenceLockTimeIsSeconds \<noteq> 0"
    then have "sq AND SequenceLockTimeIsSeconds = SequenceLockTimeIsSeconds" unfolding m(2) by (rule and_single_bit)
    then have "(sq AND ?M) AND SequenceLockTimeIsSeconds = SequenceLockTimeIsSeconds" by (simp only: and_or_mask(2))
    then have "SequenceLockTimeIsSeconds \<le> sq AND ?M" using word_and_le2 [of "sq AND ?M" SequenceLockTimeIsSeconds] by (simp only:)
    then show False using lt by simp
  qed
  have "sq AND ?M = sq AND SequenceLockTimeMask" unfolding word_ao_dist2 sec by (simp only: or.left_neutral)
  then have "?w \<le> sq AND SequenceLockTimeMask" using s(2) w by (simp only:)
  then show "n \<le> unat (sq AND SequenceLockTimeMask)" using u by (simp add: word_le_nat_alt)
  show "sq AND SequenceLockTimeDisabled = 0" "sq AND SequenceLockTimeIsSeconds = 0" by (fact s(1), fact sec)
qed

definition block_lock :: "u64 \<Rightarrow> TxStore \<Rightarrow> TxIn \<Rightarrow> u64 option" where
  "block_lock nextHeight st ti =
     (case st (prev_Hash (in_PreviousOutPoint ti)) of
        None \<Rightarrow> None
      | Some d \<Rightarrow>
         if in_Sequence ti AND SequenceLockTimeDisabled = SequenceLockTimeDisabled \<or>
            in_Sequence ti AND SequenceLockTimeIsSeconds = SequenceLockTimeIsSeconds then None
         else Some ((if td_BlockHeight d = mempoolHeight then nextHeight else td_BlockHeight d) +
           (in_Sequence ti AND SequenceLockTimeMask) - 1))"

lemma seq_lock_input_height:
  assumes "seq_lock_input median nh st sl ti = Inr sl'"
  shows "sl_BlockHeight sl \<le> sl_BlockHeight sl' \<and> (\<forall>l. block_lock nh st ti = Some l \<longrightarrow> l \<le> sl_BlockHeight sl')"
  using assms by (auto simp: seq_lock_input_def block_lock_def Let_def not_less less_imp_le split: option.splits if_splits)

lemma seq_lock_fold:
  assumes "rfold (seq_lock_input median nh st) sl ins = Inr sl'"
  shows "sl_BlockHeight sl \<le> sl_BlockHeight sl' \<and> (\<forall>ti \<in> set ins. \<forall>l. block_lock nh st ti = Some l \<longrightarrow> l \<le> sl_BlockHeight sl')"
  using assms
proof (induction ins arbitrary: sl)
  case (Cons ti ins)
  then obtain s1 where "seq_lock_input median nh st sl ti = Inr s1" "rfold (seq_lock_input median nh st) s1 ins = Inr sl'"
    by (auto simp: rbind_eq_Inr)
  then show ?case using seq_lock_input_height [of median nh st sl ti s1] Cons.IH [of s1] by (auto intro: order_trans)
qed simp

text \<open>An accepted block is above the block lock of every input it contains.\<close>

lemma locks_fold:
  assumes "rfold (locks_step e mt st) () txs = Inr ()" "tx \<in> set txs" "\<not> IsCoinBase tx" "ti \<in> set (tx_TxIn tx)"
    "block_lock (ce_Height e + 1) st ti = Some l"
  shows "l < ce_Height e"
proof -
  have "locks_step e mt st () tx = Inr ()" using assms(1,2)
    by (induction txs) (auto simp: rbind_eq_Inr)
  then obtain sl where sl: "rfold (seq_lock_input (ce_median e) (ce_Height e + 1) st) \<lparr>sl_Seconds = 0, sl_BlockHeight = 0\<rparr> (tx_TxIn tx) = Inr sl"
    "sl_BlockHeight sl < ce_Height e"
    using assms(3) by (auto simp: locks_step_def rbind_eq_Inr calcSequenceLock_def SequenceLockActive_def split: if_splits)
  then have "l \<le> sl_BlockHeight sl" using seq_lock_fold [OF sl(1)] assms(4,5) by blast
  then show ?thesis using sl(2) by (rule le_less_trans)
qed

section \<open>Scripts\<close>

lemma block_items_cover:
  assumes "foldl (block_items sha) (hc, items) txs = (hc', items')" "tx \<in> set txs" "i < length (tx_TxIn tx)"
    "prev_Index (in_PreviousOutPoint (tx_TxIn tx ! i)) \<noteq> 0xffffffff"
  shows "\<exists>hs. \<lparr>vi_txInIndex = i, vi_txIn = tx_TxIn tx ! i, vi_tx = tx, vi_sigHashes = hs\<rparr> \<in> set items'"
proof -
  let ?it = "\<lambda>hs. \<lparr>vi_txInIndex = i, vi_txIn = tx_TxIn tx ! i, vi_tx = tx, vi_sigHashes = hs\<rparr>"
  have grow: "set items \<subseteq> set items'" if "foldl (block_items sha) (hc, items) txs = (hc', items')" for hc items hc' items' txs
    using that
  proof (induction txs arbitrary: hc items)
    case (Cons t txs)
    obtain h1 items1 where b: "block_items sha (hc, items) t = (h1, items1)" by (metis surj_pair)
    then have "set items \<subseteq> set items1" by (auto simp: block_items_def Let_def split: option.splits)
    then show ?case using Cons.IH [of h1 items1] Cons.prems b by auto
  qed simp
  have here: "\<exists>hs. ?it hs \<in> set items1" if "block_items sha (hc, items) tx = (h1, items1)" for hc items h1 items1
  proof -
    have "\<exists>hs. set (script_items tx hs) \<subseteq> set items1" using that by (auto simp: block_items_def Let_def split: option.splits)
    moreover have "?it hs \<in> set (script_items tx hs)" for hs
      using assms(3,4) by (auto simp: script_items_def in_set_enumerate_eq image_iff)
    ultimately show ?thesis by blast
  qed
  show ?thesis using assms(1,2)
  proof (induction txs arbitrary: hc items)
    case (Cons t txs)
    obtain h1 items1 where b: "block_items sha (hc, items) t = (h1, items1)" by (metis surj_pair)
    then have r: "foldl (block_items sha) (h1, items1) txs = (hc', items')" using Cons.prems(1) by simp
    show ?case using Cons.IH [OF r] here [of hc items h1 items1] grow [OF r] b Cons.prems(2) by (cases "t = tx") auto
  qed simp
qed

text \<open>An input of an accepted block either spends a pooling output or its script accepted it.\<close>

lemma scripts_accept:
  assumes "fst (checkBlockScripts c txs st fl cache hashes) = Some (Inr ())" "tx \<in> set (tl txs)" "i < length (tx_TxIn tx)"
    "origin st (tx_TxIn tx ! i) = Some (d, mtx)" "GetPkScriptInfo mtx (prev_Index (in_PreviousOutPoint (tx_TxIn tx ! i))) = Inr (class, r)"
    "class \<noteq> PoolingScriptHashTy" "prev_Index (in_PreviousOutPoint (tx_TxIn tx ! i)) \<noteq> 0xffffffff"
  shows "\<exists>hs vm. NewEngine (out_PkScript (tx_TxOut mtx ! unat (prev_Index (in_PreviousOutPoint (tx_TxIn tx ! i))))) tx (int i) fl cache hs
      (out_Value (tx_TxOut mtx ! unat (prev_Index (in_PreviousOutPoint (tx_TxIn tx ! i))))) = Inr vm \<and> Execute c vm = Some (Inr ())"
proof -
  have "txs \<noteq> []" using assms(2) by auto
  obtain hc items where i: "foldl (block_items (sha256 c)) (hashes, []) (drop 1 txs) = (hc, items)" by (metis surj_pair)
  then have "validate_all (validate_item c st fl cache) items = Some (Inr ())"
    using assms(1) \<open>txs \<noteq> []\<close> by (auto simp: checkBlockScripts_def split: option.splits sum.splits)
  moreover obtain hs where "\<lparr>vi_txInIndex = i, vi_txIn = tx_TxIn tx ! i, vi_tx = tx, vi_sigHashes = hs\<rparr> \<in> set items"
    using block_items_cover [OF i _ assms(3,7)] assms(2) by (auto simp: drop_Suc)
  ultimately have "validate_item c st fl cache \<lparr>vi_txInIndex = i, vi_txIn = tx_TxIn tx ! i, vi_tx = tx, vi_sigHashes = hs\<rparr> = Some (Inr ())"
    unfolding validate_all_ok by blast
  then show ?thesis using assms(4-6)
    by (auto simp: validate_item_def Let_def script_error_of_def split: if_splits sum.splits option.splits)
qed

lemma staking_info:
  assumes "WitPkScriptParseFunc pk = Inr (StakingScriptHashTy, fp, r)"
  obtains ps where "parseScript pk = (ps, None)" "isWitnessStakingScript ps" "length (pop_data (ps ! 2)) = 8"
    "fp = of_nat (le_val (pop_data (ps ! 2)))"
proof -
  obtain ps where ps: "parseScript pk = (ps, None)" "typeOfScript ps = StakingScriptHashTy" "GetParsedOpcode ps StakingScriptHashTy = Inr (fp, r)"
    using assms by (auto simp: WitPkScriptParseFunc_def GetScriptInfo_def Let_def split: prod.splits option.splits if_splits sum.splits script_error.splits)
  have s: "isWitnessStakingScript ps" using ps(2) by (auto simp: typeOfScript_def split: if_splits)
  then have l: "length ps = 3" "pop_value (ps ! 2) = OP_DATA_8" by (simp_all add: isWitnessStakingScript_def)
  then have "length (pop_data (ps ! 2)) = 8"
    using push_op_data(2) [of "ps ! 2"] parse_instr_ok [OF ps(1)] by (simp add: list_all_length)
  then show thesis using that [OF ps(1) s] ps(3) l by (auto simp: GetParsedOpcode_def rbind_eq_Inr data_at_def read_u64_def split: if_splits)
qed

lemma binding_info:
  assumes "WitPkScriptParseFunc pk = Inr (BindingScriptHashTy, fp, r)"
  obtains ps where "parseScript pk = (ps, None)" "isWitnessBindingScript ps" "fp = 172800"
proof -
  obtain ps where ps: "parseScript pk = (ps, None)" "typeOfScript ps = BindingScriptHashTy" "GetParsedOpcode ps BindingScriptHashTy = Inr (fp, r)"
    using assms by (auto simp: WitPkScriptParseFunc_def GetScriptInfo_def Let_def split: prod.splits option.splits if_splits sum.splits script_error.splits)
  then show thesis using that [OF ps(1)] by (auto simp: typeOfScript_def GetParsedOpcode_def rbind_eq_Inr split: if_splits)
qed

text \<open>The lock of an output, in blocks, and that an accepting script enforces it.\<close>

definition lock_blocks :: "ScriptClass \<Rightarrow> u64 \<Rightarrow> nat" where
  "lock_blocks class frozen = (if class = StakingScriptHashTy then unat frozen + 1 else unat frozen)"

lemma script_lock:
  assumes "NewEngine pk tx idx fl cache hs amt = Inr vm" "Execute c vm = Some (Inr ())" "WitPkScriptParseFunc pk = Inr (class, frozen, r)"
    "class = StakingScriptHashTy \<and> IsValidFrozenPeriod frozen \<or> class = BindingScriptHashTy"
  shows "lock_satisfied (word_of_int (int (lock_blocks class frozen))) (in_Sequence (tx_TxIn tx ! nat idx)) \<and>
    0 < lock_blocks class frozen \<and> lock_blocks class frozen < 2 ^ 32"
proof (cases "class = StakingScriptHashTy")
  case True
  then have fp: "unat frozen < 2 ^ 32 - 1" using assms(4) by (auto simp: IsValidFrozenPeriod_def word_le_nat_alt)
  obtain ps where ps: "parseScript pk = (ps, None)" "isWitnessStakingScript ps" "length (pop_data (ps ! 2)) = 8"
    "frozen = of_nat (le_val (pop_data (ps ! 2)))" using assms(3) True by (auto elim: staking_info)
  have v: "le_val (pop_data (ps ! 2)) = unat frozen" using ps(3,4) le_val_bound [of "pop_data (ps ! 2)"] by (simp add: unat_of_nat)
  then have "pop_data (ps ! 2) = put_le 8 (unat frozen)" using put_le_le_val [of "pop_data (ps ! 2)"] ps(3) by simp
  then have m: "makeScriptNum (pop_data (ps ! 2)) False 9 = Inr (int (unat frozen))" using makeScriptNum_lock [of "unat frozen"] fp by simp
  obtain n where "makeScriptNum (pop_data (ps ! 2)) False 9 = Inr (int n - 1)"
    "lock_satisfied (word_of_int (int n)) (in_Sequence (tx_TxIn tx ! nat idx))"
    using staking_lock [OF assms(1,2) ps(1,2)] by blast
  moreover from this have "int (unat frozen) = int n - 1" unfolding m by (simp only: sum.inject)
  then have "n = unat frozen + 1" by linarith
  ultimately show ?thesis using True fp by (simp add: lock_blocks_def)
next
  case False
  then obtain ps where "parseScript pk = (ps, None)" "isWitnessBindingScript ps" "frozen = 172800"
    using assms(3,4) by (auto elim: binding_info)
  then show ?thesis using binding_lock [OF assms(1,2)] False by (simp add: lock_blocks_def)
qed

section \<open>Properties\<close>

text \<open>C1. Frozen coins stay frozen. Let a block be accepted, and one of its transactions (not a coinbase by the test of the source) spend an
  output of a transaction confirmed at a height \<open>h < 2^63\<close> that has fewer than \<open>2^32 - 1\<close> outputs. If it is a staking output whose frozen
  period \<open>f\<close> is one \<^verbatim>\<open>IsValidFrozenPeriod\<close> admits, the height of the block is at least \<open>h + f + 1\<close>. If it is a binding output, the
  height is at least \<open>h + 172800\<close>, the period of all binding outputs; the block at exactly \<open>h + 172800\<close> is not excluded.\<close>

theorem frozen_outputs_locked:
  assumes "connect_checks e txs = Inr st" "fst (checkConnectBlock e txs) = Some (Inr ())" "tx \<in> set (tl txs)" "\<not> IsCoinBase tx"
    "i < length (tx_TxIn tx)" "origin st (tx_TxIn tx ! i) = Some (d, mtx)" "length (tx_TxOut mtx) < 2 ^ 32 - 1"
    "GetPkScriptInfo mtx (prev_Index (in_PreviousOutPoint (tx_TxIn tx ! i))) = Inr (class, frozen, r)"
    "class = StakingScriptHashTy \<and> IsValidFrozenPeriod frozen \<or> class = BindingScriptHashTy" "unat (td_BlockHeight d) < 2 ^ 63"
  shows "unat (td_BlockHeight d) + unat frozen + (if class = StakingScriptHashTy then 1 else 0) \<le> unat (ce_Height e)"
proof -
  let ?ti = "tx_TxIn tx ! i" and ?n = "lock_blocks class frozen"
  let ?rel = "in_Sequence ?ti AND SequenceLockTimeMask" and ?h = "td_BlockHeight d"
  have idx: "unat (prev_Index (in_PreviousOutPoint ?ti)) < length (tx_TxOut mtx)"
    and info: "WitPkScriptParseFunc (out_PkScript (tx_TxOut mtx ! unat (prev_Index (in_PreviousOutPoint ?ti)))) = Inr (class, frozen, r)"
    using assms(8) by (auto simp: GetPkScriptInfo_def split: if_splits sum.splits)
  have "prev_Index (in_PreviousOutPoint ?ti) \<noteq> 0xffffffff" using idx assms(7) by auto
  moreover have "fst (checkBlockScripts (ce_crypto e) txs st 0 (ce_sigCache e) (ce_hashCache e)) = Some (Inr ())"
    using assms(1,2) unfolding checkConnectBlock_ok by auto
  ultimately have "lock_satisfied (word_of_int (int ?n)) (in_Sequence ?ti) \<and> 0 < ?n \<and> ?n < 2 ^ 32"
    using scripts_accept [OF _ assms(3,5,6,8)] script_lock [OF _ _ info assms(9)] assms(9) by fastforce
  then have n: "0 < ?n" "in_Sequence ?ti AND SequenceLockTimeDisabled = 0" "in_Sequence ?ti AND SequenceLockTimeIsSeconds = 0" "?n \<le> unat ?rel"
    using lock_in_blocks [of ?n "in_Sequence ?ti"] by auto
  have rel: "unat ?rel < 2 ^ 32" using word_and_le1 [of "in_Sequence ?ti" SequenceLockTimeMask] by (simp add: word_le_nat_alt)
  have "?h \<noteq> mempoolHeight" using assms(10) by auto
  then have l: "block_lock (ce_Height e + 1) st ?ti = Some (?h + ?rel - 1)"
    using n(2,3) assms(6) by (simp add: block_lock_def origin_Some)
  obtain mt where "rfold (locks_step e mt st) () txs = Inr ()" using assms(1) by (rule connect_checks_ok)
  then have "?h + ?rel - 1 < ce_Height e" by (rule locks_fold [OF _ _ assms(4) _ l]) (use assms(3,5) in \<open>cases txs; simp\<close>)+
  moreover have "unat (?h + ?rel - 1) = unat ?h + unat ?rel - 1"
    using assms(10) rel n(1,4) by (simp add: unat_sub_if' unat_word_ariths)
  ultimately show ?thesis using n(1,4) by (simp add: word_less_nat_alt lock_blocks_def split: if_splits)
qed

text \<open>A binding output of height 100 that is spent in a block of height 200000.\<close>

lemma binding_bytes: "put_le 8 (172800 :: nat) = [0, 163, 2, 0, 0, 0, 0, 0]"
proof -
  have "(8 :: nat) = Suc (Suc (Suc (Suc (Suc (Suc (Suc (Suc 0)))))))" by simp
  then show ?thesis by (simp only: put_le.simps) simp
qed

lemma binding_lock_pops: "lock_pops (put_le 8 BindingTxFrozenPeriod) = Inr (lock_ops [0, 163, 2, 0, 0, 0, 0, 0])"
  using lock_pops_eq [of "put_le 8 BindingTxFrozenPeriod"] unfolding binding_bytes by simp

lemma ext_scripts_code [code]:
  "ext_scripts vm =
     (let ext = witnessExtProg vm in
      if length ext = 0 then Inr []
      else if length ext = 1
      then (let d = pop_data (ext ! 0) in
            if length d = WitnessV0FrozenPeriodDataSize
            then rbind (frozen_pops d (verifyMinimalData (dstack vm))) (\<lambda>pops. Inr [pops])
            else if length d = WitnessV0PoCPubKeyHashDataSize then Inr [lock_ops [0, 163, 2, 0, 0, 0, 0, 0]]
            else if length d = WitnessV0PoolTypeDataSize then Inr []
            else Inl ErrWitnessExtProgUnknown)
      else if length ext = 2
      then (if length (pop_data (ext ! 0)) = WitnessV0PoolTypeDataSize \<and>
               length (pop_data (ext ! 1)) = WitnessV0FrozenPeriodDataSize
            then rbind (frozen_pops (pop_data (ext ! 1)) (verifyMinimalData (dstack vm))) (\<lambda>pops. Inr [pops])
            else Inl ErrWitnessExtProgUnknown)
      else Inl ErrWitnessExtProgUnknown)"
  unfolding ext_scripts_def binding_lock_pops rbind_Inr ..

definition binding_script :: bytes where
  "binding_script = OP_0 # 32 # replicate 32 1 @ 20 # replicate 20 5"

definition binding_spend :: MsgTx where
  "binding_spend = (example_spend 0)\<lparr>tx_TxOut := [example_out 7],
     tx_TxIn := [(hd (tx_TxIn (example_spend 0)))\<lparr>in_Witness := [[OP_1], [OP_NOP]], in_Sequence := 172800\<rparr>]\<rparr>"

definition binding_block :: "MsgTx list" where
  "binding_block = [example_coinbase\<lparr>tx_TxOut := [example_out 40]\<rparr>, binding_spend]"

definition binding_env :: "(bytes, bytes) connect_env" where
  "binding_env = (example_env binding_script)\<lparr>ce_Height := 200000\<rparr>"

definition binding_hashes :: TxSigHashes where
  "binding_hashes = \<lparr>HashPrevOuts = replicate 32 32, HashSequence = replicate 32 32, HashOutputs = replicate 32 32,
     sh_TxVersion = put_le 4 1, sh_TxLockTime = put_le 8 0\<rparr>"

lemma binding_hashes: "NewTxSigHashes (sha256 key_crypto) binding_spend = binding_hashes"
  by (simp add: binding_hashes_def binding_spend_def example_spend_def NewTxSigHashes_def calcHashPrevOuts_def calcHashSequence_def
      calcHashOutputs_def DoubleHashH_def key_crypto_def)

lemma binding_script_accepted:
  "(case NewEngine binding_script binding_spend 0 0 None (Some binding_hashes) 10 of Inl e \<Rightarrow> None | Inr vm \<Rightarrow> Execute key_crypto vm) = Some (Inr ())"
  by code_simp

lemma binding_TxHash: "ce_TxHash binding_env = (\<lambda>_. replicate 32 32)"
  using example_TxHash [of binding_script] by (simp add: binding_env_def ce_TxHash_def [abs_def])

lemma binding_checks:
  "case connect_checks binding_env binding_block of Inl e \<Rightarrow> False
   | Inr st \<Rightarrow> map_option (\<lambda>(d, m). (td_BlockHeight d, m)) (origin st (hd (tx_TxIn binding_spend))) = Some (100, pooling_tx binding_script)"
  unfolding connect_checks_def binding_TxHash by code_simp

lemma binding_info_value: "GetPkScriptInfo (pooling_tx binding_script) 0 = Inr (BindingScriptHashTy, 172800, replicate 32 1, 0)"
  by code_simp

theorem frozen_outputs_locked_witness:
  "\<exists>st. connect_checks binding_env binding_block = Inr st \<and> fst (checkConnectBlock binding_env binding_block) = Some (Inr ()) \<and>
     100 + 172800 \<le> unat (ce_Height binding_env)"
proof -
  let ?ti = "tx_TxIn binding_spend ! 0"
  obtain st d where st: "connect_checks binding_env binding_block = Inr st" "origin st ?ti = Some (d, pooling_tx binding_script)" "td_BlockHeight d = 100"
    using binding_checks by (auto simp: binding_spend_def split: sum.splits)
  have op: "prev_Index (in_PreviousOutPoint ?ti) = 0" "length (in_Witness ?ti) = 2" by (simp_all add: binding_spend_def example_spend_def)
  have outs: "tx_TxOut (pooling_tx binding_script) = [\<lparr>out_Value = 10, out_PkScript = binding_script\<rparr>]" by (simp add: pooling_tx_def)
  obtain vm where "NewEngine binding_script binding_spend 0 0 None (Some binding_hashes) 10 = Inr vm" "Execute key_crypto vm = Some (Inr ())"
    using binding_script_accepted by (auto split: sum.splits)
  then have v: "validate_item key_crypto st 0 None
      \<lparr>vi_txInIndex = 0, vi_txIn = ?ti, vi_tx = binding_spend, vi_sigHashes = Some binding_hashes\<rparr> = Some (Inr ())"
    using st(2) op outs by (simp add: validate_item_def binding_info_value Let_def)
  have "script_items binding_spend h = [\<lparr>vi_txInIndex = 0, vi_txIn = ?ti, vi_tx = binding_spend, vi_sigHashes = h\<rparr>]" for h
    by (simp add: script_items_def binding_spend_def example_spend_def)
  then have "fst (checkBlockScripts key_crypto binding_block st 0 None None) = Some (Inr ())"
    using v by (simp add: checkBlockScripts_def binding_block_def block_items_def binding_hashes)
  then have ok: "fst (checkConnectBlock binding_env binding_block) = Some (Inr ())"
    using st(1) by (simp add: checkConnectBlock_def binding_env_def example_env_def)
  have "unat (td_BlockHeight d) + unat (172800 :: u64) + (if BindingScriptHashTy = StakingScriptHashTy then 1 else 0) \<le> unat (ce_Height binding_env)"
    by (rule frozen_outputs_locked [OF st(1) ok, where tx = binding_spend and i = 0 and mtx = "pooling_tx binding_script"])
       (use st(2,3) in \<open>auto simp: op(1) binding_info_value outs binding_block_def IsCoinBase_def binding_spend_def example_spend_def\<close>)
  then show ?thesis using st ok by (simp add: binding_env_def)
qed

end
