(* ===== verification/Skt_Sha256.thy ===== *)
theory Skt_Sha256
  imports Miner_Prelude "HOL-Library.Signed_Division"
begin

text \<open>
  The hash function of the proof of capacity, package \<^verbatim>\<open>src/poc/pocutil/crypto/sha256\<close>: the SHA-256
  construction with constants of its own, as a digest that is written to in pieces
  (\<^verbatim>\<open>sha256.go\<close>) over a block function (\<^verbatim>\<open>sha256block.go\<close>). Arrays are lists of their length; the 32-bit
  arithmetic is the one of \<open>32 word\<close>. \<open>None\<close> is the panic of \<^verbatim>\<open>checkSum\<close>. The reference function pads a
  whole message and compresses its blocks; the lemmas relate every state of a digest to the bytes
  written so far.
\<close>

section \<open>The digest\<close>

definition chunk :: nat where "chunk = 64"

record digest =
  dig_h :: "u32 list"
  dig_x :: bytes
  dig_nx :: int
  dig_len :: u64
  dig_is224 :: bool

definition init256 :: "u32 list" where
  "init256 = [0x05DCA181, 0x23305590, 0x1B63F0AC, 0x100D00D1, 0x05DCA181, 0x1F3976D0, 0x0E1895AD, 0x16C86B6D]"

definition init224 :: "u32 list" where
  "init224 = [0xC1059ED8, 0x367CD507, 0x3070DD17, 0xF70E5939, 0xFFC00B31, 0x68581511, 0x64F98FA7, 0xBEFA4FA4]"

definition sha_K :: "u32 list" where
  "sha_K =
    [0x107A9B40, 0x15D343C8, 0x1F832C97, 0x09196EB6, 0x1A3521F0, 0x1B4E2BAA, 0x1ECAB17A, 0x22B15A5F,
     0x071E14A6, 0x0B049EE4, 0x206FA884, 0x243A913A, 0x129D81EB, 0x020441A2, 0x1AF95535, 0x1186C607,
     0x008720FA, 0x0CDE6553, 0x211994AF, 0x22A925A4, 0x067CB0A2, 0x19672126, 0x1500D69D, 0x021BD321,
     0x14D28390, 0x1B9377DC, 0x17EEC3B1, 0x0F318F19, 0x1209AD1B, 0x02BFF016, 0x20264CAD, 0x0DCA2418,
     0x1148B5C7, 0x24949014, 0x0BDECD79, 0x1EE14E8F, 0x1DDCC5E3, 0x03735183, 0x03F12FE7, 0x071515C0,
     0x0EFAF299, 0x00736663, 0x2109EAF8, 0x0BF12D08, 0x0BD2C905, 0x0C3E0A50, 0x2113FDAC, 0x24143795,
     0x21E7D3E6, 0x10FAFE53, 0x09593102, 0x216A2E84, 0x21728290, 0x22B4C81F, 0x1140DB2B, 0x1B83BCD5,
     0x19E78FE0, 0x17BCF2AA, 0x07D9379F, 0x1C9FFFD5, 0x0510ACF3, 0x07E32C1D, 0x11079C1A, 0x0ED85BC2]"

text \<open>\<^verbatim>\<open>copy(dst[off:], src)\<close> into an array.\<close>

definition go_copy :: "'a list \<Rightarrow> nat \<Rightarrow> 'a list \<Rightarrow> 'a list" where
  "go_copy dst off src = take off dst @ take (length dst - off) src @ drop (off + length src) dst"

definition putUint32 :: "u32 \<Rightarrow> bytes" where
  "putUint32 s = [ucast (drop_bit 24 s), ucast (drop_bit 16 s), ucast (drop_bit 8 s), ucast s]"

definition putUint64 :: "u64 \<Rightarrow> bytes" where
  "putUint64 s =
     [ucast (drop_bit 56 s), ucast (drop_bit 48 s), ucast (drop_bit 40 s), ucast (drop_bit 32 s),
      ucast (drop_bit 24 s), ucast (drop_bit 16 s), ucast (drop_bit 8 s), ucast s]"

definition consumeUint32 :: "bytes \<Rightarrow> bytes \<times> u32" where
  "consumeUint32 b =
     (drop 4 b, ucast (b ! 3) OR push_bit 8 (ucast (b ! 2)) OR push_bit 16 (ucast (b ! 1)) OR
        push_bit 24 (ucast (b ! 0)))"

definition consumeUint64 :: "bytes \<Rightarrow> bytes \<times> u64" where
  "consumeUint64 b =
     (drop 8 b, ucast (b ! 7) OR push_bit 8 (ucast (b ! 6)) OR push_bit 16 (ucast (b ! 5)) OR
        push_bit 24 (ucast (b ! 4)) OR push_bit 32 (ucast (b ! 3)) OR push_bit 40 (ucast (b ! 2)) OR
        push_bit 48 (ucast (b ! 1)) OR push_bit 56 (ucast (b ! 0)))"

section \<open>The block function\<close>

text \<open>\<^verbatim>\<open>v>>n | v<<(32-n)\<close>.\<close>

definition rotr :: "nat \<Rightarrow> u32 \<Rightarrow> u32" where
  "rotr n v = drop_bit n v OR push_bit (32 - n) v"

definition load_word :: "bytes \<Rightarrow> nat \<Rightarrow> u32" where
  "load_word p i =
     (let j = i * 4 in
      push_bit 24 (ucast (p ! j)) OR push_bit 16 (ucast (p ! (j + 1))) OR push_bit 8 (ucast (p ! (j + 2))) OR
        ucast (p ! (j + 3)))"

text \<open>The array \<^verbatim>\<open>w\<close> is filled from left to right: the list holds the words computed so far.\<close>

definition next_word :: "u32 list \<Rightarrow> u32" where
  "next_word w =
     (let i = length w; v1 = w ! (i - 2); t1 = rotr 17 v1 XOR rotr 19 v1 XOR drop_bit 10 v1;
          v2 = w ! (i - 15); t2 = rotr 7 v2 XOR rotr 18 v2 XOR drop_bit 3 v2
      in t1 + w ! (i - 7) + t2 + w ! (i - 16))"

primrec expand_words :: "nat \<Rightarrow> u32 list \<Rightarrow> u32 list" where
  "expand_words 0 w = w"
| "expand_words (Suc k) w = expand_words k (w @ [next_word w])"

definition sha_schedule :: "bytes \<Rightarrow> u32 list" where
  "sha_schedule p = expand_words 48 (map (load_word p) [0..<16])"

type_synonym sha_vars = "u32 \<times> u32 \<times> u32 \<times> u32 \<times> u32 \<times> u32 \<times> u32 \<times> u32"

definition sha_round :: "sha_vars \<Rightarrow> u32 \<times> u32 \<Rightarrow> sha_vars" where
  "sha_round = (\<lambda>(a, b, c, d, e, f, g, h) (k, w).
     let t1 = h + (rotr 6 e XOR rotr 11 e XOR rotr 25 e) + ((e AND f) XOR (NOT e AND g)) + k + w;
         t2 = (rotr 2 a XOR rotr 13 a XOR rotr 22 a) + ((a AND b) XOR (a AND c) XOR (b AND c))
     in (t1 + t2, a, b, c, d + t1, e, f, g))"

definition sha_block :: "u32 list \<Rightarrow> bytes \<Rightarrow> u32 list" where
  "sha_block hs p =
     (case foldl sha_round (hs ! 0, hs ! 1, hs ! 2, hs ! 3, hs ! 4, hs ! 5, hs ! 6, hs ! 7)
        (zip sha_K (sha_schedule p)) of
      (a, b, c, d, e, f, g, h) \<Rightarrow>
        [hs ! 0 + a, hs ! 1 + b, hs ! 2 + c, hs ! 3 + d, hs ! 4 + e, hs ! 5 + f, hs ! 6 + g, hs ! 7 + h])"

function sha_blocks :: "u32 list \<Rightarrow> bytes \<Rightarrow> u32 list" where
  "sha_blocks hs p = (if length p \<ge> chunk then sha_blocks (sha_block hs p) (drop chunk p) else hs)"
  by auto

termination
  by (relation "measure (\<lambda>(hs, p). length p)") (auto simp: chunk_def)

declare sha_blocks.simps [simp del]

definition blockGeneric :: "digest \<Rightarrow> bytes \<Rightarrow> digest" where
  "blockGeneric dig p = dig\<lparr>dig_h := sha_blocks (dig_h dig) p\<rparr>"

section \<open>Operations\<close>

definition dig_Reset :: "digest \<Rightarrow> digest" where
  "dig_Reset d =
     d\<lparr>dig_h := (if \<not> dig_is224 d then init256 else init224), dig_nx := 0, dig_len := 0\<rparr>"

definition new_digest :: "bool \<Rightarrow> digest" where
  "new_digest b = \<lparr>dig_h = replicate 8 0, dig_x = replicate chunk 0, dig_nx = 0, dig_len = 0, dig_is224 = b\<rparr>"

definition sha_New :: digest where "sha_New = dig_Reset (new_digest False)"

definition sha_New224 :: digest where "sha_New224 = dig_Reset (new_digest True)"

definition dig_Size :: "digest \<Rightarrow> nat" where
  "dig_Size d = (if \<not> dig_is224 d then 32 else 28)"

text \<open>The three parts of \<^verbatim>\<open>Write\<close>: filling the buffer, whole blocks of the input, the rest.\<close>

definition write_buffer :: "digest \<Rightarrow> bytes \<Rightarrow> digest \<times> bytes" where
  "write_buffer d p =
     (if dig_nx d > 0 then
        let n = min (chunk - nat (dig_nx d)) (length p);
            d = d\<lparr>dig_x := go_copy (dig_x d) (nat (dig_nx d)) p, dig_nx := dig_nx d + int n\<rparr>;
            d = (if dig_nx d = int chunk then (blockGeneric d (dig_x d))\<lparr>dig_nx := 0\<rparr> else d)
        in (d, drop n p)
      else (d, p))"

definition write_blocks :: "digest \<Rightarrow> bytes \<Rightarrow> digest \<times> bytes" where
  "write_blocks d p =
     (if length p \<ge> chunk then
        let n = length p - length p mod chunk in (blockGeneric d (take n p), drop n p)
      else (d, p))"

definition write_rest :: "digest \<Rightarrow> bytes \<Rightarrow> digest" where
  "write_rest d p =
     (if length p > 0 then d\<lparr>dig_x := go_copy (dig_x d) 0 p, dig_nx := int (min chunk (length p))\<rparr> else d)"

definition dig_Write :: "digest \<Rightarrow> bytes \<Rightarrow> digest" where
  "dig_Write d p =
     (let d = d\<lparr>dig_len := dig_len d + of_nat (length p)\<rparr>; (d, p) = write_buffer d p;
          (d, p) = write_blocks d p
      in write_rest d p)"

text \<open>\<^verbatim>\<open>checkSum\<close> writes the padding into its receiver: it returns the hash and the digest it leaves behind. \<open>None\<close> is
  its panic. \<^verbatim>\<open>Sum\<close> works on a copy and leaves its receiver as it was.\<close>

definition checkSum :: "digest \<Rightarrow> (bytes \<times> digest) option" where
  "checkSum d =
     (let len = dig_len d; tmp = 0x80 # replicate 63 0;
          d = dig_Write d (if unat len mod 64 < 56 then take (56 - unat len mod 64) tmp
                else take (64 + 56 - unat len mod 64) tmp);
          d = dig_Write d (putUint64 (push_bit 3 len))
      in if dig_nx d \<noteq> 0 then None
         else Some (concat (map (\<lambda>i. putUint32 (dig_h d ! i)) [0..<7]) @
           (if \<not> dig_is224 d then putUint32 (dig_h d ! 7) else replicate 4 0), d))"

definition dig_Sum :: "digest \<Rightarrow> bytes \<Rightarrow> (bytes \<times> digest) option" where
  "dig_Sum d b =
     (let d0 = d in
      case checkSum d0 of
        None \<Rightarrow> None
      | Some (hash, d0) \<Rightarrow> Some (b @ (if dig_is224 d0 then take 28 hash else hash), d))"

definition Sum256 :: "bytes \<Rightarrow> bytes option" where
  "Sum256 data = map_option fst (checkSum (dig_Write sha_New data))"

definition Sum224 :: "bytes \<Rightarrow> bytes option" where
  "Sum224 data = map_option (take 28 \<circ> fst) (checkSum (dig_Write sha_New224 data))"

subsection \<open>Saving and restoring a digest\<close>

definition magic224 :: bytes where "magic224 = [0x73, 0x68, 0x61, 2]"

definition magic256 :: bytes where "magic256 = [0x73, 0x68, 0x61, 3]"

definition marshaledSize :: nat where "marshaledSize = 4 + 8 * 4 + chunk + 8"

text \<open>\<open>None\<close> is the panic of \<^verbatim>\<open>d.x[:d.nx]\<close> for an index outside the buffer.\<close>

definition MarshalBinary :: "digest \<Rightarrow> bytes option" where
  "MarshalBinary d =
     (if dig_nx d < 0 \<or> int (length (dig_x d)) < dig_nx d then None
      else Some
        ((if dig_is224 d then magic224 else magic256) @
         concat (map (\<lambda>i. putUint32 (dig_h d ! i)) [0..<8]) @
         take (nat (dig_nx d)) (dig_x d) @ replicate (length (dig_x d) - nat (dig_nx d)) 0 @
         putUint64 (dig_len d)))"

primrec consume_words :: "nat \<Rightarrow> bytes \<Rightarrow> bytes \<times> u32 list" where
  "consume_words 0 b = (b, [])"
| "consume_words (Suc k) b =
     (let (b, x) = consumeUint32 b; (b, xs) = consume_words k b in (b, x # xs))"

text \<open>The new value of the digest, or \<open>None\<close> when the bytes are refused.\<close>

definition UnmarshalBinary :: "digest \<Rightarrow> bytes \<Rightarrow> digest option" where
  "UnmarshalBinary d b =
     (if length b < 4 \<or> (dig_is224 d \<and> take 4 b \<noteq> magic224) \<or> (\<not> dig_is224 d \<and> take 4 b \<noteq> magic256)
      then None
      else if length b \<noteq> marshaledSize then None
      else
        let (b, hs) = consume_words 8 (drop 4 b); x = go_copy (dig_x d) 0 b;
            (b, len) = consumeUint64 (drop (min chunk (length b)) b)
        in Some (d\<lparr>dig_h := hs, dig_x := x, dig_len := len, dig_nx := sint len smod int chunk\<rparr>))"

section \<open>Reference function\<close>

text \<open>
  The padding of a message of \<open>n\<close> bytes: a one bit, zeros up to 56 modulo 64 bytes, the length in bits. The
  reference compresses the blocks of the padded message.
\<close>

definition sha_pad :: "nat \<Rightarrow> bytes" where
  "sha_pad n = 0x80 # replicate ((119 - n mod 64) mod 64) 0 @ putUint64 (of_nat (8 * n))"

definition sha_init :: "bool \<Rightarrow> u32 list" where
  "sha_init b = (if b then init224 else init256)"

definition sha_ref :: "bool \<Rightarrow> bytes \<Rightarrow> bytes" where
  "sha_ref b m =
     take (if b then 28 else 32) (concat (map putUint32 (sha_blocks (sha_init b) (m @ sha_pad (length m)))))"

text \<open>A use of a digest as a sequence of calls, with the sums it returns, and what the sums should be.\<close>

datatype sha_call = CallWrite bytes | CallSum bytes | CallReset

fun run_calls :: "digest \<Rightarrow> sha_call list \<Rightarrow> bytes list option" where
  "run_calls d [] = Some []"
| "run_calls d (CallWrite p # cs) = run_calls (dig_Write d p) cs"
| "run_calls d (CallSum b # cs) =
     (case dig_Sum d b of None \<Rightarrow> None | Some (s, d) \<Rightarrow> map_option ((#) s) (run_calls d cs))"
| "run_calls d (CallReset # cs) = run_calls (dig_Reset d) cs"

fun ref_calls :: "bool \<Rightarrow> bytes \<Rightarrow> sha_call list \<Rightarrow> bytes list" where
  "ref_calls b m [] = []"
| "ref_calls b m (CallWrite p # cs) = ref_calls b (m @ p) cs"
| "ref_calls b m (CallSum s # cs) = (s @ sha_ref b m) # ref_calls b m cs"
| "ref_calls b m (CallReset # cs) = ref_calls b [] cs"

text \<open>The bytes a digest has absorbed: whole blocks \<open>p\<close>, compressed, and a rest \<open>r\<close>, in the buffer.\<close>

definition absorbed :: "digest \<Rightarrow> bytes \<Rightarrow> bytes \<Rightarrow> bool" where
  "absorbed d p r \<longleftrightarrow>
     length (dig_x d) = 64 \<and> dig_nx d = int (length r) \<and> length r < 64 \<and> take (length r) (dig_x d) = r \<and>
     64 dvd length p \<and> dig_h d = sha_blocks (sha_init (dig_is224 d)) p"

definition holds_message :: "digest \<Rightarrow> bytes \<Rightarrow> bool" where
  "holds_message d m \<longleftrightarrow> (\<exists>p r. m = p @ r \<and> absorbed d p r) \<and> dig_len d = of_nat (length m)"

section \<open>Lemmas\<close>

lemma length_go_copy [simp]: "off \<le> length dst \<Longrightarrow> length (go_copy dst off src) = length dst"
  by (simp add: go_copy_def)

lemma sha_block_append: "chunk \<le> length p \<Longrightarrow> sha_block hs (p @ q) = sha_block hs p"
proof -
  assume p: "chunk \<le> length p"
  have "load_word (p @ q) i = load_word p i" if "i < 16" for i
    using that p by (simp add: load_word_def chunk_def nth_append Let_def)
  then have "sha_schedule (p @ q) = sha_schedule p"
    unfolding sha_schedule_def by (metis (no_types, lifting) atLeastLessThan_iff map_cong set_upt)
  then show ?thesis by (simp add: sha_block_def)
qed

lemma sha_blocks_short [simp]: "length p < 64 \<Longrightarrow> sha_blocks hs p = hs"
  by (subst sha_blocks.simps) (simp add: chunk_def)

lemma whole_blocks_short: "64 dvd length p \<Longrightarrow> length p < 64 \<Longrightarrow> p = []"
  by (metis dvd_imp_le length_greater_0_conv linorder_not_less)

lemma sha_blocks_append: "64 dvd length p \<Longrightarrow> sha_blocks hs (p @ q) = sha_blocks (sha_blocks hs p) q"
proof (induction hs p rule: sha_blocks.induct)
  case (1 hs p)
  show ?case
  proof (cases "chunk \<le> length p")
    case True
    have "64 dvd length (drop chunk p)" using 1(2) True by (auto simp: chunk_def elim: dvdE)
    then have "sha_blocks (sha_block hs p) (drop chunk p @ q) = sha_blocks (sha_blocks (sha_block hs p) (drop chunk p)) q"
      using 1(1) True by blast
    then show ?thesis
      using True sha_blocks.simps [of hs p] sha_blocks.simps [of hs "p @ q"] by (simp add: sha_block_append)
  next
    case False
    then have "p = []" using 1(2) by (simp add: chunk_def whole_blocks_short)
    then show ?thesis by simp
  qed
qed

lemma length_putUint [simp]: "length (putUint32 s) = 4" "length (putUint64 v) = 8"
  by (simp_all add: putUint32_def putUint64_def)

lemma length_sha_blocks: "length hs = 8 \<Longrightarrow> length (sha_blocks hs p) = 8"
proof (induction hs p rule: sha_blocks.induct)
  case (1 hs p)
  have "length (sha_block hs p) = 8" by (simp add: sha_block_def split: prod.split)
  then show ?case using 1 by (subst sha_blocks.simps) simp
qed

subsection \<open>Writing\<close>

lemma write_buffer_absorbed:
  assumes d: "absorbed d p r" and w: "write_buffer d q = (d', q')"
  shows "\<exists>p' r'. absorbed d' p' r' \<and> p' @ r' @ q' = p @ r @ q \<and> (r' = [] \<or> q' = []) \<and>
    dig_len d' = dig_len d \<and> dig_is224 d' = dig_is224 d"
proof (cases "r = []")
  case True
  then show ?thesis using assms by (auto simp: write_buffer_def absorbed_def)
next
  case False
  define n where "n = min (64 - length r) (length q)"
  have nx: "dig_nx d = int (length r)" "0 < dig_nx d" and x: "length (dig_x d) = 64" "take (length r) (dig_x d) = r"
    and r: "length r < 64" and p: "64 dvd length p" and h: "dig_h d = sha_blocks (sha_init (dig_is224 d)) p"
    using d False by (auto simp: absorbed_def)
  have cp: "go_copy (dig_x d) (length r) q = r @ take (64 - length r) q @ drop (length r + length q) (dig_x d)"
    using x by (simp add: go_copy_def)
  show ?thesis
  proof (cases "64 - length r \<le> length q")
    case True
    then have n: "n = 64 - length r" by (simp add: n_def)
    have b: "go_copy (dig_x d) (length r) q = r @ take n q" using True x by (simp add: cp n)
    have l: "length (r @ take n q) = 64" using True r by (simp add: n)
    have "64 dvd length (p @ r @ take n q)" unfolding length_append [of p] l using p by simp
    then have "absorbed d' (p @ r @ take n q) []" "q' = drop n q" "dig_len d' = dig_len d" "dig_is224 d' = dig_is224 d"
      using w nx r True p h l by (auto simp: write_buffer_def chunk_def Let_def n b absorbed_def blockGeneric_def
          sha_blocks_append simp del: length_append)
    then show ?thesis by (intro exI [of _ "p @ r @ take n q"] exI [of _ "[]"]) simp
  next
    case False
    have "int (length r) + int (length q) \<noteq> 64" using False by linarith
    then have "absorbed d' p (r @ q)" "q' = []" "dig_len d' = dig_len d" "dig_is224 d' = dig_is224 d"
      using w nx r False p h x by (auto simp: write_buffer_def chunk_def Let_def cp absorbed_def)
    then show ?thesis by (intro exI [of _ p] exI [of _ "r @ q"]) simp
  qed
qed

lemma write_blocks_absorbed:
  assumes d: "absorbed d p r" and e: "r = [] \<or> q = []" and w: "write_blocks d q = (d', q')"
  shows "\<exists>p'. absorbed d' p' r \<and> p' @ r @ q' = p @ r @ q \<and> (r = [] \<or> q' = []) \<and> length q' < 64 \<and>
    dig_len d' = dig_len d \<and> dig_is224 d' = dig_is224 d"
proof (cases "64 \<le> length q")
  case True
  define n where "n = length q - length q mod 64"
  have r: "r = []" using e True by auto
  have n: "64 dvd n" "n \<le> length q" by (simp_all add: n_def)
  have "d' = blockGeneric d (take n q)" "q' = drop n q" using w True by (simp_all add: write_blocks_def chunk_def n_def Let_def)
  moreover have "length (drop n q) < 64" by (simp add: n_def)
  ultimately show ?thesis
    using d r n by (intro exI [of _ "p @ take n q"]) (auto simp: absorbed_def blockGeneric_def sha_blocks_append)
next
  case False
  then show ?thesis using assms by (auto simp: write_blocks_def chunk_def)
qed

lemma write_rest_absorbed:
  assumes d: "absorbed d p r" and e: "r = [] \<or> q = []" and q: "length q < 64"
  shows "absorbed (write_rest d q) p (r @ q)"
  using assms by (cases "q = []") (auto simp: write_rest_def absorbed_def go_copy_def chunk_def)

lemma dig_Write_holds:
  assumes "holds_message d m"
  shows "holds_message (dig_Write d q) (m @ q)" "dig_is224 (dig_Write d q) = dig_is224 d"
proof -
  obtain p r where m: "m = p @ r" "absorbed d p r" and l: "dig_len d = of_nat (length m)"
    using assms by (auto simp: holds_message_def)
  define d0 where "d0 = d\<lparr>dig_len := dig_len d + of_nat (length q)\<rparr>"
  obtain d1 q1 where 1: "write_buffer d0 q = (d1, q1)" by fastforce
  obtain d2 q2 where 2: "write_blocks d1 q1 = (d2, q2)" by fastforce
  have W: "dig_Write d q = write_rest d2 q2" using 1 2 by (simp add: dig_Write_def d0_def [symmetric] Let_def)
  have "absorbed d0 p r" using m(2) by (simp add: d0_def absorbed_def)
  from write_buffer_absorbed [OF this 1] obtain p1 r1 where a1: "absorbed d1 p1 r1" "p1 @ r1 @ q1 = p @ r @ q"
    "r1 = [] \<or> q1 = []" "dig_len d1 = dig_len d0" "dig_is224 d1 = dig_is224 d0" by blast
  from write_blocks_absorbed [OF a1(1,3) 2] obtain p2 where a2: "absorbed d2 p2 r1" "p2 @ r1 @ q2 = p1 @ r1 @ q1"
    "r1 = [] \<or> q2 = []" "length q2 < 64" "dig_len d2 = dig_len d1" "dig_is224 d2 = dig_is224 d1" by blast
  have "absorbed (dig_Write d q) p2 (r1 @ q2)" unfolding W by (rule write_rest_absorbed [OF a2(1,3,4)])
  moreover have "m @ q = p2 @ (r1 @ q2)" using m a1(2) a2(2) by simp
  moreover have "dig_len (write_rest d2 q2) = dig_len d2" "dig_is224 (write_rest d2 q2) = dig_is224 d2"
    by (simp_all add: write_rest_def)
  moreover have "dig_len d0 = of_nat (length (m @ q))" using l by (simp add: d0_def)
  ultimately show "holds_message (dig_Write d q) (m @ q)" "dig_is224 (dig_Write d q) = dig_is224 d"
    using a1(4,5) a2(5,6) unfolding holds_message_def W by (auto simp: d0_def simp del: length_append)
qed

lemma dig_Writes_hold:
  "holds_message d m \<Longrightarrow>
     holds_message (foldl dig_Write d cs) (m @ concat cs) \<and> dig_is224 (foldl dig_Write d cs) = dig_is224 d"
proof (induction cs arbitrary: d m)
  case (Cons c cs)
  then show ?case using dig_Write_holds [OF Cons.prems, of c] Cons.IH [of "dig_Write d c" "m @ c"] by simp
qed simp

lemma new_holds: "holds_message sha_New []" "holds_message sha_New224 []"
  by (auto simp: holds_message_def absorbed_def sha_New_def sha_New224_def dig_Reset_def new_digest_def chunk_def
      sha_init_def)

subsection \<open>The sum\<close>

lemma length_sha_pad: "64 dvd n + length (sha_pad n)"
proof -
  have e: "n + length (sha_pad n) = 64 * (n div 64) + (n mod 64 + 9 + (119 - n mod 64) mod 64)"
    by (simp add: sha_pad_def)
  have "64 dvd k + 9 + (119 - k) mod 64" if "k < 64" for k :: nat
  proof (cases "k < 56")
    case True
    then have "(119 - k) mod 64 = 55 - k" by (simp add: mod_if)
    then show ?thesis using True by simp
  next
    case False
    then have "(119 - k) mod 64 = 119 - k" using that by simp
    then show ?thesis using that False by simp
  qed
  then show ?thesis unfolding e by (intro dvd_add [OF dvd_triv_left]) simp
qed

lemma pad_zeros:
  "k < 64 \<Longrightarrow> (if k < 56 then take (56 - k) (0x80 # replicate 63 0) else take (64 + 56 - k) (0x80 # replicate 63 0))
     = (0x80 # replicate ((119 - k) mod 64) 0 :: bytes)"
proof (cases "k < 56")
  case True
  then have "(119 - k) mod 64 = 55 - k" "56 - k = Suc (55 - k)" by (simp_all add: mod_if)
  then show ?thesis using True by simp
next
  case False
  moreover assume "k < 64"
  ultimately have "(119 - k) mod 64 = 119 - k" "64 + 56 - k = Suc (119 - k)" by simp_all
  then show ?thesis using False by simp
qed

lemma sha_pad_written:
  fixes len :: u64
  assumes "len = of_nat n"
  shows "(if unat len mod 64 < 56 then take (56 - unat len mod 64) (0x80 # replicate 63 0)
     else take (64 + 56 - unat len mod 64) (0x80 # replicate 63 0)) @ putUint64 (push_bit 3 len) = sha_pad n"
proof -
  have "unat len mod 64 = n mod 64" using assms by (simp add: unat_of_nat mod_mod_cancel)
  moreover have "push_bit 3 len = of_nat (8 * n)" using assms by (simp add: push_bit_eq_mult)
  moreover have "(if n mod 64 < 56 then take (56 - n mod 64) (0x80 # replicate 63 0)
      else take (64 + 56 - n mod 64) (0x80 # replicate 63 0)) = (0x80 # replicate ((119 - n mod 64) mod 64) 0 :: bytes)"
    by (rule pad_zeros) simp
  ultimately show ?thesis by (simp only: sha_pad_def append_Cons)
qed

lemma checkSum_eq:
  assumes d: "holds_message d m"
  shows "\<exists>hs. length hs = 8 \<and> hs = sha_blocks (sha_init (dig_is224 d)) (m @ sha_pad (length m)) \<and>
    (\<exists>d'. dig_is224 d' = dig_is224 d \<and> checkSum d = Some (concat (map (\<lambda>i. putUint32 (hs ! i)) [0..<7]) @
      (if dig_is224 d then replicate 4 0 else putUint32 (hs ! 7)), d'))"
proof -
  have l: "dig_len d = of_nat (length m)" using d by (simp add: holds_message_def)
  define a where "a = (if unat (dig_len d) mod 64 < 56 then take (56 - unat (dig_len d) mod 64) (0x80 # replicate 63 0)
     else take (64 + 56 - unat (dig_len d) mod 64) (0x80 # replicate 63 (0 :: byte)))"
  define d' where "d' = dig_Write (dig_Write d a) (putUint64 (push_bit 3 (dig_len d)))"
  have "a @ putUint64 (push_bit 3 (dig_len d)) = sha_pad (length m)"
    unfolding a_def by (rule sha_pad_written [OF l])
  then have h: "holds_message d' (m @ sha_pad (length m))" and b: "dig_is224 d' = dig_is224 d"
    using dig_Write_holds [OF dig_Write_holds(1) [OF d, of a]] dig_Write_holds(2) [OF d, of a]
    unfolding d'_def by (metis append.assoc, simp)
  obtain p r where p: "m @ sha_pad (length m) = p @ r" "absorbed d' p r" using h by (auto simp: holds_message_def)
  have "64 dvd length p + length r" using length_sha_pad [of "length m"] arg_cong [OF p(1), of length] by simp
  then have "64 dvd length r" using p(2) by (simp add: absorbed_def dvd_add_right_iff)
  then have r: "r = []" using p(2) by (simp add: absorbed_def whole_blocks_short)
  let ?hs = "sha_blocks (sha_init (dig_is224 d)) (m @ sha_pad (length m))"
  have "dig_nx d' = 0" "dig_h d' = ?hs" using p r b by (simp_all add: absorbed_def)
  then have "checkSum d = Some (concat (map (\<lambda>i. putUint32 (?hs ! i)) [0..<7]) @
      (if dig_is224 d then replicate 4 0 else putUint32 (?hs ! 7)), d')"
    using b unfolding checkSum_def a_def [symmetric] Let_def by (simp add: d'_def [symmetric])
  moreover have "length ?hs = 8" by (rule length_sha_blocks) (simp add: sha_init_def init224_def init256_def)
  ultimately show ?thesis using b by blast
qed

lemma map_nth_upt: "length hs = n \<Longrightarrow> k \<le> n \<Longrightarrow> map (\<lambda>i. f (hs ! i)) [0..<k] = map f (take k hs)"
  by (rule nth_equalityI) simp_all

lemma length_concat_words [simp]: "length (concat (map putUint32 hs)) = 4 * length hs"
  by (induction hs) simp_all

lemma concat_single_word: "concat (map f [x]) = f x"
  by simp

lemma dig_Sum_eq:
  assumes d: "holds_message d m"
  shows "dig_Sum d b = Some (b @ sha_ref (dig_is224 d) m, d)"
proof -
  from checkSum_eq [OF d] obtain hs d' where l: "length hs = 8"
    and hs: "hs = sha_blocks (sha_init (dig_is224 d)) (m @ sha_pad (length m))"
    and c: "dig_is224 d' = dig_is224 d" "checkSum d = Some (concat (map (\<lambda>i. putUint32 (hs ! i)) [0..<7]) @
      (if dig_is224 d then replicate 4 0 else putUint32 (hs ! 7)), d')" by blast
  have "concat (map (\<lambda>i. putUint32 (hs ! i)) [0..<7]) = concat (map putUint32 (take 7 hs))"
    using map_nth_upt [OF l, of 7 putUint32] by simp
  moreover have "hs = take 7 hs @ [hs ! 7]" using l take_Suc_conv_app_nth [of 7 hs] by simp
  then have "concat (map putUint32 hs) = concat (map putUint32 (take 7 hs)) @ putUint32 (hs ! 7)"
    by (metis (no_types) concat_single_word concat_append map_append)
  ultimately show ?thesis using l by (simp add: dig_Sum_def Let_def sha_ref_def c hs [symmetric])
qed

lemma checkSum_ref:
  assumes "holds_message d m"
  shows "\<exists>h d'. checkSum d = Some (h, d') \<and> (if dig_is224 d then take 28 h else h) = sha_ref (dig_is224 d) m"
proof -
  obtain h d' where c: "checkSum d = Some (h, d')" "dig_is224 d' = dig_is224 d" using checkSum_eq [OF assms] by blast
  then show ?thesis using dig_Sum_eq [OF assms, of "[]"] by (auto simp: dig_Sum_def)
qed

lemma dig_Reset_holds: "holds_message d m \<Longrightarrow> holds_message (dig_Reset d) [] \<and> dig_is224 (dig_Reset d) = dig_is224 d"
  by (auto simp: holds_message_def absorbed_def dig_Reset_def sha_init_def)

lemma run_calls_eq: "holds_message d m \<Longrightarrow> run_calls d cs = Some (ref_calls (dig_is224 d) m cs)"
proof (induction cs arbitrary: d m)
  case (Cons c cs)
  show ?case
  proof (cases c)
    case (CallWrite p)
    then show ?thesis using Cons.IH [OF dig_Write_holds(1) [OF Cons.prems]] dig_Write_holds(2) [OF Cons.prems] by simp
  next
    case (CallSum b)
    then show ?thesis using Cons.IH [OF Cons.prems] dig_Sum_eq [OF Cons.prems] by simp
  next
    case CallReset
    then show ?thesis using Cons.IH [of "dig_Reset d" "[]"] dig_Reset_holds [OF Cons.prems] by simp
  qed
qed simp

lemma absorbed_length: "absorbed d p r \<Longrightarrow> length (dig_h d) = 8"
  by (simp add: absorbed_def length_sha_blocks sha_init_def init224_def init256_def)

subsection \<open>Saved digests\<close>

lemma take_bit_join:
  fixes w :: "'a::len word"
  shows "take_bit k w OR push_bit k (take_bit 8 (drop_bit k w)) = take_bit (k + 8) w"
  by (rule bit_word_eqI) (auto simp: bit_simps)

lemma byte_of_word:
  "(ucast (ucast w :: byte) :: u32) = take_bit 8 w" "(ucast (ucast v :: byte) :: u64) = take_bit 8 v"
  for w :: u32 and v :: u64
  by (rule bit_word_eqI; auto simp: bit_simps)+

lemma consumeUint32_put: "consumeUint32 (putUint32 s @ b) = (b, s)"
proof -
  have "take_bit 32 s = s" using take_bit_length_eq [of s] by simp
  then show ?thesis
    using take_bit_join [of 8 s] take_bit_join [of 16 s] take_bit_join [of 24 s]
    by (simp add: consumeUint32_def putUint32_def byte_of_word or.assoc [symmetric])
qed

lemma consumeUint64_put: "consumeUint64 (putUint64 s @ b) = (b, s)"
proof -
  have "take_bit 64 s = s" using take_bit_length_eq [of s] by simp
  then show ?thesis
    using take_bit_join [of 8 s] take_bit_join [of 16 s] take_bit_join [of 24 s] take_bit_join [of 32 s]
      take_bit_join [of 40 s] take_bit_join [of 48 s] take_bit_join [of 56 s]
    by (simp add: consumeUint64_def putUint64_def byte_of_word or.assoc [symmetric])
qed

lemma consume_words_put: "consume_words (length hs) (concat (map putUint32 hs) @ b) = (b, hs)"
  by (induction hs) (simp_all add: consumeUint32_put)

lemma Unmarshal_Marshal:
  assumes d: "holds_message d m" and e: "length (dig_x e) = chunk" "dig_is224 e = dig_is224 d"
    and m: "length m < 2 ^ 63"
  shows "\<exists>s d'. MarshalBinary d = Some s \<and> UnmarshalBinary e s = Some d' \<and> holds_message d' m \<and>
    dig_is224 d' = dig_is224 d"
proof -
  obtain p r where p: "m = p @ r" "absorbed d p r" and l: "dig_len d = of_nat (length m)"
    using d by (auto simp: holds_message_def)
  have a: "dig_nx d = int (length r)" "length r < 64" "length (dig_x d) = 64" "take (length r) (dig_x d) = r"
    "64 dvd length p" "dig_h d = sha_blocks (sha_init (dig_is224 d)) p"
    using p(2) by (simp_all add: absorbed_def)
  have h: "length (dig_h d) = 8" by (rule absorbed_length [OF p(2)])
  define x where "x = r @ replicate (64 - length r) (0 :: byte)"
  define s where "s = (if dig_is224 d then magic224 else magic256) @ concat (map putUint32 (dig_h d)) @ x @
    putUint64 (dig_len d)"
  have s: "MarshalBinary d = Some s"
    using a h map_nth_upt [OF h, of 8 putUint32] by (simp add: MarshalBinary_def s_def x_def)
  have lx: "length x = 64" using a(2) by (simp add: x_def)
  have "sint (dig_len d) = int (length m)"
    using m by (simp add: l signed_of_nat signed_take_bit_int_eq_self)
  moreover have "length m mod 64 = length r" using p(1) a(2,5) by (auto elim!: dvdE)
  then have "int (length m) mod 64 = int (length r)" using zmod_int [of "length m" 64] by simp
  ultimately have nx: "sint (dig_len d) smod 64 = int (length r)"
    by (cases "length m = 0") (simp_all add: signed_modulo_int_def)
  have c: "consume_words 8 (concat (map putUint32 (dig_h d)) @ b) = (b, dig_h d)" for b
    using consume_words_put [of "dig_h d" b] h by simp
  have "UnmarshalBinary e s = Some (e\<lparr>dig_h := dig_h d, dig_x := x, dig_len := dig_len d, dig_nx := int (length r)\<rparr>)"
    using e lx h c nx consumeUint64_put [of "dig_len d" "[]"]
    by (simp add: UnmarshalBinary_def s_def marshaledSize_def chunk_def go_copy_def magic224_def magic256_def)
  moreover have "holds_message (e\<lparr>dig_h := dig_h d, dig_x := x, dig_len := dig_len d, dig_nx := int (length r)\<rparr>) m"
    unfolding holds_message_def using p(1) a l e(2) lx
    by (intro conjI exI [of _ p] exI [of _ r]) (simp_all add: absorbed_def x_def)
  ultimately show ?thesis using s e(2) by auto
qed

lemma Unmarshal_other:
  assumes "MarshalBinary d = Some s" "dig_is224 e \<noteq> dig_is224 d"
  shows "UnmarshalBinary e s = None"
  using assms by (auto simp: MarshalBinary_def UnmarshalBinary_def magic224_def magic256_def split: if_splits)

lemma new_is224: "\<not> dig_is224 sha_New" "dig_is224 sha_New224" "length (dig_x sha_New) = chunk" "length (dig_x sha_New224) = chunk"
  by (simp_all add: sha_New_def sha_New224_def dig_Reset_def new_digest_def)

lemma resume_eq:
  assumes n: "holds_message d0 []" "length (dig_x d0) = chunk" and l: "length (concat cs) < 2 ^ 63"
  shows "\<exists>s d. MarshalBinary (foldl dig_Write d0 cs) = Some s \<and> UnmarshalBinary d0 s = Some d \<and>
    (\<forall>e. dig_is224 e \<noteq> dig_is224 d0 \<longrightarrow> UnmarshalBinary e s = None) \<and>
    (\<forall>calls. run_calls d calls = Some (ref_calls (dig_is224 d0) (concat cs) calls))"
proof -
  have w: "holds_message (foldl dig_Write d0 cs) (concat cs)" "dig_is224 (foldl dig_Write d0 cs) = dig_is224 d0"
    using dig_Writes_hold [OF n(1), of cs] by simp_all
  obtain s d where s: "MarshalBinary (foldl dig_Write d0 cs) = Some s" "UnmarshalBinary d0 s = Some d"
    "holds_message d (concat cs)" "dig_is224 d = dig_is224 d0"
    using Unmarshal_Marshal [OF w(1) n(2) _ l] w(2) by auto
  then show ?thesis using Unmarshal_other [OF s(1)] run_calls_eq [OF s(3)] w(2) by auto
qed

section \<open>Properties\<close>

text \<open>C17. Any sequence of \<^verbatim>\<open>Write\<close>, \<^verbatim>\<open>Sum\<close> and \<^verbatim>\<open>Reset\<close> calls on a new digest of either variant runs without a panic,
  and every \<^verbatim>\<open>Sum\<close> appends the reference hash of all bytes written since the last \<^verbatim>\<open>Reset\<close>, however they were cut into
  writes and whatever sums were taken before: \<^verbatim>\<open>Sum\<close> leaves the digest usable. \<^verbatim>\<open>Sum256\<close> and \<^verbatim>\<open>Sum224\<close> are that hash.\<close>

theorem sha_streaming:
  "run_calls sha_New calls = Some (ref_calls False [] calls) \<and>
   run_calls sha_New224 calls = Some (ref_calls True [] calls) \<and>
   Sum256 m = Some (sha_ref False m) \<and> Sum224 m = Some (sha_ref True m)"
proof -
  have r: "run_calls sha_New cs = Some (ref_calls False [] cs)" "run_calls sha_New224 cs = Some (ref_calls True [] cs)" for cs
    using run_calls_eq [OF new_holds(1)] run_calls_eq [OF new_holds(2)] new_is224 by simp_all
  note w = dig_Write_holds [OF new_holds(1), of m] dig_Write_holds [OF new_holds(2), of m]
  have "\<not> dig_is224 (dig_Write sha_New m)" "dig_is224 (dig_Write sha_New224 m)" using w new_is224 by simp_all
  then obtain h d h' d' where "checkSum (dig_Write sha_New m) = Some (h, d)" "h = sha_ref False m"
    "checkSum (dig_Write sha_New224 m) = Some (h', d')" "take 28 h' = sha_ref True m"
    using checkSum_ref [OF w(1)] checkSum_ref [OF w(3)] by auto
  then show ?thesis using r by (simp add: Sum256_def Sum224_def)
qed

text \<open>C18. A digest of either variant that is saved with \<^verbatim>\<open>MarshalBinary\<close> after some writes (fewer than \<open>2 ^ 63\<close> bytes) and restored with
  \<^verbatim>\<open>UnmarshalBinary\<close> into a new digest of the same variant continues as the original: every later sequence of calls gives
  the sums of everything written before and after. A digest of the other variant refuses the saved state.\<close>

theorem sha_resume:
  assumes "length (concat cs) < 2 ^ 63"
  shows "(\<exists>s d. MarshalBinary (foldl dig_Write sha_New cs) = Some s \<and> UnmarshalBinary sha_New s = Some d \<and>
      UnmarshalBinary sha_New224 s = None \<and> run_calls d calls = Some (ref_calls False (concat cs) calls)) \<and>
    (\<exists>s d. MarshalBinary (foldl dig_Write sha_New224 cs) = Some s \<and> UnmarshalBinary sha_New224 s = Some d \<and>
      UnmarshalBinary sha_New s = None \<and> run_calls d calls = Some (ref_calls True (concat cs) calls))"
  using resume_eq [OF new_holds(1) new_is224(3) assms] resume_eq [OF new_holds(2) new_is224(4) assms] new_is224(1,2)
  by (metis (full_types))

theorem sha_resume_witness:
  "\<exists>s d. MarshalBinary (foldl dig_Write sha_New224 [[1, 2], [3]]) = Some s \<and> UnmarshalBinary sha_New224 s = Some d \<and>
    UnmarshalBinary sha_New s = None \<and> run_calls d [CallWrite [4], CallSum []] = Some [sha_ref True [1, 2, 3, 4]]"
proof -
  have "length (concat [[1 :: byte, 2], [3]]) < 2 ^ 63" by simp
  from sha_resume [OF this, of "[CallWrite [4], CallSum []]"] show ?thesis
    by (simp only: concat.simps append_Nil append_Cons append_Nil2 ref_calls.simps)
qed

end
