(* ===== verification/PoC_Proof.thy ===== *)
theory PoC_Proof
  imports Skt_Sha256
begin

text \<open>
  Proofs of capacity: the values of a plot record and their functions \<^verbatim>\<open>P\<close> and \<^verbatim>\<open>F\<close>
  (\<^verbatim>\<open>src/poc/pocutil/algorithm.go\<close>, \<^verbatim>\<open>util.go\<close>, \<^verbatim>\<open>hash.go\<close>), the proof with its encoding, its verification and
  its quality (\<^verbatim>\<open>src/poc/proof.go\<close>). The hash \<^verbatim>\<open>SktSHA256\<close> is the modelled one; the standard SHA-256 is a
  parameter, and so is \<open>quality\<close>, the floating-point formula of \<^verbatim>\<open>GetQuality\<close> as a function of the bit length and the
  hash value. \<open>PoCPanic\<close> is a run-time panic. Bit lengths reach the functions of \<^verbatim>\<open>pocutil\<close> as natural numbers:
  from \<^verbatim>\<open>VerifyProof\<close> after \<^verbatim>\<open>EnsureBitLength\<close>, from \<^verbatim>\<open>Decode\<close> as a byte.
\<close>

section \<open>Values of a plot record\<close>

definition PoCSlot :: nat where "PoCSlot = 3"

definition MinValidBitLength :: int where "MinValidBitLength = 24"

definition MaxValidBitLength :: int where "MaxValidBitLength = 40"

datatype poc_error =
    ErrProofDecodeDataSize
  | ErrProofInvalidBitLength
  | ErrProofInvalidFlipValue
  | ErrProofInvalidChallenge
  | PoCPanic

definition poc_SHA256 :: "(bytes \<Rightarrow> bytes) \<Rightarrow> bytes \<Rightarrow> bytes" where
  "poc_SHA256 gosha256 raw = gosha256 raw"

definition DoubleSHA256 :: "(bytes \<Rightarrow> bytes) \<Rightarrow> bytes \<Rightarrow> bytes" where
  "DoubleSHA256 gosha256 raw = (let h = poc_SHA256 gosha256 raw in poc_SHA256 gosha256 h)"

definition SktSHA256 :: "bytes \<Rightarrow> bytes option" where
  "SktSHA256 raw = Sum256 raw"

text \<open>\<^verbatim>\<open>PoCValue((1 << uint(bl)) - 1)\<close>.\<close>

definition poc_mask :: "nat \<Rightarrow> u64" where
  "poc_mask bl = push_bit bl 1 - 1"

definition CutBigInt :: "int \<Rightarrow> nat \<Rightarrow> u64" where
  "CutBigInt bi bl = poc_mask bl AND word_of_int bi"

definition CutHash :: "bytes \<Rightarrow> nat \<Rightarrow> u64" where
  "CutHash hash bl = poc_mask bl AND of_nat (le_val (take 8 hash))"

definition FlipValue :: "u64 \<Rightarrow> nat \<Rightarrow> u64" where
  "FlipValue v bl = poc_mask bl AND (poc_mask bl XOR v)"

definition RecordSize :: "nat \<Rightarrow> nat" where
  "RecordSize bl = (bl + 7) div 8"

text \<open>\<open>None\<close> is the panic of \<^verbatim>\<open>vb[:size]\<close> past the eight bytes of a value.\<close>

definition PoCValue2Bytes :: "u64 \<Rightarrow> nat \<Rightarrow> bytes option" where
  "PoCValue2Bytes v bl =
     (let vb = put_le 8 (unat (poc_mask bl AND v)) in
      if RecordSize bl > length vb then None else Some (take (RecordSize bl) vb))"

definition Bytes2PoCValue :: "bytes \<Rightarrow> nat \<Rightarrow> u64" where
  "Bytes2PoCValue vb bl = poc_mask bl AND of_nat (le_val (go_copy (replicate 8 0) 0 vb))"

definition NormalizePoCBytes :: "bytes \<Rightarrow> nat \<Rightarrow> bytes" where
  "NormalizePoCBytes vb bl =
     (let size = RecordSize bl in
      if length vb < size then vb
      else
        let vb = (if bl mod 8 \<noteq> 0 then vb[size - 1 := vb ! (size - 1) AND (push_bit (bl mod 8) 1 - 1)] else vb)
        in take size vb @ replicate (length vb - size) 0)"

section \<open>The functions of the plot\<close>

definition PoCPrefix :: bytes where "PoCPrefix = [0x4D, 0x41, 0x53, 0x53]"

definition PB :: "bytes \<Rightarrow> nat \<Rightarrow> bytes \<Rightarrow> u64 option" where
  "PB x bl pubKeyHash =
     (let raw = replicate 44 0; raw = go_copy raw 0 PoCPrefix; raw = go_copy raw 4 pubKeyHash;
          raw = go_copy raw 36 x; raw = take 36 raw @ NormalizePoCBytes (drop 36 raw) bl
      in map_option (\<lambda>h. CutHash h bl) (SktSHA256 raw))"

definition poc_P :: "u64 \<Rightarrow> nat \<Rightarrow> bytes \<Rightarrow> u64 option" where
  "poc_P x bl pubKeyHash = PB (put_le 8 (unat x)) bl pubKeyHash"

definition FB :: "bytes \<Rightarrow> bytes \<Rightarrow> nat \<Rightarrow> bytes \<Rightarrow> u64 option" where
  "FB x xp bl pubKeyHash =
     (let raw = replicate 52 0; raw = go_copy raw 0 PoCPrefix; raw = go_copy raw 4 pubKeyHash;
          raw = go_copy raw 36 x; raw = go_copy raw 44 xp;
          raw = take 36 raw @ NormalizePoCBytes (take 8 (drop 36 raw)) bl @ drop 44 raw;
          raw = take 44 raw @ NormalizePoCBytes (drop 44 raw) bl
      in map_option (\<lambda>h. CutHash h bl) (SktSHA256 raw))"

definition poc_F :: "u64 \<Rightarrow> u64 \<Rightarrow> nat \<Rightarrow> bytes \<Rightarrow> u64 option" where
  "poc_F x xp bl pubKeyHash = FB (put_le 8 (unat x)) (put_le 8 (unat xp)) bl pubKeyHash"

section \<open>Proofs\<close>

record Proof =
  pr_X :: bytes
  pr_XPrime :: bytes
  pr_BitLength :: int

definition EnsureBitLength :: "int \<Rightarrow> bool" where
  "EnsureBitLength bl = (bl \<ge> MinValidBitLength \<and> bl \<le> MaxValidBitLength \<and> bl smod 2 = 0)"

definition ValidBitLength :: "int list" where
  "ValidBitLength = map (\<lambda>k. MinValidBitLength + 2 * int k) [0..<9]"

definition BitLengthDiskSize :: "nat \<Rightarrow> nat option" where
  "BitLengthDiskSize bl =
     (if int bl \<in> set ValidBitLength then Some (RecordSize bl * 2 * 2 ^ bl) else None)"

text \<open>\<^verbatim>\<open>copy(data[lo:hi], src)\<close>.\<close>

definition copy_range :: "'a list \<Rightarrow> nat \<Rightarrow> nat \<Rightarrow> 'a list \<Rightarrow> 'a list" where
  "copy_range dst lo hi src = go_copy dst lo (take (hi - lo) src)"

definition proof_Encode :: "Proof \<Rightarrow> bytes" where
  "proof_Encode p =
     (let data = replicate 17 0; data = copy_range data 0 8 (pr_X p); data = copy_range data 8 16 (pr_XPrime p)
      in data[16 := word_of_int (pr_BitLength p)])"

definition proof_Decode :: "bytes \<Rightarrow> poc_error + Proof" where
  "proof_Decode data =
     (if length data \<noteq> 17 then Inl ErrProofDecodeDataSize
      else
        let bl = unat (data ! 16) in
        case PoCValue2Bytes (of_nat (le_val (take 8 data))) bl of None \<Rightarrow> Inl PoCPanic
        | Some x \<Rightarrow>
          (case PoCValue2Bytes (of_nat (le_val (take 8 (drop 8 data)))) bl of None \<Rightarrow> Inl PoCPanic
           | Some xp \<Rightarrow> Inr \<lparr>pr_X = x, pr_XPrime = xp, pr_BitLength = int bl\<rparr>))"

definition VerifyProof :: "Proof \<Rightarrow> bytes \<Rightarrow> bytes \<Rightarrow> poc_error + unit" where
  "VerifyProof p pubKeyHash challenge =
     (if \<not> EnsureBitLength (pr_BitLength p) then Inl ErrProofInvalidBitLength
      else
        let bl = nat (pr_BitLength p) in
        case (PB (pr_X p) bl pubKeyHash, PB (pr_XPrime p) bl pubKeyHash) of
          (Some y, Some yp) \<Rightarrow>
            if y \<noteq> FlipValue yp bl then Inl ErrProofInvalidFlipValue
            else
              (case FB (pr_X p) (pr_XPrime p) bl pubKeyHash of None \<Rightarrow> Inl PoCPanic
               | Some z \<Rightarrow> if CutHash challenge bl \<noteq> z then Inl ErrProofInvalidChallenge else Inr ())
        | _ \<Rightarrow> Inl PoCPanic)"

text \<open>The 32 bytes that \<^verbatim>\<open>GetHashVal\<close> hashes, and the hash.\<close>

definition hashval_input :: "Proof \<Rightarrow> u64 \<Rightarrow> u64 \<Rightarrow> bytes" where
  "hashval_input p slot height =
     (let b32 = go_copy (replicate 32 0) 0 (put_le 8 (unat slot)); b32 = go_copy b32 8 (pr_X p);
          b32 = go_copy b32 16 (pr_XPrime p)
      in go_copy b32 24 (put_le 8 (unat height)))"

definition GetHashVal :: "(bytes \<Rightarrow> bytes) \<Rightarrow> Proof \<Rightarrow> u64 \<Rightarrow> u64 \<Rightarrow> bytes" where
  "GetHashVal gosha256 p slot height = poc_SHA256 gosha256 (hashval_input p slot height)"

definition GetQuality ::
    "(int \<Rightarrow> bytes \<Rightarrow> int) \<Rightarrow> (bytes \<Rightarrow> bytes) \<Rightarrow> Proof \<Rightarrow> u64 \<Rightarrow> u64 \<Rightarrow> int" where
  "GetQuality quality gosha256 p slot height = quality (pr_BitLength p) (GetHashVal gosha256 p slot height)"

definition GetVerifiedQuality ::
    "(int \<Rightarrow> bytes \<Rightarrow> int) \<Rightarrow> (bytes \<Rightarrow> bytes) \<Rightarrow> Proof \<Rightarrow> bytes \<Rightarrow> bytes \<Rightarrow> u64 \<Rightarrow> u64 \<Rightarrow> poc_error + int" where
  "GetVerifiedQuality quality gosha256 p pubKeyHash challenge slot height =
     rbind (VerifyProof p pubKeyHash challenge) (\<lambda>_. Inr (GetQuality quality gosha256 p slot height))"

definition NewEmptyProof :: Proof where
  "NewEmptyProof = \<lparr>pr_X = [], pr_XPrime = [], pr_BitLength = 0\<rparr>"

section \<open>Lemmas\<close>

lemma EnsureBitLength_iff: "EnsureBitLength bl \<longleftrightarrow> bl \<in> set ValidBitLength"
proof
  assume b: "EnsureBitLength bl"
  then have r: "24 \<le> bl" "bl \<le> 40" and e: "bl smod 2 = 0"
    by (simp_all add: EnsureBitLength_def MinValidBitLength_def MaxValidBitLength_def)
  then have "bl mod 2 = 0" by (simp add: signed_modulo_int_def)
  then obtain k where k: "bl = 2 * k" by fastforce
  then have "bl = MinValidBitLength + 2 * int (nat (k - 12))" "nat (k - 12) < 9"
    using r by (simp_all add: MinValidBitLength_def)
  then show "bl \<in> set ValidBitLength"
    unfolding ValidBitLength_def set_map set_upt by (intro image_eqI [of _ _ "nat (k - 12)"]) simp_all
qed (auto simp: ValidBitLength_def EnsureBitLength_def MinValidBitLength_def MaxValidBitLength_def
    signed_modulo_int_def)

lemma RecordSize_bounds: "EnsureBitLength bl \<Longrightarrow> RecordSize (nat bl) \<in> {3..5}"
  by (auto simp: EnsureBitLength_def RecordSize_def MinValidBitLength_def MaxValidBitLength_def)

lemma NormalizePoCBytes_prefix:
  assumes "length v = RecordSize bl" "0 < RecordSize bl"
  shows "NormalizePoCBytes (v @ e) bl = NormalizePoCBytes v bl @ replicate (length e) 0"
  using assms by (simp add: NormalizePoCBytes_def Let_def nth_append list_update_append)

lemma length_NormalizePoCBytes [simp]: "length (NormalizePoCBytes v bl) = length v"
  by (simp add: NormalizePoCBytes_def Let_def)

lemma go_copy_at:
  assumes "off + length u \<le> length r"
  shows "take off (go_copy r off u) = take off r" "drop off (go_copy r off u) = u @ drop (off + length u) r"
  using assms by (simp_all add: go_copy_def)

lemma normal_tail:
  assumes "length x = RecordSize bl" "0 < RecordSize bl"
  shows "NormalizePoCBytes (x @ t) bl = NormalizePoCBytes x bl @ replicate (length t) 0"
  by (rule NormalizePoCBytes_prefix [OF assms])

lemma PB_record:
  assumes x: "length x = RecordSize bl" "0 < RecordSize bl" and e: "length x + length e \<le> 8"
  shows "PB (x @ e) bl pkh = map_option (\<lambda>h. CutHash h bl) (SktSHA256
    (take 36 (go_copy (go_copy (replicate 44 0) 0 PoCPrefix) 4 pkh) @ NormalizePoCBytes x bl @
     replicate (8 - length x) 0))"
proof -
  define r where "r = go_copy (go_copy (replicate 44 (0 :: byte)) 0 PoCPrefix) 4 pkh"
  have l: "length r = 44" by (simp add: r_def)
  have "take 36 (go_copy r 36 (x @ e)) = take 36 r" "drop 36 (go_copy r 36 (x @ e)) = x @ e @ drop (36 + length (x @ e)) r"
    using go_copy_at [of 36 "x @ e" r] e l by simp_all
  then show ?thesis
    using e l normal_tail [OF x, of "e @ drop (36 + length (x @ e)) r"]
    by (simp add: PB_def Let_def r_def [symmetric])
qed

lemma FB_record:
  assumes x: "length x = RecordSize bl" "length xp = RecordSize bl" "0 < RecordSize bl"
    and e: "length x + length e \<le> 8" "length xp + length e' \<le> 8"
  shows "FB (x @ e) (xp @ e') bl pkh = map_option (\<lambda>h. CutHash h bl) (SktSHA256
    (take 36 (go_copy (go_copy (replicate 52 0) 0 PoCPrefix) 4 pkh) @ NormalizePoCBytes x bl @
     replicate (8 - length x) 0 @ NormalizePoCBytes xp bl @ replicate (8 - length xp) 0))"
proof -
  define r where "r = go_copy (go_copy (replicate 52 (0 :: byte)) 0 PoCPrefix) 4 pkh"
  define q where "q = go_copy r 36 (x @ e)"
  define s where "s = go_copy q 44 (xp @ e')"
  have l: "length r = 52" "length q = 52" "length s = 52" by (simp_all add: r_def q_def s_def)
  have q: "take 36 q = take 36 r" "drop 36 q = (x @ e) @ drop (36 + length (x @ e)) r"
    unfolding q_def using go_copy_at [of 36 "x @ e" r] e l by simp_all
  have s: "take 44 s = take 44 q" "drop 44 s = xp @ e' @ drop (44 + length (xp @ e')) q"
    unfolding s_def using go_copy_at [of 44 "xp @ e'" q] e l by simp_all
  have 1: "take 36 s = take 36 r" using arg_cong [OF s(1), of "take 36"] q(1) by simp
  have "take 8 (drop 36 s) = take 8 (drop 36 q)"
    using arg_cong [OF s(1), of "drop 36"] by (simp add: drop_take)
  then have 2: "take 8 (drop 36 s) = x @ e @ take (8 - length (x @ e)) (drop (36 + length (x @ e)) r)"
    using q(2) e by simp
  have n: "NormalizePoCBytes (take 8 (drop 36 s)) bl = NormalizePoCBytes x bl @ replicate (8 - length x) 0"
    unfolding 2 using normal_tail [OF x(1,3)] e l by simp
  have m: "NormalizePoCBytes (drop 44 s) bl = NormalizePoCBytes xp bl @ replicate (8 - length xp) 0"
    unfolding s(2) using normal_tail [OF x(2,3)] e l by simp
  define a where "a = take 36 r @ NormalizePoCBytes x bl @ replicate (8 - length x) 0"
  have a: "length a = 44" using l(1) e(1) by (simp add: a_def)
  have f: "take 36 s @ NormalizePoCBytes (take 8 (drop 36 s)) bl @ drop 44 s = a @ drop 44 s"
    by (simp only: n 1 a_def append_assoc)
  have "take 44 (a @ drop 44 s) = a" "drop 44 (a @ drop 44 s) = drop 44 s" using a by simp_all
  then show ?thesis
    unfolding FB_def Let_def r_def [symmetric] q_def [symmetric] s_def [symmetric] f
    by (simp only: m a_def append_assoc)
qed

lemma VerifyProof_record:
  assumes b: "EnsureBitLength (pr_BitLength p)"
    and x: "length (pr_X p) = RecordSize (nat (pr_BitLength p))" "length (pr_XPrime p) = RecordSize (nat (pr_BitLength p))"
    and e: "length (pr_X p) + length e \<le> 8" "length (pr_XPrime p) + length e' \<le> 8"
  shows "VerifyProof (p\<lparr>pr_X := pr_X p @ e, pr_XPrime := pr_XPrime p @ e'\<rparr>) pkh ch = VerifyProof p pkh ch"
proof -
  have s: "0 < RecordSize (nat (pr_BitLength p))" using RecordSize_bounds [OF b] by simp
  have "length (pr_X p) + length ([] :: bytes) \<le> 8" "length (pr_XPrime p) + length ([] :: bytes) \<le> 8"
    using e by simp_all
  then have "PB (pr_X p @ e) (nat (pr_BitLength p)) pkh = PB (pr_X p) (nat (pr_BitLength p)) pkh"
    "PB (pr_XPrime p @ e') (nat (pr_BitLength p)) pkh = PB (pr_XPrime p) (nat (pr_BitLength p)) pkh"
    "FB (pr_X p @ e) (pr_XPrime p @ e') (nat (pr_BitLength p)) pkh = FB (pr_X p) (pr_XPrime p) (nat (pr_BitLength p)) pkh"
    using PB_record [OF x(1) s e(1)] PB_record [OF x(1) s, of "[]"] PB_record [OF x(2) s e(2)]
      PB_record [OF x(2) s, of "[]"] FB_record [OF x s e] FB_record [OF x s, of "[]" "[]"] by simp_all
  then show ?thesis by (simp add: VerifyProof_def Let_def split: option.split)
qed

lemma hashval_input_full:
  assumes "length (pr_X p) = 8" "length (pr_XPrime p) = 8"
  shows "hashval_input p slot height = put_le 8 (unat slot) @ pr_X p @ pr_XPrime p @ put_le 8 (unat height)"
  using assms by (simp add: hashval_input_def go_copy_def)

lemma card_byte_lists: "card {e :: bytes. length e = n} = 256 ^ n"
proof -
  have "card (UNIV :: byte set) = 256" by (simp add: card_word)
  then show ?thesis using card_lists_length_eq [of "UNIV :: byte set" n] by simp
qed

subsection \<open>Encoding\<close>

lemma poc_mask_and: "poc_mask bl AND v = take_bit bl v"
  by (simp add: poc_mask_def take_bit_eq_mask mask_eq_exp_minus_1 push_bit_eq_mult and.commute)

lemma take_put_le: "k \<le> n \<Longrightarrow> take k (put_le n v) = put_le k v"
proof (induction k arbitrary: n v)
  case (Suc k)
  then show ?case by (cases n) simp_all
qed simp

lemma PoCValue2Bytes_eq:
  assumes "RecordSize bl \<le> 8"
  shows "PoCValue2Bytes v bl = Some (put_le (RecordSize bl) (unat (take_bit bl v)))"
  using assms by (simp add: PoCValue2Bytes_def poc_mask_and take_put_le)

lemma record_value:
  assumes "RecordSize bl \<le> 8"
  shows "le_val (put_le (RecordSize bl) (unat (take_bit bl v))) = unat (take_bit bl (v :: u64))"
proof -
  have "unat (take_bit bl v) < 2 ^ bl" by (simp add: unsigned_take_bit_eq)
  also have "(2 :: nat) ^ bl \<le> 2 ^ (8 * RecordSize bl)" by (intro power_increasing) (auto simp: RecordSize_def)
  also have "\<dots> = 256 ^ RecordSize bl" by (simp add: power_mult)
  finally show ?thesis by (simp add: le_val_put_le)
qed

text \<open>Encoding the proof of a record and decoding the 17 bytes gives the proof back.\<close>

lemma proof_codec:
  assumes b: "EnsureBitLength bl" and x: "PoCValue2Bytes v (nat bl) = Some x" "PoCValue2Bytes v' (nat bl) = Some xp"
  shows "proof_Decode (proof_Encode \<lparr>pr_X = x, pr_XPrime = xp, pr_BitLength = bl\<rparr>) =
    Inr \<lparr>pr_X = x, pr_XPrime = xp, pr_BitLength = bl\<rparr>"
proof -
  have s: "RecordSize (nat bl) \<le> 8" using RecordSize_bounds [OF b] by simp
  have l: "x = put_le (RecordSize (nat bl)) (unat (take_bit (nat bl) v))"
    "xp = put_le (RecordSize (nat bl)) (unat (take_bit (nat bl) v'))"
    using x by (simp_all add: PoCValue2Bytes_eq [OF s])
  then have len: "length x \<le> 8" "length xp \<le> 8" using s by simp_all
  have bl: "unat (word_of_int bl :: byte) = nat bl" "0 \<le> bl"
    using b by (simp_all add: EnsureBitLength_def MinValidBitLength_def MaxValidBitLength_def unat_eq_nat_uint uint_word_of_int)
  define pad where "pad y = y @ replicate (8 - length y) (0 :: byte)" for y
  have "proof_Encode \<lparr>pr_X = x, pr_XPrime = xp, pr_BitLength = bl\<rparr> = pad x @ pad xp @ [word_of_int bl]"
  proof -
    have "copy_range (replicate 17 0) 0 8 x = x @ replicate (17 - length x) 0"
      using len by (simp add: copy_range_def go_copy_def)
    moreover have "copy_range (x @ replicate (17 - length x) 0) 8 16 xp = pad x @ xp @ replicate (9 - length xp) 0"
      using len by (simp add: copy_range_def go_copy_def pad_def)
    moreover have "replicate (9 - length xp) (0 :: byte) = replicate (8 - length xp) 0 @ [0]"
      using len Suc_diff_le [of "length xp" 8] by (simp add: replicate_append_same)
    moreover have "\<not> 16 - length x < 8 - length x" by linarith
    ultimately show ?thesis using len by (simp add: proof_Encode_def pad_def list_update_append)
  qed
  moreover have "length (pad x) = 8" "length (pad xp) = 8" using len by (simp_all add: pad_def)
  moreover have "le_val (pad x) = unat (take_bit (nat bl) v)" "le_val (pad xp) = unat (take_bit (nat bl) v')"
    using record_value [OF s] by (simp_all add: pad_def le_val_append l)
  ultimately show ?thesis
    using bl by (simp add: proof_Decode_def PoCValue2Bytes_eq [OF s] nth_append l Let_def)
qed

text \<open>A length byte above 64 makes \<^verbatim>\<open>Decode\<close> slice the eight bytes of a value out of range.\<close>

lemma Decode_panics:
  assumes "length data = 17" "64 < unat (data ! 16)"
  shows "proof_Decode data = Inl PoCPanic"
  using assms by (simp add: proof_Decode_def PoCValue2Bytes_def RecordSize_def Let_def)

section \<open>Properties\<close>

text \<open>C19. The bytes of \<^verbatim>\<open>X\<close> and \<^verbatim>\<open>XPrime\<close> above the record size of the bit length do not take part in the
  verification of a proof but do take part in its quality: for a record of the plot there are
  \<open>256 ^ (2 * (8 - RecordSize))\<close> ways to fill them, each is verified exactly as the record is, and
  the strings hashed for their qualities are pairwise different. One record gives at least
  \<open>2 ^ 48\<close> draws of the quality in every slot instead of one.\<close>

theorem proof_grinding:
  assumes b: "EnsureBitLength (pr_BitLength p)"
    and x: "length (pr_X p) = RecordSize (nat (pr_BitLength p))" "length (pr_XPrime p) = RecordSize (nat (pr_BitLength p))"
  shows "let room = 8 - RecordSize (nat (pr_BitLength p)); fillings = {e :: bytes. length e = room} \<times> {e. length e = room};
      fill = (\<lambda>(e, e'). p\<lparr>pr_X := pr_X p @ e, pr_XPrime := pr_XPrime p @ e'\<rparr>)
    in (\<forall>v \<in> fillings. GetVerifiedQuality quality gosha256 (fill v) pkh ch slot height =
          rbind (VerifyProof p pkh ch)
            (\<lambda>_. Inr (quality (pr_BitLength p) (gosha256 (hashval_input (fill v) slot height))))) \<and>
       inj_on (\<lambda>v. hashval_input (fill v) slot height) fillings \<and>
       card fillings = 256 ^ (2 * room) \<and> 2 ^ 48 \<le> card fillings"
proof -
  define room where "room = 8 - RecordSize (nat (pr_BitLength p))"
  define fillings where "fillings = {e :: bytes. length e = room} \<times> {e :: bytes. length e = room}"
  define fill where "fill = (\<lambda>(e, e'). p\<lparr>pr_X := pr_X p @ e, pr_XPrime := pr_XPrime p @ e'\<rparr>)"
  have r: "RecordSize (nat (pr_BitLength p)) + room = 8" "3 \<le> room"
    using RecordSize_bounds [OF b] by (auto simp: room_def)
  have "GetVerifiedQuality quality gosha256 (fill v) pkh ch slot height = rbind (VerifyProof p pkh ch)
      (\<lambda>_. Inr (quality (pr_BitLength p) (gosha256 (hashval_input (fill v) slot height))))" if "v \<in> fillings" for v
    using that r VerifyProof_record [OF b x, of "fst v" "snd v" pkh ch] x
    by (auto simp: GetVerifiedQuality_def GetQuality_def GetHashVal_def poc_SHA256_def fill_def fillings_def)
  moreover have h: "hashval_input (fill v) slot height =
      put_le 8 (unat slot) @ (pr_X p @ fst v) @ (pr_XPrime p @ snd v) @ put_le 8 (unat height)" if "v \<in> fillings" for v
    using that r x hashval_input_full [of "fill v"] by (auto simp: fill_def fillings_def)
  have "inj_on (\<lambda>v. hashval_input (fill v) slot height) fillings"
  proof (rule inj_onI)
    fix v w
    assume v: "v \<in> fillings" "w \<in> fillings" and e: "hashval_input (fill v) slot height = hashval_input (fill w) slot height"
    have "length (fst v) = length (fst w)" "length (snd v) = length (snd w)" using v by (auto simp: fillings_def)
    with e show "v = w" unfolding h [OF v(1)] h [OF v(2)] by (simp add: prod_eq_iff)
  qed
  moreover have c: "card fillings = 256 ^ (2 * room)"
    unfolding fillings_def card_cartesian_product card_byte_lists by (simp add: mult_2 power_add)
  moreover have "(2 :: nat) ^ 48 \<le> 256 ^ (2 * room)"
    using power_increasing [of 6 "2 * room" "256 :: nat"] r(2) by simp
  ultimately show ?thesis
    unfolding Let_def room_def [symmetric] fillings_def [symmetric] fill_def [symmetric] by simp
qed

text \<open>A proof of 40 bits whose two values leave three bytes each.\<close>

theorem proof_grinding_witness:
  "let p = \<lparr>pr_X = [1, 2, 3, 4, 5], pr_XPrime = [6, 7, 8, 9, 10], pr_BitLength = 40\<rparr>;
       q = p\<lparr>pr_X := [1, 2, 3, 4, 5, 0, 0, 1], pr_XPrime := [6, 7, 8, 9, 10, 2, 0, 0]\<rparr>
   in GetVerifiedQuality (\<lambda>bl h. int (le_val h)) id q [] [] 7 8 =
        rbind (VerifyProof p [] []) (\<lambda>_. Inr (int (le_val (hashval_input q 7 8))))"
proof -
  let ?p = "\<lparr>pr_X = [1, 2, 3, 4, 5], pr_XPrime = [6, 7, 8, 9, 10], pr_BitLength = 40\<rparr>"
  have "EnsureBitLength (pr_BitLength ?p)" "length (pr_X ?p) = RecordSize (nat (pr_BitLength ?p))"
    "length (pr_XPrime ?p) = RecordSize (nat (pr_BitLength ?p))"
    by (simp_all add: EnsureBitLength_def MinValidBitLength_def MaxValidBitLength_def RecordSize_def signed_modulo_int_def)
  from proof_grinding [OF this, of "\<lambda>bl h. int (le_val h)" id "[]" "[]" 7 8] show ?thesis
    unfolding Let_def by (auto simp: RecordSize_def dest!: bspec [of _ _ "([0, 0, 1], [2, 0, 0])"])
qed

end
