(* ===== verification/Field_Val.thy ===== *)
theory Field_Val
  imports Miner_Prelude
begin

text \<open>
  The field of the curve secp256k1, \<^verbatim>\<open>src/pocec/field.go\<close>: a value modulo the prime is held in ten
  32-bit words of 26 bits each, so that words can overflow their 26 bits between operations. The model keeps
  the words at their width. The unrolled additions of products and carries of the source are written
  with \<open>carry_words\<close> and lists of columns; the order of the operations is the one of the source.
  The lemmas show that every operation computes in the field, as long as the words stay within the bounds
  of the magnitude the source documents.
\<close>

section \<open>Representation\<close>

type_synonym fieldVal = "u32 list"

definition fieldBase :: nat where "fieldBase = 26"

definition fieldBaseMask :: "'a::len word" where "fieldBaseMask = 0x3ffffff"

definition fieldMSBBits :: nat where "fieldMSBBits = 22"

definition fieldMSBMask :: "'a::len word" where "fieldMSBMask = 0x3fffff"

definition fieldPrimeWordZero :: u32 where "fieldPrimeWordZero = 0x3fffc2f"

definition fieldPrimeWordOne :: u32 where "fieldPrimeWordOne = 0x3ffffbf"

definition fieldQBytes :: bytes where
  "fieldQBytes = 0x3f # replicate 27 0xff @ [0xbf, 0xff, 0xff, 0x0c]"

definition fv_Zero :: fieldVal where "fv_Zero = replicate 10 0"

definition fv_SetInt :: "u64 \<Rightarrow> fieldVal" where
  "fv_SetInt ui = fv_Zero[0 := ucast ui]"

text \<open>\<^verbatim>\<open>SetBytes\<close> packs 32 bytes, the most significant first.\<close>

definition fv_SetBytes :: "bytes \<Rightarrow> fieldVal" where
  "fv_SetBytes b =
     (let w = \<lambda>i. ucast (b ! i) :: u32 in
      [w 31 OR push_bit 8 (w 30) OR push_bit 16 (w 29) OR push_bit 24 (w 28 AND 0x3),
       drop_bit 2 (w 28) OR push_bit 6 (w 27) OR push_bit 14 (w 26) OR push_bit 22 (w 25 AND 0xf),
       drop_bit 4 (w 25) OR push_bit 4 (w 24) OR push_bit 12 (w 23) OR push_bit 20 (w 22 AND 0x3f),
       drop_bit 6 (w 22) OR push_bit 2 (w 21) OR push_bit 10 (w 20) OR push_bit 18 (w 19),
       w 18 OR push_bit 8 (w 17) OR push_bit 16 (w 16) OR push_bit 24 (w 15 AND 0x3),
       drop_bit 2 (w 15) OR push_bit 6 (w 14) OR push_bit 14 (w 13) OR push_bit 22 (w 12 AND 0xf),
       drop_bit 4 (w 12) OR push_bit 4 (w 11) OR push_bit 12 (w 10) OR push_bit 20 (w 9 AND 0x3f),
       drop_bit 6 (w 9) OR push_bit 2 (w 8) OR push_bit 10 (w 7) OR push_bit 18 (w 6),
       w 5 OR push_bit 8 (w 4) OR push_bit 16 (w 3) OR push_bit 24 (w 2 AND 0x3),
       drop_bit 2 (w 2) OR push_bit 6 (w 1) OR push_bit 14 (w 0)])"

text \<open>
  \<^verbatim>\<open>SetByteSlice\<close> writes \<^verbatim>\<open>b32[i+(32-len(b))]\<close>: a slice of more than 32 bytes makes the index negative, and
  \<open>None\<close> is that panic.
\<close>

definition fv_SetByteSlice :: "bytes \<Rightarrow> fieldVal option" where
  "fv_SetByteSlice b =
     (if length b > 32 then None else Some (fv_SetBytes (replicate (32 - length b) 0 @ b)))"

definition fv_PutBytes :: "fieldVal \<Rightarrow> bytes" where
  "fv_PutBytes n =
     map (\<lambda>x. ucast x)
       [drop_bit 14 (n ! 9) AND 0xff, drop_bit 6 (n ! 9) AND 0xff,
        (drop_bit 24 (n ! 8) AND 0x3) OR push_bit 2 (n ! 9 AND 0x3f), drop_bit 16 (n ! 8) AND 0xff,
        drop_bit 8 (n ! 8) AND 0xff, n ! 8 AND 0xff,
        drop_bit 18 (n ! 7) AND 0xff, drop_bit 10 (n ! 7) AND 0xff, drop_bit 2 (n ! 7) AND 0xff,
        (drop_bit 20 (n ! 6) AND 0x3f) OR push_bit 6 (n ! 7 AND 0x3), drop_bit 12 (n ! 6) AND 0xff,
        drop_bit 4 (n ! 6) AND 0xff, (drop_bit 22 (n ! 5) AND 0xf) OR push_bit 4 (n ! 6 AND 0xf),
        drop_bit 14 (n ! 5) AND 0xff, drop_bit 6 (n ! 5) AND 0xff,
        (drop_bit 24 (n ! 4) AND 0x3) OR push_bit 2 (n ! 5 AND 0x3f), drop_bit 16 (n ! 4) AND 0xff,
        drop_bit 8 (n ! 4) AND 0xff, n ! 4 AND 0xff,
        drop_bit 18 (n ! 3) AND 0xff, drop_bit 10 (n ! 3) AND 0xff, drop_bit 2 (n ! 3) AND 0xff,
        (drop_bit 20 (n ! 2) AND 0x3f) OR push_bit 6 (n ! 3 AND 0x3), drop_bit 12 (n ! 2) AND 0xff,
        drop_bit 4 (n ! 2) AND 0xff, (drop_bit 22 (n ! 1) AND 0xf) OR push_bit 4 (n ! 2 AND 0xf),
        drop_bit 14 (n ! 1) AND 0xff, drop_bit 6 (n ! 1) AND 0xff,
        (drop_bit 24 (n ! 0) AND 0x3) OR push_bit 2 (n ! 1 AND 0x3f), drop_bit 16 (n ! 0) AND 0xff,
        drop_bit 8 (n ! 0) AND 0xff, n ! 0 AND 0xff]"

definition fv_Bytes :: "fieldVal \<Rightarrow> bytes" where
  "fv_Bytes f = fv_PutBytes f"

definition fv_IsZero :: "fieldVal \<Rightarrow> bool" where
  "fv_IsZero n = (foldl (OR) (n ! 0) [n ! 1, n ! 2, n ! 3, n ! 4, n ! 5, n ! 6, n ! 7, n ! 8, n ! 9] = 0)"

definition fv_IsOdd :: "fieldVal \<Rightarrow> bool" where
  "fv_IsOdd n = (n ! 0 AND 1 = 1)"

definition fv_Equals :: "fieldVal \<Rightarrow> fieldVal \<Rightarrow> bool" where
  "fv_Equals n v = (foldl (OR) (n ! 0 XOR v ! 0) (map (\<lambda>i. n ! i XOR v ! i) [1..<10]) = 0)"

section \<open>Arithmetic\<close>

text \<open>
  The carry through the words: each word receives what the one below has above its 26 bits and keeps its own
  26 bits; the last word keeps everything.
\<close>

fun carry_words :: "'a::len word \<Rightarrow> 'a word list \<Rightarrow> 'a word list" where
  "carry_words c [] = []"
| "carry_words c [x] = [c + x]"
| "carry_words c (x # y # xs) = ((c + x) AND fieldBaseMask) # carry_words (drop_bit fieldBase (c + x)) (y # xs)"

text \<open>\<open>add_c m ts\<close> adds \<open>m\<close> times \<open>64 * 2 ^ 26 + 977\<close> to the words.\<close>

definition add_c :: "u32 \<Rightarrow> u32 list \<Rightarrow> u32 list" where
  "add_c m t = carry_words 0 ((t ! 0 + m * 977) # (t ! 1 + push_bit 6 m) # drop 2 t)"

definition fv_overflow :: "u32 list \<Rightarrow> u32" where
  "fv_overflow t =
     (let m = 1;
          m = (if t ! 9 = fieldMSBMask then m AND 1 else m AND 0);
          m = (if t ! 2 AND t ! 3 AND t ! 4 AND t ! 5 AND t ! 6 AND t ! 7 AND t ! 8 = fieldBaseMask
               then m AND 1 else m AND 0);
          m = (if drop_bit fieldBase (t ! 0 + 977) + t ! 1 + 64 > fieldBaseMask then m AND 1 else m AND 0)
      in (if drop_bit fieldMSBBits (t ! 9) \<noteq> 0 then m OR 1 else m OR 0))"

definition fv_Normalize :: "fieldVal \<Rightarrow> fieldVal" where
  "fv_Normalize n =
     (let m = drop_bit fieldMSBBits (n ! 9); t = add_c m (n[9 := n ! 9 AND fieldMSBMask]);
          m = fv_overflow t; t = add_c m t
      in t[9 := t ! 9 AND fieldMSBMask])"

definition fv_NegateVal :: "fieldVal \<Rightarrow> u32 \<Rightarrow> fieldVal" where
  "fv_NegateVal val magnitude =
     map2 (\<lambda>p v. (magnitude + 1) * p - v)
       (fieldPrimeWordZero # fieldPrimeWordOne # replicate 7 fieldBaseMask @ [fieldMSBMask]) val"

definition fv_AddInt :: "fieldVal \<Rightarrow> u64 \<Rightarrow> fieldVal" where
  "fv_AddInt f ui = f[0 := f ! 0 + ucast ui]"

definition fv_Add :: "fieldVal \<Rightarrow> fieldVal \<Rightarrow> fieldVal" where
  "fv_Add f val = map2 (+) f val"

definition fv_MulInt :: "fieldVal \<Rightarrow> u64 \<Rightarrow> fieldVal" where
  "fv_MulInt f val = map (\<lambda>x. x * ucast val) f"

text \<open>The terms for \<^verbatim>\<open>2^(fieldBase*k)\<close> of a product and of a square.\<close>

definition mul_column :: "fieldVal \<Rightarrow> fieldVal \<Rightarrow> nat \<Rightarrow> u64" where
  "mul_column a b k = sum_list (map (\<lambda>i. ucast (a ! i) * ucast (b ! (k - i))) [k - 9..<Suc (min k 9)])"

definition square_column :: "fieldVal \<Rightarrow> nat \<Rightarrow> u64" where
  "square_column a k =
     sum_list (map (\<lambda>i. 2 * ucast (a ! i) * ucast (a ! (k - i))) [k - 9..<(k + 1) div 2]) +
     (if even k then ucast (a ! (k div 2)) * ucast (a ! (k div 2)) else 0)"

text \<open>The masked terms of the columns and what is left above them.\<close>

fun carry_columns :: "u64 \<Rightarrow> u64 list \<Rightarrow> u64 list \<times> u64" where
  "carry_columns c [] = ([], c)"
| "carry_columns c (x # xs) =
     (let m = c + x; (ts, r) = carry_columns (drop_bit fieldBase m) xs in ((m AND fieldBaseMask) # ts, r))"

definition reduce_terms :: "u64 list \<Rightarrow> u64 \<Rightarrow> fieldVal" where
  "reduce_terms t t19 =
     (let (r, c) = carry_columns 0 ((t ! 0 + t ! 10 * 15632) #
            map (\<lambda>k. t ! k + t ! (k + 9) * 1024 + t ! (k + 10) * 15632) [1..<9]);
          m = c + t ! 9 + t ! 18 * 1024 + t19 * 68719492368;
          t9 = m AND fieldMSBMask; m = drop_bit fieldMSBBits m;
          d = r ! 0 + m * 977; n0 = d AND fieldBaseMask;
          d = drop_bit fieldBase d + r ! 1 + m * 64; n1 = d AND fieldBaseMask;
          n2 = drop_bit fieldBase d + r ! 2
      in map ucast ([n0, n1, n2] @ drop 3 r @ [t9]))"

definition fv_Mul2 :: "fieldVal \<Rightarrow> fieldVal \<Rightarrow> fieldVal" where
  "fv_Mul2 val val2 =
     (let (t, t19) = carry_columns 0 (map (mul_column val val2) [0..<19]) in reduce_terms t t19)"

definition fv_SquareVal :: "fieldVal \<Rightarrow> fieldVal" where
  "fv_SquareVal val =
     (let (t, t19) = carry_columns 0 (map (square_column val) [0..<19]) in reduce_terms t t19)"

subsection \<open>Powers\<close>

text \<open>The argument \<^verbatim>\<open>x\<close> of \<^verbatim>\<open>SqrtVal\<close> is a pointer: to another variable that holds a value, or to the receiver, which the
  method changes from its first line on. \<open>deref\<close> reads it when the receiver holds \<open>f\<close>.\<close>

datatype field_ptr = Other fieldVal | Receiver

primrec deref :: "field_ptr \<Rightarrow> fieldVal \<Rightarrow> fieldVal" where
  "deref (Other x) f = x"
| "deref Receiver f = f"

definition mul_ptr :: "field_ptr \<Rightarrow> fieldVal \<Rightarrow> fieldVal" where
  "mul_ptr x f = fv_Mul2 f (deref x f)"

text \<open>\<^verbatim>\<open>f.Square().Mul(x)\<close>.\<close>

definition square_mul :: "field_ptr \<Rightarrow> fieldVal \<Rightarrow> fieldVal" where
  "square_mul x f = mul_ptr x (fv_SquareVal f)"

definition sqrt_byte :: "field_ptr \<Rightarrow> fieldVal \<Rightarrow> byte \<Rightarrow> fieldVal" where
  "sqrt_byte x f b =
     (if b = 0xff then (square_mul x ^^ 8) f
      else if b = 0x3f then (square_mul x ^^ 5) (mul_ptr x f)
      else if b = 0xbf then (square_mul x ^^ 6) (fv_SquareVal (square_mul x f))
      else (fv_SquareVal ^^ 2) ((square_mul x ^^ 2) ((fv_SquareVal ^^ 4) f)))"

definition fv_SqrtVal :: "field_ptr \<Rightarrow> fieldVal \<Rightarrow> fieldVal" where
  "fv_SqrtVal x f = (let f = fv_SetInt 1 in foldl (sqrt_byte x) f fieldQBytes)"

definition fv_Sqrt :: "fieldVal \<Rightarrow> fieldVal" where
  "fv_Sqrt f = fv_SqrtVal Receiver f"

text \<open>The ten squarings and the product of one line triple of \<^verbatim>\<open>Inverse\<close>.\<close>

definition square10_mul :: "fieldVal \<Rightarrow> fieldVal \<Rightarrow> fieldVal" where
  "square10_mul a f = fv_Mul2 ((fv_SquareVal ^^ 10) f) a"

definition fv_Inverse :: "fieldVal \<Rightarrow> fieldVal" where
  "fv_Inverse f =
     (let a2 = fv_SquareVal f; a3 = fv_Mul2 a2 f; a4 = fv_SquareVal a2; a10 = fv_Mul2 (fv_SquareVal a4) a2;
          a11 = fv_Mul2 a10 f; a21 = fv_Mul2 a10 a11; a42 = fv_SquareVal a21; a45 = fv_Mul2 a42 a3;
          a63 = fv_Mul2 a42 a21; a1019 = fv_Mul2 ((fv_SquareVal ^^ 4) a63) a11; a1023 = fv_Mul2 a1019 a4;
          f = (square10_mul a1023 ^^ 21) a63; f = square10_mul a1019 f; f = (square10_mul a1023 ^^ 2) f
      in fv_Mul2 ((fv_SquareVal ^^ 10) f) a45)"

section \<open>Values\<close>

definition secp_P :: int where
  "secp_P = 0xFFFFFFFFFFFFFFFFFFFFFFFFFFFFFFFFFFFFFFFFFFFFFFFFFFFFFFFEFFFFFC2F"

primrec fval :: "'a::len word list \<Rightarrow> nat" where
  "fval [] = 0"
| "fval (x # xs) = unat x + 2 ^ 26 * fval xs"

text \<open>
  A field value of magnitude \<open>m\<close>: words of at most \<open>m\<close> times the size the product leaves. It denotes a number
  modulo the prime.
\<close>

definition fv_magnitude :: "nat \<Rightarrow> fieldVal \<Rightarrow> bool" where
  "fv_magnitude m f \<longleftrightarrow> length f = 10 \<and> (\<forall>x \<in> set (butlast f). unat x \<le> m * 0x4400000) \<and> unat (last f) \<le> m * 0x400000"

definition denotes :: "fieldVal \<Rightarrow> nat \<Rightarrow> int \<Rightarrow> bool" where
  "denotes f m x \<longleftrightarrow> fv_magnitude m f \<and> int (fval f) mod secp_P = x mod secp_P"

text \<open>Columns of natural numbers: the schoolbook product the columns of words are compared with.\<close>

primrec nval :: "nat list \<Rightarrow> nat" where
  "nval [] = 0"
| "nval (x # xs) = x + 2 ^ 26 * nval xs"

fun add_columns :: "nat list \<Rightarrow> nat list \<Rightarrow> nat list" where
  "add_columns [] ys = ys"
| "add_columns xs [] = xs"
| "add_columns (x # xs) (y # ys) = (x + y) # add_columns xs ys"

primrec columns :: "nat list \<Rightarrow> nat list \<Rightarrow> nat list" where
  "columns [] b = []"
| "columns (x # a) b = add_columns (map ((*) x) b) (0 # columns a b)"

definition reduce_columns :: "u64 list \<Rightarrow> u64 list" where
  "reduce_columns t =
     (t ! 0 + t ! 10 * 15632) # map (\<lambda>k. t ! k + t ! (k + 9) * 1024 + t ! (k + 10) * 15632) [1..<9]"

text \<open>The last step of the reduction: the bits of \<open>m\<close> above the 22 of the top word go back into the low words.\<close>

definition fold_words :: "u64 list \<Rightarrow> u64 \<Rightarrow> u64 list" where
  "fold_words r m =
     (let q = drop_bit 22 m; d = r ! 0 + q * 977; d2 = drop_bit 26 d + r ! 1 + q * 64
      in [d AND fieldBaseMask, d2 AND fieldBaseMask, drop_bit 26 d2 + r ! 2, r ! 3, r ! 4, r ! 5, r ! 6, r ! 7, r ! 8,
          m AND fieldMSBMask])"

text \<open>The words a product accepts: magnitude 15 is the largest within these bounds.\<close>

definition mul_words :: "fieldVal \<Rightarrow> bool" where
  "mul_words a \<longleftrightarrow> length a = 10 \<and> (\<forall>x \<in> set a. unat x < 2 ^ 30) \<and> unat (last a) < 2 ^ 26"

section \<open>Lemmas\<close>

lemma secp_P_pos: "0 < secp_P"
  by (simp add: secp_P_def)

lemma base_mask: "(fieldBaseMask :: u32) = mask 26" "(fieldBaseMask :: u64) = mask 26"
  "(fieldMSBMask :: u32) = mask 22" "(fieldMSBMask :: u64) = mask 22"
  by (simp_all add: fieldBaseMask_def fieldMSBMask_def mask_eq_exp_minus_1)

lemma unat_masked:
  "unat (w AND fieldBaseMask) = unat w mod 2 ^ 26" "unat (v AND fieldBaseMask) = unat v mod 2 ^ 26"
  "unat (w AND fieldMSBMask) = unat w mod 2 ^ 22" "unat (v AND fieldMSBMask) = unat v mod 2 ^ 22"
  for w :: u32 and v :: u64
  by (simp_all only: base_mask unsigned_take_bit_eq take_bit_eq_mod [where 'a = nat] flip: take_bit_eq_mask)

lemma unat_shifted: "unat (drop_bit k w) = unat w div 2 ^ k"
  by (simp only: unat_drop_bit_eq drop_bit_eq_div [where 'a = nat])

lemma unat_bound: "unat x < 2 ^ LENGTH('a)" for x :: "'a::len word"
  by (rule unsigned_less)

lemma unat_sum: "unat x + unat y < 2 ^ LENGTH('a) \<Longrightarrow> unat (x + y) = unat x + unat y" for x y :: "'a::len word"
  by (simp add: unat_add_lem)

lemma unat_prod: "unat x * unat y < 2 ^ LENGTH('a) \<Longrightarrow> unat (x * y) = unat x * unat y" for x y :: "'a::len word"
  by (simp add: unat_mult_lem)

lemma unat_widen: "unat (ucast x :: u64) = unat x" for x :: u32
  using unat_bound [of x] by (simp add: unsigned_ucast_eq take_bit_nat_eq_self_iff)

subsection \<open>Carries\<close>

lemma carry_columns_val:
  "\<forall>x \<in> set xs. unat x < 2 ^ 64 - 2 ^ 39 \<Longrightarrow> unat c < 2 ^ 39 \<Longrightarrow> carry_columns c xs = (ts, r) \<Longrightarrow>
     length ts = length xs \<and> (\<forall>t \<in> set ts. unat t < 2 ^ 26) \<and> unat r < 2 ^ 39 \<and>
     fval ts + (2 ^ 26) ^ length xs * unat r = unat c + fval xs"
proof (induction xs arbitrary: c ts r)
  case (Cons x xs)
  obtain us where us: "carry_columns (drop_bit 26 (c + x)) xs = (us, r)" "ts = ((c + x) AND fieldBaseMask) # us"
    using Cons.prems(3) by (auto simp: fieldBase_def Let_def split: prod.splits)
  have s: "unat (c + x) = unat c + unat x" by (rule unat_sum) (use Cons.prems in auto)
  have "unat (drop_bit 26 (c + x)) < 2 ^ 39" using unat_bound [of "c + x"] by (simp add: unat_shifted div_less_iff_less_mult)
  with Cons.IH [OF _ this us(1)] Cons.prems(1)
  have IH: "length us = length xs" "\<forall>t \<in> set us. unat t < 2 ^ 26" "unat r < 2 ^ 39"
    "fval us + (2 ^ 26) ^ length xs * unat r = unat (drop_bit 26 (c + x)) + fval xs" by auto
  have "fval ts + (2 ^ 26) ^ length (x # xs) * unat r =
      unat (c + x) mod 2 ^ 26 + 2 ^ 26 * (fval us + (2 ^ 26) ^ length xs * unat r)"
    by (simp add: us(2) unat_masked algebra_simps)
  also have "\<dots> = unat (c + x) mod 2 ^ 26 + 2 ^ 26 * (unat (c + x) div 2 ^ 26) + 2 ^ 26 * fval xs"
    by (simp only: IH(4) unat_shifted distrib_left add.assoc)
  also have "\<dots> = unat c + fval (x # xs)" using s mod_mult_div_eq [of "unat (c + x)" "2 ^ 26"] by simp
  finally show ?case using IH us(2) by (simp add: unat_masked)
qed simp

subsection \<open>Products\<close>

lemma nval_add_columns: "nval (add_columns xs ys) = nval xs + nval ys"
  by (induction xs ys rule: add_columns.induct) (simp_all add: algebra_simps)

lemma nval_scale: "nval (map ((*) x) b) = x * nval b"
  by (induction b) (simp_all add: algebra_simps)

lemma nval_columns: "nval (columns a b) = nval a * nval b"
  by (induction a) (simp_all add: nval_add_columns nval_scale algebra_simps)

lemma fval_nval: "fval xs = nval (map unat xs)"
  by (induction xs) simp_all

lemma columns10:
  "columns [a0, a1, a2, a3, a4, a5, a6, a7, a8, a9] [b0, b1, b2, b3, b4, b5, b6, b7, b8, b9] =
   [a0 * b0,
    a0 * b1 + a1 * b0, a0 * b2 + a1 * b1 + a2 * b0, a0 * b3 + a1 * b2 + a2 * b1 + a3 * b0,
    a0 * b4 + a1 * b3 + a2 * b2 + a3 * b1 + a4 * b0,
    a0 * b5 + a1 * b4 + a2 * b3 + a3 * b2 + a4 * b1 + a5 * b0,
    a0 * b6 + a1 * b5 + a2 * b4 + a3 * b3 + a4 * b2 + a5 * b1 + a6 * b0,
    a0 * b7 + a1 * b6 + a2 * b5 + a3 * b4 + a4 * b3 + a5 * b2 + a6 * b1 + a7 * b0,
    a0 * b8 + a1 * b7 + a2 * b6 + a3 * b5 + a4 * b4 + a5 * b3 + a6 * b2 + a7 * b1 + a8 * b0,
    a0 * b9 + a1 * b8 + a2 * b7 + a3 * b6 + a4 * b5 + a5 * b4 + a6 * b3 + a7 * b2 + a8 * b1 + a9 * b0,
    a1 * b9 + a2 * b8 + a3 * b7 + a4 * b6 + a5 * b5 + a6 * b4 + a7 * b3 + a8 * b2 + a9 * b1,
    a2 * b9 + a3 * b8 + a4 * b7 + a5 * b6 + a6 * b5 + a7 * b4 + a8 * b3 + a9 * b2,
    a3 * b9 + a4 * b8 + a5 * b7 + a6 * b6 + a7 * b5 + a8 * b4 + a9 * b3,
    a4 * b9 + a5 * b8 + a6 * b7 + a7 * b6 + a8 * b5 + a9 * b4,
    a5 * b9 + a6 * b8 + a7 * b7 + a8 * b6 + a9 * b5, a6 * b9 + a7 * b8 + a8 * b7 + a9 * b6,
    a7 * b9 + a8 * b8 + a9 * b7, a8 * b9 + a9 * b8, a9 * b9]"
  by (simp add: add.assoc)

lemma list10: "length xs = 10 \<Longrightarrow> xs = [xs ! 0, xs ! 1, xs ! 2, xs ! 3, xs ! 4, xs ! 5, xs ! 6, xs ! 7, xs ! 8, xs ! 9]"
  by (rule nth_equalityI) (auto simp: less_Suc_eq numeral_eq_Suc)

lemma unat_sum_list: "sum_list (map unat ws) < 2 ^ LENGTH('a) \<Longrightarrow> unat (sum_list ws) = sum_list (map unat ws)"
  for ws :: "'a::len word list"
proof (induction ws)
  case (Cons w ws)
  then have "unat (sum_list ws) = sum_list (map unat ws)" by simp
  then show ?case using Cons.prems unat_sum [of w "sum_list ws"] by simp
qed simp

lemma sum_list_bounded: "(\<And>x. x \<in> set xs \<Longrightarrow> f x \<le> (u :: nat)) \<Longrightarrow> sum_list (map f xs) \<le> length xs * u"
proof (induction xs)
  case (Cons x xs)
  then show ?case using add_mono [of "f x" u] by simp
qed simp

lemma mul_column_val:
  assumes a: "length a = 10" "\<forall>x \<in> set a. unat x < 2 ^ 30" and b: "length b = 10" "\<forall>x \<in> set b. unat x < 2 ^ 30"
    and k: "k < 19"
  shows "unat (mul_column a b k) = sum_list (map (\<lambda>i. unat (a ! i) * unat (b ! (k - i))) [k - 9..<Suc (min k 9)])"
    and "unat (mul_column a b k) < 2 ^ 64 - 2 ^ 39"
proof -
  let ?I = "[k - 9..<Suc (min k 9)]"
  have p: "unat (ucast (a ! i) * ucast (b ! (k - i)) :: u64) = unat (a ! i) * unat (b ! (k - i))"
    "unat (a ! i) * unat (b ! (k - i)) \<le> 2 ^ 60" if "i \<in> set ?I" for i
  proof -
    have i: "i < 10" "k - i < 10" using that k by auto
    then have "unat (a ! i) \<le> 2 ^ 30" "unat (b ! (k - i)) \<le> 2 ^ 30" using a b by (auto simp: less_imp_le)
    then have "unat (a ! i) * unat (b ! (k - i)) \<le> 2 ^ 30 * 2 ^ 30" by (rule mult_mono) simp_all
    then show le: "unat (a ! i) * unat (b ! (k - i)) \<le> 2 ^ 60" by simp
    show "unat (ucast (a ! i) * ucast (b ! (k - i)) :: u64) = unat (a ! i) * unat (b ! (k - i))"
      using le unat_prod [of "ucast (a ! i) :: u64" "ucast (b ! (k - i))"] by (simp add: unat_widen)
  qed
  have "sum_list (map (\<lambda>i. unat (a ! i) * unat (b ! (k - i))) ?I) \<le> length ?I * 2 ^ 60"
    by (rule sum_list_bounded) (rule p(2))
  also have "\<dots> \<le> 10 * 2 ^ 60" by (intro mult_right_mono) auto
  finally have s: "sum_list (map (\<lambda>i. unat (a ! i) * unat (b ! (k - i))) ?I) \<le> 10 * 2 ^ 60" .
  have m: "map unat (map (\<lambda>i. ucast (a ! i) * ucast (b ! (k - i)) :: u64) ?I) =
      map (\<lambda>i. unat (a ! i) * unat (b ! (k - i))) ?I"
    using p(1) by simp
  have l: "sum_list (map unat (map (\<lambda>i. ucast (a ! i) * ucast (b ! (k - i)) :: u64) ?I)) < 2 ^ LENGTH(64)"
    unfolding m using s by simp
  show e: "unat (mul_column a b k) = sum_list (map (\<lambda>i. unat (a ! i) * unat (b ! (k - i))) ?I)"
    unfolding mul_column_def using unat_sum_list [OF l] by (simp only: m)
  show "unat (mul_column a b k) < 2 ^ 64 - 2 ^ 39" using e s by simp
qed

lemmas upt_small = upt_rec [of 0] upt_rec [of "Suc 0"] numeral_2_eq_2 [symmetric]

lemma upt19: "[0..<19] = [0, 1, 2, 3, 4, 5, 6, 7, 8, 9, 10, 11, 12, 13, 14, 15, 16, 17, 18]"
  by (simp add: upt_small upt_rec_numeral del: upt_Suc)

lemma mul_columns_val:
  assumes a: "length a = 10" "\<forall>x \<in> set a. unat x < 2 ^ 30" and b: "length b = 10" "\<forall>x \<in> set b. unat x < 2 ^ 30"
  shows "fval (map (mul_column a b) [0..<19]) = fval a * fval b"
proof -
  have "map unat (map (mul_column a b) [0..<19]) =
      map (\<lambda>k. sum_list (map (\<lambda>i. unat (a ! i) * unat (b ! (k - i))) [k - 9..<Suc (min k 9)])) [0..<19]"
    using mul_column_val(1) [OF assms] by simp
  also have "\<dots> = columns (map unat [a ! 0, a ! 1, a ! 2, a ! 3, a ! 4, a ! 5, a ! 6, a ! 7, a ! 8, a ! 9])
      (map unat [b ! 0, b ! 1, b ! 2, b ! 3, b ! 4, b ! 5, b ! 6, b ! 7, b ! 8, b ! 9])"
    unfolding upt19 by (simp add: columns10 upt_small upt_rec_numeral add.assoc del: columns.simps upt_Suc)
  also have "\<dots> = columns (map unat a) (map unat b)"
    using list10 [OF a(1)] list10 [OF b(1)] by simp
  finally show ?thesis by (simp only: fval_nval nval_columns)
qed

lemma square_columns: "map (square_column a) [0..<19] = map (mul_column a a) [0..<19]"
  unfolding upt19 by (simp add: square_column_def mul_column_def upt_small upt_rec_numeral algebra_simps del: upt_Suc)

lemma fv_SquareVal_eq: "fv_SquareVal a = fv_Mul2 a a"
  by (simp only: fv_SquareVal_def fv_Mul2_def square_columns)

subsection \<open>Reduction\<close>

lemma reduce_identity:
  "nval [t0 + t10 * 15632, t1 + t10 * 1024 + t11 * 15632, t2 + t11 * 1024 + t12 * 15632,
    t3 + t12 * 1024 + t13 * 15632, t4 + t13 * 1024 + t14 * 15632, t5 + t14 * 1024 + t15 * 15632,
    t6 + t15 * 1024 + t16 * 15632, t7 + t16 * 1024 + t17 * 15632, t8 + t17 * 1024 + t18 * 15632] + (2 ^ 26) ^ 9 * (t9 + t18 * 1024 + t19 * 68719492368) + 16 * nat secp_P * (nval [t10, t11, t12,
    t13, t14, t15, t16, t17, t18] + (2 ^ 26) ^ 9 * t19) =
   nval [t0, t1, t2, t3, t4, t5, t6, t7, t8, t9, t10, t11, t12, t13, t14, t15, t16, t17, t18] + (2 ^ 26) ^ 19 * t19"
  by (simp add: secp_P_def algebra_simps)

lemma list9: "length xs = 9 \<Longrightarrow> xs = [xs ! 0, xs ! 1, xs ! 2, xs ! 3, xs ! 4, xs ! 5, xs ! 6, xs ! 7, xs ! 8]"
  by (rule nth_equalityI) (auto simp: less_Suc_eq numeral_eq_Suc)

lemma carry_two:
  fixes m :: nat
  assumes "d = r0 + m * 977" "d2 = d div 2 ^ 26 + r1 + m * 64"
  shows "d mod 2 ^ 26 + 2 ^ 26 * (d2 mod 2 ^ 26 + 2 ^ 26 * (d2 div 2 ^ 26 + x)) = r0 + 2 ^ 26 * (r1 + 2 ^ 26 * x) + m * (977 + 64 * 2 ^ 26)"
proof -
  have "d2 mod 2 ^ 26 + 2 ^ 26 * (d2 div 2 ^ 26) = d2" "d mod 2 ^ 26 + 2 ^ 26 * (d div 2 ^ 26) = d"
    by (rule mod_mult_div_eq)+
  then show ?thesis using assms by (simp add: algebra_simps)
qed

lemma unat_narrow: "unat w < 2 ^ 32 \<Longrightarrow> unat (ucast w :: u32) = unat w" for w :: u64
  by (simp add: unsigned_ucast_eq take_bit_nat_eq_self_iff)

lemma reduce_column_val:
  fixes a b c :: u64
  assumes "unat a < 2 ^ 26" "unat b < 2 ^ 26" "unat c < 2 ^ 26"
  shows "unat (a + b * 1024 + c * 15632) = unat a + unat b * 1024 + unat c * 15632"
    "unat (a + c * 15632) = unat a + unat c * 15632"
proof -
  have b: "unat (b * 1024) = unat b * 1024" and c: "unat (c * 15632) = unat c * 15632"
    using assms unat_prod [of b 1024] unat_prod [of c 15632] by simp_all
  show "unat (a + c * 15632) = unat a + unat c * 15632" using assms c unat_sum [of a "c * 15632"] by simp
  have "unat (a + b * 1024) = unat a + unat b * 1024" using assms b unat_sum [of a "b * 1024"] by simp
  then show "unat (a + b * 1024 + c * 15632) = unat a + unat b * 1024 + unat c * 15632"
    using assms c unat_sum [of "a + b * 1024" "c * 15632"] by simp
qed

lemma top_column_val:
  fixes c t9 t18 t19 :: u64
  assumes "unat c < 2 ^ 39" "unat t9 < 2 ^ 26" "unat t18 < 2 ^ 26" "unat t19 \<le> 2 ^ 26 + 64"
  shows "unat (c + t9 + t18 * 1024 + t19 * 68719492368) = unat c + unat t9 + unat t18 * 1024 + unat t19 * 68719492368"
    "unat (c + t9 + t18 * 1024 + t19 * 68719492368) < 2 ^ 63"
proof -
  have p: "unat (t18 * 1024) = unat t18 * 1024" "unat (t19 * 68719492368) = unat t19 * 68719492368"
    using assms unat_prod [of t18 1024] unat_prod [of t19 68719492368] by simp_all
  have 1: "unat (c + t9) = unat c + unat t9" using assms unat_sum [of c t9] by simp
  have 2: "unat (c + t9 + t18 * 1024) = unat c + unat t9 + unat t18 * 1024"
    using assms p(1) 1 unat_sum [of "c + t9" "t18 * 1024"] by simp
  show 3: "unat (c + t9 + t18 * 1024 + t19 * 68719492368) = unat c + unat t9 + unat t18 * 1024 + unat t19 * 68719492368"
    using assms p(2) 2 unat_sum [of "c + t9 + t18 * 1024" "t19 * 68719492368"] by simp
  show "unat (c + t9 + t18 * 1024 + t19 * 68719492368) < 2 ^ 63" using assms unfolding 3 by simp
qed

lemma reduce_columns_val:
  assumes t: "length t = 19" "\<forall>x \<in> set t. unat x < 2 ^ 26"
  shows "length (reduce_columns t) = 9" "\<forall>x \<in> set (reduce_columns t). unat x < 2 ^ 64 - 2 ^ 39"
    "map unat (reduce_columns t) = (unat (t ! 0) + unat (t ! 10) * 15632) #
      map (\<lambda>k. unat (t ! k) + unat (t ! (k + 9)) * 1024 + unat (t ! (k + 10)) * 15632) [1..<9]"
proof -
  have b: "unat (t ! i) < 2 ^ 26" if "i < 19" for i using that t by simp
  show m: "map unat (reduce_columns t) = (unat (t ! 0) + unat (t ! 10) * 15632) #
      map (\<lambda>k. unat (t ! k) + unat (t ! (k + 9)) * 1024 + unat (t ! (k + 10)) * 15632) [1..<9]"
    using b by (auto simp: reduce_columns_def reduce_column_val(1) reduce_column_val(2) [of "t ! 0" 0 "t ! 10"])
  show "length (reduce_columns t) = 9" by (simp add: reduce_columns_def)
  have "\<forall>x \<in> set (map unat (reduce_columns t)). x < 2 ^ 64 - 2 ^ 39"
  proof -
    have "unat (t ! k) + unat (t ! (k + 9)) * 1024 + unat (t ! (k + 10)) * 15632 < 2 ^ 64 - 2 ^ 39" if "k < 9" for k
      using b [of k] b [of "k + 9"] b [of "k + 10"] that by simp
    then show ?thesis unfolding m using b [of 0] b [of 10] by auto
  qed
  then show "\<forall>x \<in> set (reduce_columns t). unat x < 2 ^ 64 - 2 ^ 39" by simp
qed

lemma fv_magnitude_unat:
  "fv_magnitude m f \<longleftrightarrow> length f = 10 \<and> (\<forall>x \<in> set (butlast (map unat f)). x \<le> m * 0x4400000) \<and>
     last (map unat f) \<le> m * 0x400000"
  by (cases "f = []") (simp_all add: fv_magnitude_def last_map flip: map_butlast)

lemma list19: "length xs = 19 \<Longrightarrow> xs = [xs ! 0, xs ! 1, xs ! 2, xs ! 3, xs ! 4, xs ! 5, xs ! 6, xs ! 7, xs ! 8, xs ! 9,
    xs ! 10, xs ! 11, xs ! 12, xs ! 13, xs ! 14, xs ! 15, xs ! 16, xs ! 17, xs ! 18]"
  by (rule nth_equalityI) (auto simp: less_Suc_eq numeral_eq_Suc)

lemma mod_le_base: "x mod 2 ^ 26 \<le> (0x4400000 :: nat)"
  by (rule order_trans [OF less_imp_le [OF mod_less_divisor]]) simp_all

lemma words_identity:
  "r0 + 2 ^ 26 * (r1 + 2 ^ 26 * (r2 + 2 ^ 26 * nval [r3, r4, r5, r6, r7, r8, l])) + q * (977 + 64 * 2 ^ 26) +
     q * nat secp_P = nval [r0, r1, r2, r3, r4, r5, r6, r7, r8] + (2 ^ 26) ^ 9 * (l + 2 ^ 22 * q)"
  by (simp add: secp_P_def algebra_simps)

lemma combine_multiples:
  fixes F q P R b M c C X H Z :: nat
  assumes "F + q * P = R + b * M" "R + b * c = C" "M = c + X" "C + b * X + 16 * P * H = Z"
  shows "F + (q + 16 * H) * P = Z"
  using assms by (simp add: algebra_simps)

lemma fold_words_unat:
  assumes b: "\<And>i. i < 9 \<Longrightarrow> unat (r ! i) < 2 ^ 26" and m: "unat m < 2 ^ 63"
  obtains d d2 where "d = unat (r ! 0) + unat m div 2 ^ 22 * 977" "d2 = d div 2 ^ 26 + unat (r ! 1) + unat m div 2 ^ 22 * 64"
    "map unat (fold_words r m) = [d mod 2 ^ 26, d2 mod 2 ^ 26, d2 div 2 ^ 26 + unat (r ! 2), unat (r ! 3), unat (r ! 4),
       unat (r ! 5), unat (r ! 6), unat (r ! 7), unat (r ! 8), unat m mod 2 ^ 22]"
    "d2 div 2 ^ 26 + unat (r ! 2) < 0x4400000"
proof -
  define q where "q = drop_bit 22 m"
  have q: "unat q = unat m div 2 ^ 22" "unat q < 2 ^ 41" using m by (simp_all add: q_def unat_shifted)
  define d where "d = r ! 0 + q * 977"
  have q977: "unat (q * 977) = unat q * 977" and q64: "unat (q * 64) = unat q * 64"
    using q(2) unat_prod [of q 977] unat_prod [of q 64] by simp_all
  have d: "unat d = unat (r ! 0) + unat q * 977"
    unfolding d_def using q977 q(2) b [of 0] unat_sum [of "r ! 0" "q * 977"] by simp
  define d2 where "d2 = drop_bit 26 d + r ! 1 + q * 64"
  have s: "unat (drop_bit 26 d) = unat d div 2 ^ 26" by (rule unat_shifted)
  have "unat (drop_bit 26 d + r ! 1) = unat d div 2 ^ 26 + unat (r ! 1)"
    using s d q(2) b [of 0] b [of 1] unat_sum [of "drop_bit 26 d" "r ! 1"] by simp
  then have d2: "unat d2 = unat d div 2 ^ 26 + unat (r ! 1) + unat q * 64" "unat d2 < 2 ^ 48"
    unfolding d2_def using q64 d q(2) b [of 0] b [of 1] unat_sum [of "drop_bit 26 d + r ! 1" "q * 64"] by simp_all
  have n2: "unat (drop_bit 26 d2 + r ! 2) = unat d2 div 2 ^ 26 + unat (r ! 2)" "unat d2 div 2 ^ 26 + unat (r ! 2) < 0x4400000"
    using d2(2) b [of 2] unat_sum [of "drop_bit 26 d2" "r ! 2"] by (simp_all add: unat_shifted)
  have "fold_words r m = [d AND fieldBaseMask, d2 AND fieldBaseMask, drop_bit 26 d2 + r ! 2, r ! 3, r ! 4, r ! 5, r ! 6, r ! 7,
      r ! 8, m AND fieldMSBMask]"
    by (simp add: fold_words_def Let_def q_def d_def d2_def)
  then show thesis by (intro that [OF d [unfolded q(1)] d2(1) [unfolded q(1)] _ n2(2)]) (simp only: list.map unat_masked n2(1))
qed

lemma fold_words_val:
  assumes l: "length r = 9" "\<forall>x \<in> set r. unat x < 2 ^ 26" and m: "unat m < 2 ^ 63"
  shows "fv_magnitude 1 (map ucast (fold_words r m))"
    "fval (map ucast (fold_words r m) :: fieldVal) + unat m div 2 ^ 22 * nat secp_P = fval r + (2 ^ 26) ^ 9 * unat m"
proof -
  have b: "unat (r ! i) < 2 ^ 26" if "i < 9" for i using that l by simp
  obtain d d2 where d: "d = unat (r ! 0) + unat m div 2 ^ 22 * 977" "d2 = d div 2 ^ 26 + unat (r ! 1) + unat m div 2 ^ 22 * 64"
    and u: "map unat (fold_words r m) = [d mod 2 ^ 26, d2 mod 2 ^ 26, d2 div 2 ^ 26 + unat (r ! 2), unat (r ! 3), unat (r ! 4),
       unat (r ! 5), unat (r ! 6), unat (r ! 7), unat (r ! 8), unat m mod 2 ^ 22]" (is "_ = ?us")
    and n2: "d2 div 2 ^ 26 + unat (r ! 2) < 0x4400000"
    using fold_words_unat [OF b m] by blast
  have "\<forall>x \<in> set ?us. x < 2 ^ 32"
    using b [of 3] b [of 4] b [of 5] b [of 6] b [of 7] b [of 8] n2 mod_le_base [of d] mod_le_base [of d2] by simp
  then have "\<forall>x \<in> set (fold_words r m). unat x < 2 ^ 32" unfolding u [symmetric] by simp
  then have w: "map unat (map ucast (fold_words r m) :: fieldVal) = ?us" unfolding u [symmetric] by (simp add: unat_narrow)
  have "length (map unat (fold_words r m)) = 10" unfolding u by simp
  then show "fv_magnitude 1 (map ucast (fold_words r m))"
    unfolding fv_magnitude_unat w
    using b [of 3] b [of 4] b [of 5] b [of 6] b [of 7] b [of 8] n2 mod_le_base [of d] mod_le_base [of d2] by simp
  have f: "fval (map ucast (fold_words r m) :: fieldVal) = unat (r ! 0) + 2 ^ 26 * (unat (r ! 1) + 2 ^ 26 * (unat (r ! 2) + 2 ^ 26 *
      nval [unat (r ! 3), unat (r ! 4), unat (r ! 5), unat (r ! 6), unat (r ! 7), unat (r ! 8), unat m mod 2 ^ 22])) +
      unat m div 2 ^ 22 * (977 + 64 * 2 ^ 26)"
    unfolding carry_two [OF d, symmetric] fval_nval w by (simp only: nval.simps add.assoc)
  have "fval r = nval (map unat [r ! 0, r ! 1, r ! 2, r ! 3, r ! 4, r ! 5, r ! 6, r ! 7, r ! 8])"
    unfolding fval_nval by (rule arg_cong [OF list9 [OF l(1)], of "\<lambda>x. nval (map unat x)"])
  then show "fval (map ucast (fold_words r m) :: fieldVal) + unat m div 2 ^ 22 * nat secp_P = fval r + (2 ^ 26) ^ 9 * unat m"
    unfolding f using words_identity [of "unat (r ! 0)" "unat (r ! 1)" "unat (r ! 2)" "unat (r ! 3)" "unat (r ! 4)"
      "unat (r ! 5)" "unat (r ! 6)" "unat (r ! 7)" "unat (r ! 8)" "unat m mod 2 ^ 22" "unat m div 2 ^ 22"]
      mod_mult_div_eq [of "unat m" "2 ^ 22"]
    by (simp only: list.map)
qed

lemma reduce_columns_high:
  assumes t: "length t = 19" "\<forall>x \<in> set t. unat x < 2 ^ 26"
  shows "\<exists>H. fval (reduce_columns t) + (2 ^ 26) ^ 9 * (unat (t ! 9) + unat (t ! 18) * 1024 + unat (t19 :: u64) * 68719492368) +
      16 * nat secp_P * H = fval t + (2 ^ 26) ^ 19 * unat t19"
proof -
  have "fval t = nval (map unat [t ! 0, t ! 1, t ! 2, t ! 3, t ! 4, t ! 5, t ! 6, t ! 7, t ! 8, t ! 9, t ! 10, t ! 11,
      t ! 12, t ! 13, t ! 14, t ! 15, t ! 16, t ! 17, t ! 18])"
    unfolding fval_nval by (rule arg_cong [OF list19 [OF t(1)], of "\<lambda>x. nval (map unat x)"])
  moreover have "fval (reduce_columns t) = nval ((unat (t ! 0) + unat (t ! 10) * 15632) #
      map (\<lambda>k. unat (t ! k) + unat (t ! (k + 9)) * 1024 + unat (t ! (k + 10)) * 15632) [1, 2, 3, 4, 5, 6, 7, 8])"
    unfolding fval_nval reduce_columns_val(3) [OF t] by (simp add: upt_small upt_rec_numeral del: upt_Suc)
  ultimately have H: "fval (reduce_columns t) + (2 ^ 26) ^ 9 * (unat (t ! 9) + unat (t ! 18) * 1024 + unat t19 * 68719492368) +
      16 * nat secp_P * (nval [unat (t ! 10), unat (t ! 11), unat (t ! 12), unat (t ! 13), unat (t ! 14), unat (t ! 15),
        unat (t ! 16), unat (t ! 17), unat (t ! 18)] + (2 ^ 26) ^ 9 * unat t19) = fval t + (2 ^ 26) ^ 19 * unat t19"
    using reduce_identity [of "unat (t ! 0)" "unat (t ! 10)" "unat (t ! 1)" "unat (t ! 11)" "unat (t ! 2)"
      "unat (t ! 12)" "unat (t ! 3)" "unat (t ! 13)" "unat (t ! 4)" "unat (t ! 14)" "unat (t ! 5)" "unat (t ! 15)"
      "unat (t ! 6)" "unat (t ! 16)" "unat (t ! 7)" "unat (t ! 17)" "unat (t ! 8)" "unat (t ! 18)" "unat (t ! 9)" "unat t19"]
    by (simp only: list.map numeral_plus_numeral one_plus_numeral add_num_simps)
  show ?thesis by (rule exI, rule H)
qed

lemma reduce_terms_val:
  assumes t: "length t = 19" "\<forall>x \<in> set t. unat x < 2 ^ 26" and u: "unat t19 \<le> 2 ^ 26 + 64"
  shows "fv_magnitude 1 (reduce_terms t t19)"
    "\<exists>k. fval (reduce_terms t t19) + k * nat secp_P = fval t + (2 ^ 26) ^ 19 * unat t19"
proof -
  obtain r c where rc: "carry_columns 0 (reduce_columns t) = (r, c)" by fastforce
  from carry_columns_val [OF reduce_columns_val(2) [OF t] _ rc]
  have r: "length r = 9" "\<forall>x \<in> set r. unat x < 2 ^ 26" "unat c < 2 ^ 39"
    and rv: "fval r + (2 ^ 26) ^ 9 * unat c = fval (reduce_columns t)"
    using reduce_columns_val(1) [OF t] by simp_all
  define m where "m = c + t ! 9 + t ! 18 * 1024 + t19 * 68719492368"
  have m: "unat m = unat c + unat (t ! 9) + unat (t ! 18) * 1024 + unat t19 * 68719492368" "unat m < 2 ^ 63"
    unfolding m_def using top_column_val [OF r(3) _ _ u] t by simp_all
  have "drop 3 r = [r ! 3, r ! 4, r ! 5, r ! 6, r ! 7, r ! 8]" by (subst list9 [OF r(1)]) simp
  then have e: "reduce_terms t t19 = map ucast (fold_words r m)"
    unfolding reduce_terms_def reduce_columns_def [symmetric] rc
    by (simp add: fold_words_def m_def fieldBase_def fieldMSBBits_def Let_def)
  show "fv_magnitude 1 (reduce_terms t t19)" unfolding e by (rule fold_words_val(1) [OF r(1,2) m(2)])
  obtain H where i: "fval (reduce_columns t) + (2 ^ 26) ^ 9 * (unat (t ! 9) + unat (t ! 18) * 1024 + unat t19 * 68719492368) +
      16 * nat secp_P * H = fval t + (2 ^ 26) ^ 19 * unat t19"
    using reduce_columns_high [OF t] by blast
  have "unat m = unat c + (unat (t ! 9) + unat (t ! 18) * 1024 + unat t19 * 68719492368)" by (simp only: m(1) add.assoc)
  then have "fval (reduce_terms t t19) + (unat m div 2 ^ 22 + 16 * H) * nat secp_P = fval t + (2 ^ 26) ^ 19 * unat t19"
    unfolding e by (rule combine_multiples [OF fold_words_val(2) [OF r(1,2) m(2)] rv _ i])
  then show "\<exists>k. fval (reduce_terms t t19) + k * nat secp_P = fval t + (2 ^ 26) ^ 19 * unat t19" by blast
qed

lemma fval_append: "fval (xs @ ys) = fval xs + (2 ^ 26) ^ length xs * fval ys"
  by (induction xs) (simp_all add: algebra_simps)

lemma fval_bound: "\<forall>x \<in> set xs. unat x < 2 ^ 30 \<Longrightarrow> fval xs + 32 \<le> 32 * (2 ^ 26) ^ length xs"
proof (induction xs)
  case (Cons x xs)
  have "unat x < 2 ^ 30" "fval xs + 32 \<le> 32 * (2 ^ 26) ^ length xs" using Cons by simp_all
  then have "unat x + 2 ^ 26 * (fval xs + 32) \<le> 2 ^ 30 + 2 ^ 26 * (32 * (2 ^ 26) ^ length xs)"
    by (intro add_mono mult_left_mono) simp_all
  then show ?case by (simp add: algebra_simps)
qed simp

lemma mul_words_bound: "mul_words a \<Longrightarrow> fval a < (2 ^ 26 + 32) * (2 ^ 26) ^ 9"
proof -
  assume a: "mul_words a"
  then have "a \<noteq> []" "length (butlast a) = 9" by (auto simp: mul_words_def)
  then have f: "fval a = fval (butlast a) + (2 ^ 26) ^ 9 * unat (last a)"
    using fval_append [of "butlast a" "[last a]"] append_butlast_last_id [of a] by simp
  have "fval (butlast a) + 32 \<le> 32 * (2 ^ 26) ^ 9"
    using fval_bound [of "butlast a"] a by (auto simp: mul_words_def dest: in_set_butlastD)
  moreover have "unat (last a) \<le> 2 ^ 26" using a by (simp add: mul_words_def)
  ultimately have "fval (butlast a) + 32 + (2 ^ 26) ^ 9 * unat (last a) \<le> 32 * (2 ^ 26) ^ 9 + (2 ^ 26) ^ 9 * 2 ^ 26"
    by (intro add_mono mult_left_mono) simp_all
  then show ?thesis unfolding f by (simp add: algebra_simps)
qed

lemma fv_Mul2_val:
  assumes a: "mul_words a" and b: "mul_words b"
  shows "fv_magnitude 1 (fv_Mul2 a b)" "\<exists>k. fval (fv_Mul2 a b) + k * nat secp_P = fval a * fval b"
proof -
  have l: "length a = 10" "\<forall>x \<in> set a. unat x < 2 ^ 30" "length b = 10" "\<forall>x \<in> set b. unat x < 2 ^ 30"
    using a b by (simp_all add: mul_words_def)
  obtain t t19 where t: "carry_columns 0 (map (mul_column a b) [0..<19]) = (t, t19)" by fastforce
  have "\<forall>x \<in> set (map (mul_column a b) [0..<19]). unat x < 2 ^ 64 - 2 ^ 39" using mul_column_val(2) [OF l] by auto
  from carry_columns_val [OF this _ t] have c: "length t = 19" "\<forall>x \<in> set t. unat x < 2 ^ 26"
    "fval t + (2 ^ 26) ^ 19 * unat t19 = fval a * fval b"
    unfolding mul_columns_val [OF l] by simp_all
  have "fval a * fval b < ((2 ^ 26 + 32) * (2 ^ 26) ^ 9) * ((2 ^ 26 + 32) * (2 ^ 26) ^ 9)"
    by (rule mult_strict_mono' [OF mul_words_bound [OF a] mul_words_bound [OF b]]) simp_all
  moreover have "(2 ^ 26) ^ 19 * unat t19 \<le> fval a * fval b" using c(3) by (metis le_add2)
  ultimately have "(2 ^ 26) ^ 19 * unat t19 < ((2 ^ 26 + 32) * (2 ^ 26) ^ 9) * ((2 ^ 26 + 32) * (2 ^ 26) ^ 9)"
    by (rule le_less_trans [rotated])
  then have u: "unat t19 \<le> 2 ^ 26 + 64" by simp
  have "fv_Mul2 a b = reduce_terms t t19" by (simp only: fv_Mul2_def t prod.case Let_def)
  then show "fv_magnitude 1 (fv_Mul2 a b)" "\<exists>k. fval (fv_Mul2 a b) + k * nat secp_P = fval a * fval b"
    using reduce_terms_val [OF c(1,2) u] unfolding c(3) by (simp_all only:)
qed

subsection \<open>Field operations\<close>

lemma magnitude_mul_words: "fv_magnitude m a \<Longrightarrow> m \<le> 15 \<Longrightarrow> mul_words a"
proof -
  assume a: "fv_magnitude m a" "m \<le> 15"
  have "m * 0x4400000 \<le> 15 * 0x4400000" "m * 0x400000 \<le> 15 * 0x400000" using a(2) by (intro mult_right_mono; simp)+
  then have l: "unat (last a) < 2 ^ 26" "\<forall>x \<in> set (butlast a). unat x < 2 ^ 30"
    using a(1) by (auto simp: fv_magnitude_def)
  have "a \<noteq> []" using a(1) by (auto simp: fv_magnitude_def)
  then have "set a = insert (last a) (set (butlast a))"
    by (cases a rule: rev_cases) auto
  then have "\<forall>x \<in> set a. unat x < 2 ^ 30" using l by simp
  then show ?thesis using a l by (simp add: mul_words_def fv_magnitude_def)
qed

lemma denotes_multiple:
  assumes "fv_magnitude m f" "fval f + k * nat secp_P = v" "int v mod secp_P = x mod secp_P"
  shows "denotes f m x"
proof -
  have "int (nat secp_P) = secp_P" using secp_P_pos by simp
  then have "int v = int (fval f) + int k * secp_P" using assms(2) by (metis of_nat_add of_nat_mult)
  then show ?thesis using assms(1,3) by (simp add: denotes_def)
qed

end
