(* ===== verification/Field_Ops.thy ===== *)
theory Field_Ops
  imports Field_Val
begin

text \<open>
  The operations of \<^verbatim>\<open>src/pocec/field.go\<close> compute in the field modulo the prime of secp256k1: \<open>denotes f m x\<close> says
  that the words of \<open>f\<close> are within the magnitude \<open>m\<close> and stand for the residue class of \<open>x\<close>. Products and squares
  come from the lemmas on columns; this theory adds sums, negation, the normal form and its uniqueness,
  the square root by the bytes of \<open>(P + 1) / 4\<close> and the inverse by the addition chain for \<open>P - 2\<close>.
\<close>

section \<open>Products and sums\<close>

definition prime_words :: fieldVal where
  "prime_words = fieldPrimeWordZero # fieldPrimeWordOne # replicate 7 fieldBaseMask @ [fieldMSBMask]"

definition carried :: "fieldVal \<Rightarrow> bool" where
  "carried t \<longleftrightarrow> length t = 10 \<and> (\<forall>x \<in> set (butlast t). unat x < 2 ^ 26) \<and> unat (last t) < 2 ^ 22 + 2 ^ 6"

definition normalized :: "fieldVal \<Rightarrow> bool" where
  "normalized f \<longleftrightarrow> length f = 10 \<and> (\<forall>x \<in> set (butlast f). unat x < 2 ^ 26) \<and> unat (last f) < 2 ^ 22 \<and>
     int (fval f) < secp_P"

definition sqrt_exponent :: nat where
  "sqrt_exponent = nat ((secp_P + 1) div 4)"

lemma denotes_Mul2:
  assumes a: "denotes a m x" "m \<le> 15" and b: "denotes b n y" "n \<le> 15"
  shows "denotes (fv_Mul2 a b) 1 (x * y)"
proof -
  have fa: "fv_magnitude m a" "fv_magnitude n b" using a(1) b(1) by (simp_all only: denotes_def)
  have w: "mul_words a" "mul_words b" using fa a(2) b(2) by (blast intro: magnitude_mul_words)+
  obtain k where k: "fval (fv_Mul2 a b) + k * nat secp_P = fval a * fval b" using fv_Mul2_val(2) [OF w] by blast
  have "int (fval a) mod secp_P = x mod secp_P" "int (fval b) mod secp_P = y mod secp_P"
    using a(1) b(1) by (simp_all only: denotes_def)
  then have "int (fval a * fval b) mod secp_P = x * y mod secp_P"
    unfolding of_nat_mult by (rule mod_mult_cong)
  then show ?thesis by (rule denotes_multiple [OF fv_Mul2_val(1) [OF w] k])
qed

lemma denotes_SquareVal: "denotes a m x \<Longrightarrow> m \<le> 15 \<Longrightarrow> denotes (fv_SquareVal a) 1 (x ^ 2)"
  unfolding fv_SquareVal_eq power2_eq_square by (rule denotes_Mul2)

lemma denotes_mod: "denotes f m x \<Longrightarrow> x mod secp_P = y mod secp_P \<Longrightarrow> denotes f m y"
  by (simp add: denotes_def)

lemma fv_magnitude_nth:
  "fv_magnitude m f \<longleftrightarrow>
     length f = 10 \<and> (\<forall>i < 9. unat (f ! i) \<le> m * 0x4400000) \<and> unat (f ! 9) \<le> m * 0x400000"
proof (cases "length f = 10")
  case True
  then have "last f = f ! 9" by (subst last_conv_nth) auto
  moreover have "(\<forall>x \<in> set (butlast f). unat x \<le> m * 0x4400000) \<longleftrightarrow> (\<forall>i < 9. unat (f ! i) \<le> m * 0x4400000)"
    using True by (simp add: all_set_conv_all_nth nth_butlast)
  ultimately show ?thesis using True by (simp add: fv_magnitude_def)
qed (simp add: fv_magnitude_def)

lemma magnitude_word: "fv_magnitude m f \<Longrightarrow> x \<in> set f \<Longrightarrow> unat x \<le> m * 0x4400000"
  by (cases f rule: rev_cases) (auto simp: fv_magnitude_def)

lemma fval_map2_add:
  "length f = length g \<Longrightarrow> \<forall>x \<in> set f. unat x \<le> k \<Longrightarrow> \<forall>y \<in> set g. unat y \<le> l \<Longrightarrow> k + l < 2 ^ 32 \<Longrightarrow>
     fval (map2 (+) f g) = fval f + fval g \<and> map unat (map2 (+) f g) = map2 (+) (map unat f) (map unat g)"
  for f g :: fieldVal
proof (induction f g rule: list_induct2)
  case (Cons x f y g)
  then have "unat (x + y) = unat x + unat y" by (intro unat_sum) simp
  then show ?case using Cons by simp
qed simp

lemma denotes_Add:
  assumes a: "denotes a m x" and b: "denotes b n y" and s: "m + n \<le> 60"
  shows "denotes (fv_Add a b) (m + n) (x + y)"
proof -
  have fa: "fv_magnitude m a" "fv_magnitude n b" using a(1) b(1) by (simp_all only: denotes_def)
  then have l: "length a = 10" "length b = 10" by (simp_all add: fv_magnitude_def)
  have "(m + n) * 0x4400000 \<le> 60 * 0x4400000" using s by (intro mult_right_mono) simp_all
  then have "m * 0x4400000 + n * 0x4400000 < 2 ^ 32" by (simp add: algebra_simps)
  from fval_map2_add [OF _ _ _ this, of a b] fa
  have f: "fval (fv_Add a b) = fval a + fval b" and w: "map unat (fv_Add a b) = map2 (+) (map unat a) (map unat b)"
    using l magnitude_word by (auto simp: fv_Add_def)
  have "unat (fv_Add a b ! i) = unat (a ! i) + unat (b ! i)" if "i < 10" for i
    using arg_cong [OF w, of "\<lambda>xs. xs ! i"] that l by (simp add: fv_Add_def)
  then have "fv_magnitude (m + n) (fv_Add a b)"
    using fa l by (auto simp: fv_magnitude_nth fv_Add_def distrib_right intro: add_mono)
  moreover have "int (fval (fv_Add a b)) mod secp_P = (x + y) mod secp_P"
    unfolding f of_nat_add using a b by (intro mod_add_cong) (simp_all only: denotes_def)
  ultimately show ?thesis by (simp only: denotes_def)
qed

section \<open>Negation\<close>

lemma fval_map2_diff:
  "length f = length p \<Longrightarrow> list_all2 (\<lambda>x y. unat x \<le> unat y) f p \<Longrightarrow>
     fval (map2 (\<lambda>p v. p - v) p f) + fval f = fval p \<and> map unat (map2 (\<lambda>p v. p - v) p f) = map2 (-) (map unat p) (map unat f)"
  for f p :: fieldVal
proof (induction f p rule: list_induct2)
  case (Cons x f y p)
  then have "unat (y - x) = unat y - unat x" by (intro unat_sub) (simp add: word_le_nat_alt)
  then show ?case using Cons by simp
qed simp

lemma replicate7: "replicate 7 x = [x, x, x, x, x, x, x]"
  by (simp add: numeral_eq_Suc)

lemma prime_words_list:
  "prime_words = [0x3fffc2f, 0x3ffffbf, 0x3ffffff, 0x3ffffff, 0x3ffffff, 0x3ffffff, 0x3ffffff, 0x3ffffff, 0x3ffffff, 0x3fffff]"
  by (simp add: prime_words_def replicate7 fieldPrimeWordZero_def fieldPrimeWordOne_def fieldBaseMask_def fieldMSBMask_def)

lemma prime_words_val:
  "length prime_words = 10" "fval prime_words = nat secp_P" "\<forall>x \<in> set prime_words. unat x < 2 ^ 26"
  "unat (prime_words ! 9) = 0x3fffff" "\<forall>x \<in> set (butlast prime_words). 0x3fffc2f \<le> unat x"
  by (simp_all add: prime_words_list secp_P_def)

lemma fval_scale:
  "\<forall>x \<in> set f. c * unat x < 2 ^ 32 \<Longrightarrow> unat k = c \<Longrightarrow>
     fval (map ((*) k) f) = c * fval f \<and> map unat (map ((*) k) f) = map ((*) c) (map unat f)"
  for f :: fieldVal
proof (induction f)
  case (Cons x f)
  then have "unat (k * x) = c * unat x" using unat_prod [of k x] by simp
  then show ?case using Cons by (simp add: algebra_simps)
qed simp

lemma fv_NegateVal_eq: "fv_NegateVal f k = map2 (\<lambda>p v. p - v) (map ((*) (k + 1)) prime_words) f"
  unfolding fv_NegateVal_def prime_words_def [symmetric] by (simp add: zip_map1 split_beta comp_def)

lemma scaled_prime:
  assumes m: "m \<le> 15" and p: "p = map ((*) (of_nat m + 1 :: u32)) prime_words"
  shows "length p = 10" "fval p = (m + 1) * nat secp_P" "\<And>i. i < 10 \<Longrightarrow> unat (p ! i) = (m + 1) * unat (prime_words ! i)"
proof -
  have k: "unat (of_nat m + 1 :: u32) = m + 1"
    using m unat_of_nat [of "m + 1", where 'a = 32] unfolding add.commute [of "of_nat m"] by simp
  have "(m + 1) * unat x < 2 ^ 32" if "x \<in> set prime_words" for x
  proof -
    have "unat x \<le> 2 ^ 26" using that prime_words_val(3) by (simp add: less_imp_le)
    then have "(m + 1) * unat x \<le> 16 * 2 ^ 26" using m by (intro mult_mono) simp_all
    then show ?thesis by simp
  qed
  from fval_scale [OF _ k, of prime_words] this
  have v: "fval p = (m + 1) * nat secp_P" "map unat p = map ((*) (m + 1)) (map unat prime_words)"
    unfolding p prime_words_val(2) by simp_all
  show "length p = 10" by (simp add: p prime_words_val)
  show "fval p = (m + 1) * nat secp_P" by (rule v(1))
  show "unat (p ! i) = (m + 1) * unat (prime_words ! i)" if "i < 10" for i
    using arg_cong [OF v(2), of "\<lambda>xs. xs ! i"] that by (simp add: p prime_words_val)
qed

lemma scaled_prime_ge:
  assumes m: "m \<le> 15" and p: "p = map ((*) (of_nat m + 1 :: u32)) prime_words" and a: "fv_magnitude m a" and i: "i < 10"
  shows "unat (a ! i) \<le> unat (p ! i)"
proof (cases "i < 9")
  case True
  note pi = scaled_prime(3) [OF m p]
  have "prime_words ! i \<in> set (butlast prime_words)"
    using True nth_mem [of i "butlast prime_words"] by (simp add: nth_butlast prime_words_val(1))
  then have low: "0x3fffc2f \<le> unat (prime_words ! i)" using prime_words_val(5) by blast
  have "m * 0x4400000 \<le> (m + 1) * 0x3fffc2f" using m by simp
  also have "\<dots> \<le> unat (p ! i)" using pi [OF i] low by (simp del: mult_Suc add_mult_distrib)
  finally have "m * 0x4400000 \<le> unat (p ! i)" .
  moreover have "unat (a ! i) \<le> m * 0x4400000" using a True by (simp add: fv_magnitude_nth)
  ultimately show ?thesis by (rule order_trans [rotated])
next
  case False
  then have "i = 9" using i by simp
  then show ?thesis using a scaled_prime(3) [OF m p, of 9] m by (auto simp: fv_magnitude_nth prime_words_val)
qed

lemma magnitude_NegateVal:
  assumes l: "length f = 10" and u: "\<And>i. i < 10 \<Longrightarrow> unat (f ! i) \<le> k * unat (prime_words ! i)"
  shows "fv_magnitude k f"
proof -
  have "unat (f ! i) \<le> k * 0x4400000" if "i < 9" for i
  proof -
    have "unat (prime_words ! i) < 2 ^ 26" using that prime_words_val(1,3) by simp
    then have "unat (prime_words ! i) \<le> 0x4400000" by simp
    then have "k * unat (prime_words ! i) \<le> k * 0x4400000" by (rule mult_left_mono) simp
    then show ?thesis using u [of i] that by linarith
  qed
  moreover have "unat (f ! 9) \<le> k * 0x400000" using u [of 9] unfolding prime_words_val(4) by simp
  ultimately show ?thesis using l by (simp add: fv_magnitude_nth)
qed

lemma denotes_NegateVal:
  assumes a: "denotes a m x" and m: "m \<le> 15"
  shows "denotes (fv_NegateVal a (of_nat m)) (m + 1) (- x)"
proof -
  have fa: "fv_magnitude m a" using a by (simp only: denotes_def)
  then have l: "length a = 10" by (simp add: fv_magnitude_def)
  define p where "p = map ((*) (of_nat m + 1 :: u32)) prime_words"
  define f where "f = fv_NegateVal a (of_nat m)"
  note lp = scaled_prime(1) [OF m p_def] and pi = scaled_prime(3) [OF m p_def]
  have f: "f = map2 (\<lambda>p v. p - v) p a" by (simp add: f_def fv_NegateVal_eq p_def)
  have "list_all2 (\<lambda>x y. unat x \<le> unat y) a p"
    using l lp scaled_prime_ge [OF m p_def fa] by (simp add: list_all2_conv_all_nth)
  from fval_map2_diff [OF _ this] l lp
  have d: "fval f + fval a = (m + 1) * nat secp_P" and w: "map unat f = map2 (-) (map unat p) (map unat a)"
    unfolding scaled_prime(2) [OF m p_def, symmetric] by (simp_all add: f)
  have "unat (f ! i) \<le> (m + 1) * unat (prime_words ! i)" if "i < 10" for i
    using arg_cong [OF w, of "\<lambda>xs. xs ! i"] that l lp pi [OF that] by (simp add: f)
  then have g: "fv_magnitude (m + 1) f" using l lp by (intro magnitude_NegateVal) (simp_all add: f)
  have "int (fval f) + int (fval a) = int (m + 1) * secp_P"
    using d secp_P_pos by (metis int_nat_eq less_imp_le of_nat_add of_nat_mult)
  then have "int (fval f) = - int (fval a) + int (m + 1) * secp_P" by linarith
  then have "int (fval f) mod secp_P = - int (fval a) mod secp_P" by (simp only: mod_mult_self1)
  also have "\<dots> = - x mod secp_P"
    using a mod_minus_eq [of "int (fval a)" secp_P] mod_minus_eq [of x secp_P] by (simp only: denotes_def)
  finally have "int (fval f) mod secp_P = - x mod secp_P" .
  then show ?thesis using g by (simp only: denotes_def f_def)
qed

section \<open>Normalisation\<close>

lemma carry_words_val:
  fixes xs :: fieldVal
  shows "xs \<noteq> [] \<Longrightarrow> \<forall>x \<in> set xs. unat x < 2 ^ 32 - 2 ^ 6 \<Longrightarrow> unat c < 2 ^ 6 \<Longrightarrow>
    length (carry_words c xs) = length xs \<and> fval (carry_words c xs) = unat c + fval xs \<and>
    (\<forall>y \<in> set (butlast (carry_words c xs)). unat y < 2 ^ 26) \<and>
    unat (last (carry_words c xs)) < unat (last xs) + 2 ^ 6"
proof (induction c xs rule: carry_words.induct)
  case (2 c x)
  then have "unat (c + x) = unat c + unat x" by (intro unat_sum) simp
  then show ?case using 2 by simp
next
  case (3 c x y xs)
  define r where "r = carry_words (drop_bit 26 (c + x)) (y # xs)"
  have s: "unat (c + x) = unat c + unat x" using 3 by (intro unat_sum) simp
  have c: "unat (drop_bit 26 (c + x)) < 2 ^ 6" using unat_bound [of "c + x"] by (simp add: unat_shifted div_less_iff_less_mult)
  have IH: "length r = length (y # xs)" "fval r = unat (drop_bit 26 (c + x)) + fval (y # xs)"
    "\<forall>y \<in> set (butlast r). unat y < 2 ^ 26" "unat (last r) < unat (last (y # xs)) + 2 ^ 6"
    using "3.IH" 3(3) c unfolding r_def fieldBase_def by auto
  then have ne: "r \<noteq> []" by auto
  have e: "carry_words c (x # y # xs) = ((c + x) AND fieldBaseMask) # r" by (simp add: r_def fieldBase_def)
  have "fval (carry_words c (x # y # xs)) = unat (c + x) mod 2 ^ 26 + 2 ^ 26 * (unat (c + x) div 2 ^ 26) + 2 ^ 26 * fval (y # xs)"
    unfolding e by (simp only: fval.simps(2) [of "(c + x) AND fieldBaseMask"] IH(2) unat_masked unat_shifted distrib_left add.assoc)
  also have "\<dots> = unat c + fval (x # y # xs)" using s mod_mult_div_eq [of "unat (c + x)" "2 ^ 26"] by simp
  finally show ?case using IH ne unfolding e by (simp add: unat_masked)
qed simp

lemma add_c_val:
  assumes t: "length t = 10" "\<forall>x \<in> set t. unat x < 2 ^ 31" and m: "unat m < 2 ^ 10"
  shows "length (add_c m t) = 10" "fval (add_c m t) = fval t + unat m * (977 + 64 * 2 ^ 26)"
    "\<forall>x \<in> set (butlast (add_c m t)). unat x < 2 ^ 26" "unat (last (add_c m t)) < unat (last t) + 2 ^ 6"
proof -
  have b: "unat (t ! 0) < 2 ^ 31" "unat (t ! 1) < 2 ^ 31" "\<forall>x \<in> set (drop 2 t). unat x < 2 ^ 31"
    using t by (auto dest: in_set_dropD)
  have p: "unat (m * 977) = unat m * 977" using m unat_prod [of m 977] by simp
  have q: "unat (push_bit 6 m) = unat m * 64" using m unat_prod [of m 64] by (simp add: push_bit_eq_mult)
  have s: "unat (t ! 0 + m * 977) = unat (t ! 0) + unat m * 977" "unat (t ! 1 + push_bit 6 m) = unat (t ! 1) + unat m * 64"
    using b m p q unat_sum [of "t ! 0" "m * 977"] unat_sum [of "t ! 1" "push_bit 6 m"] by simp_all
  define xs where "xs = (t ! 0 + m * 977) # (t ! 1 + push_bit 6 m) # drop 2 t"
  have x: "xs \<noteq> []" "\<forall>x \<in> set xs. unat x < 2 ^ 32 - 2 ^ 6" "unat (0 :: u32) < 2 ^ 6" "length xs = 10" "last xs = last t"
    using b m s t(1) by (auto simp: xs_def last_drop)
  have "t = t ! 0 # t ! 1 # drop 2 t"
    using t(1) Cons_nth_drop_Suc [of 0 t] Cons_nth_drop_Suc [of 1 t] by (simp add: numeral_2_eq_2)
  then have "fval t = unat (t ! 0) + 2 ^ 26 * (unat (t ! 1) + 2 ^ 26 * fval (drop 2 t))" by (metis fval.simps(2))
  then have "fval xs = fval t + unat m * (977 + 64 * 2 ^ 26)"
    unfolding xs_def fval.simps s by (simp add: algebra_simps)
  then show "length (add_c m t) = 10" "fval (add_c m t) = fval t + unat m * (977 + 64 * 2 ^ 26)"
    "\<forall>x \<in> set (butlast (add_c m t)). unat x < 2 ^ 26" "unat (last (add_c m t)) < unat (last t) + 2 ^ 6"
    using carry_words_val [OF x(1-3)] x(4,5) by (simp_all add: add_c_def xs_def)
qed

lemma fval_max:
  "\<forall>x \<in> set xs. unat x < 2 ^ 26 \<Longrightarrow>
     fval xs + 1 \<le> (2 ^ 26) ^ length xs \<and> (fval xs + 1 = (2 ^ 26) ^ length xs \<longleftrightarrow> (\<forall>x \<in> set xs. unat x = 2 ^ 26 - 1))"
proof (induction xs)
  case (Cons x xs)
  then have IH: "fval xs + 1 \<le> (2 ^ 26) ^ length xs"
    "fval xs + 1 = (2 ^ 26) ^ length xs \<longleftrightarrow> (\<forall>x \<in> set xs. unat x = 2 ^ 26 - 1)" by simp_all
  define k where "k = (2 ^ 26 :: nat) ^ length xs"
  have f: "fval (x # xs) + 1 + 2 ^ 26 * (k - (fval xs + 1)) + (2 ^ 26 - 1 - unat x) = 2 ^ 26 * k"
    using IH(1) Cons.prems unfolding k_def [symmetric] by (simp add: algebra_simps diff_mult_distrib2)
  have "k = fval xs + 1 \<longleftrightarrow> k - (fval xs + 1) = 0" using IH(1) by (simp add: k_def)
  then have "fval (x # xs) + 1 = 2 ^ 26 * k \<longleftrightarrow> unat x = 2 ^ 26 - 1 \<and> fval xs + 1 = k"
    using f Cons.prems IH(1) unfolding k_def [symmetric] by (auto simp del: fval.simps)
  then show ?case using IH f unfolding k_def by (simp del: fval.simps)
qed simp

lemma base_mask_unat: "unat (fieldBaseMask :: u32) = 2 ^ 26 - 1" "unat (fieldMSBMask :: u32) = 2 ^ 22 - 1"
  by (simp_all add: fieldBaseMask_def fieldMSBMask_def)

lemma word_eq_unat: "x = y \<longleftrightarrow> unat x = unat y"
  by (simp add: word_unat_eq_iff)

lemma and_small: "unat x < 2 ^ 26 \<Longrightarrow> unat (x AND y) < 2 ^ 26" for x y :: u32
  using word_and_le2 [of x y] by (simp add: word_le_nat_alt)

lemma and_max:
  fixes x y :: u32
  assumes "unat x < 2 ^ 26" "unat y < 2 ^ 26"
  shows "x AND y = fieldBaseMask \<longleftrightarrow> x = fieldBaseMask \<and> y = fieldBaseMask"
proof
  assume e: "x AND y = fieldBaseMask"
  have "unat (x AND y) \<le> unat x" "unat (x AND y) \<le> unat y"
    using word_and_le2 [of x y] word_and_le1 [of x y] by (simp_all add: word_le_nat_alt)
  then show "x = fieldBaseMask \<and> y = fieldBaseMask"
    using assms unfolding e by (simp add: word_eq_unat base_mask_unat)
qed simp

lemma nat_le_div_add: "k \<le> x div c + y \<longleftrightarrow> c * k \<le> x + c * y" if "0 < c" for c k x y :: nat
proof -
  have "k \<le> x div c + y \<longleftrightarrow> k \<le> (x + c * y) div c" using that by (simp add: add.commute)
  also have "\<dots> \<longleftrightarrow> c * k \<le> x + c * y" by (subst less_eq_div_iff_mult_less_eq [OF that]) (simp add: mult.commute)
  finally show ?thesis .
qed

lemma low_words_overflow:
  fixes a b :: u32
  assumes "unat a < 2 ^ 26" "unat b < 2 ^ 26"
  shows "drop_bit fieldBase (a + 977) + b + 64 > fieldBaseMask \<longleftrightarrow> 0x3fffc2f + 2 ^ 26 * 0x3ffffbf \<le> unat a + 2 ^ 26 * unat b"
proof -
  have a: "unat (a + 977) = unat a + 977" using assms unat_sum [of a 977] by simp
  have d: "unat (drop_bit 26 (a + 977)) = (unat a + 977) div 2 ^ 26" by (simp only: unat_shifted a)
  have s: "unat (drop_bit 26 (a + 977) + b) = (unat a + 977) div 2 ^ 26 + unat b"
    using assms d unat_sum [of "drop_bit 26 (a + 977)" b] by simp
  have "unat (drop_bit 26 (a + 977) + b + 64) = (unat a + 977) div 2 ^ 26 + unat b + 64"
    using assms s unat_sum [of "drop_bit 26 (a + 977) + b" 64] by simp
  then have "drop_bit fieldBase (a + 977) + b + 64 > fieldBaseMask \<longleftrightarrow> 2 ^ 26 \<le> (unat a + 977) div 2 ^ 26 + unat b + 64"
    by (simp add: fieldBase_def word_less_nat_alt base_mask_unat less_eq_Suc_le)
  also have "\<dots> \<longleftrightarrow> 2 ^ 26 * 2 ^ 26 \<le> unat a + 977 + 2 ^ 26 * (unat b + 64)" by (simp add: nat_le_div_add)
  also have "\<dots> \<longleftrightarrow> 0x3fffc2f + 2 ^ 26 * 0x3ffffbf \<le> unat a + 2 ^ 26 * unat b" by simp
  finally show ?thesis .
qed

text \<open>Words after the first pass of \<^verbatim>\<open>Normalize\<close>.\<close>

lemma carried_split:
  assumes "carried t"
  shows "fval t = unat (t ! 0) + 2 ^ 26 * unat (t ! 1) + (2 ^ 26) ^ 2 * fval [t ! 2, t ! 3, t ! 4, t ! 5, t ! 6, t ! 7, t ! 8] +
      (2 ^ 26) ^ 9 * unat (t ! 9)"
    "\<forall>x \<in> {t ! 0, t ! 1, t ! 2, t ! 3, t ! 4, t ! 5, t ! 6, t ! 7, t ! 8}. unat x < 2 ^ 26" "unat (t ! 9) < 2 ^ 22 + 2 ^ 6"
proof -
  have t: "t = [t ! 0, t ! 1, t ! 2, t ! 3, t ! 4, t ! 5, t ! 6, t ! 7, t ! 8, t ! 9]"
    by (rule list10) (use assms in \<open>simp add: carried_def\<close>)
  show "fval t = unat (t ! 0) + 2 ^ 26 * unat (t ! 1) + (2 ^ 26) ^ 2 * fval [t ! 2, t ! 3, t ! 4, t ! 5, t ! 6, t ! 7, t ! 8] +
      (2 ^ 26) ^ 9 * unat (t ! 9)"
    by (subst arg_cong [OF t, of fval]) (simp add: algebra_simps)
  have "butlast t = [t ! 0, t ! 1, t ! 2, t ! 3, t ! 4, t ! 5, t ! 6, t ! 7, t ! 8]" "last t = t ! 9"
    by (subst arg_cong [OF t, of butlast], simp) (subst arg_cong [OF t, of last], simp)
  then show "\<forall>x \<in> {t ! 0, t ! 1, t ! 2, t ! 3, t ! 4, t ! 5, t ! 6, t ! 7, t ! 8}. unat x < 2 ^ 26" "unat (t ! 9) < 2 ^ 22 + 2 ^ 6"
    using assms by (simp_all add: carried_def)
qed

lemma prime_le_iff:
  fixes a b c d :: nat
  assumes "a < 2 ^ 26" "b < 2 ^ 26" "c + 1 \<le> (2 ^ 26) ^ 7"
  shows "nat secp_P \<le> a + 2 ^ 26 * b + (2 ^ 26) ^ 2 * c + (2 ^ 26) ^ 9 * d \<longleftrightarrow>
    2 ^ 22 \<le> d \<or> (d = 2 ^ 22 - 1 \<and> c + 1 = (2 ^ 26) ^ 7 \<and> 0x3fffc2f + 2 ^ 26 * 0x3ffffbf \<le> a + 2 ^ 26 * b)"
  using assms by (auto simp: secp_P_def)

lemma fv_overflow_val:
  assumes t: "carried t"
  shows "fv_overflow t = (if nat secp_P \<le> fval t then 1 else 0)"
proof -
  let ?c = "[t ! 2, t ! 3, t ! 4, t ! 5, t ! 6, t ! 7, t ! 8]"
  note c = carried_split [OF t]
  have w: "unat (t ! 0) < 2 ^ 26" "unat (t ! 1) < 2 ^ 26" "\<forall>x \<in> set ?c. unat x < 2 ^ 26" using c(2) by simp_all
  have m: "fval ?c + 1 \<le> (2 ^ 26) ^ 7" "fval ?c + 1 = (2 ^ 26) ^ 7 \<longleftrightarrow> (\<forall>x \<in> set ?c. unat x = 2 ^ 26 - 1)"
    using fval_max [OF w(3)] by simp_all
  have "t ! 2 AND t ! 3 AND t ! 4 AND t ! 5 AND t ! 6 AND t ! 7 AND t ! 8 = fieldBaseMask \<longleftrightarrow> (\<forall>x \<in> set ?c. x = fieldBaseMask)"
    using w(3) by (simp add: and_max and_small [simplified])
  then have a: "t ! 2 AND t ! 3 AND t ! 4 AND t ! 5 AND t ! 6 AND t ! 7 AND t ! 8 = fieldBaseMask \<longleftrightarrow> fval ?c + 1 = (2 ^ 26) ^ 7"
    unfolding m(2) by (simp only: word_eq_unat base_mask_unat)
  have n: "t ! 9 = fieldMSBMask \<longleftrightarrow> unat (t ! 9) = 2 ^ 22 - 1" by (simp only: word_eq_unat base_mask_unat)
  have h: "drop_bit fieldMSBBits (t ! 9) \<noteq> 0 \<longleftrightarrow> 2 ^ 22 \<le> unat (t ! 9)"
    by (simp add: word_eq_unat fieldMSBBits_def unat_shifted div_eq_0_iff not_less)
  show ?thesis
    unfolding c(1) prime_le_iff [OF w(1,2) m(1)] fv_overflow_def Let_def a n h low_words_overflow [OF w(1,2)] by simp
qed

lemma fval_top: "f \<noteq> [] \<Longrightarrow> fval f = fval (butlast f) + (2 ^ 26) ^ (length f - 1) * unat (last f)"
  using fval_append [of "butlast f" "[last f]"] by simp

lemma carried_bound: "carried t \<Longrightarrow> fval t < (2 ^ 26) ^ 9 * (unat (last t) + 1)"
proof -
  assume t: "carried t"
  then have "fval (butlast t) + 1 \<le> (2 ^ 26) ^ 9" using fval_max [of "butlast t"] by (simp add: carried_def)
  moreover have "t \<noteq> []" using t by (auto simp: carried_def)
  ultimately show ?thesis using fval_top [of t] t by (simp add: carried_def algebra_simps)
qed

text \<open>The words \<^verbatim>\<open>Normalize\<close> leaves: 26 bits each, 22 in the last one, a value below the prime.\<close>

lemma set_last: "xs \<noteq> [] \<Longrightarrow> set xs = insert (last xs) (set (butlast xs))"
  by (cases xs rule: rev_cases) auto

lemma list_update_last: "xs \<noteq> [] \<Longrightarrow> n = length xs - 1 \<Longrightarrow> xs[n := y] = butlast xs @ [y]"
  by (cases xs rule: rev_cases) simp_all

lemma last10: "length xs = 10 \<Longrightarrow> xs \<noteq> [] \<and> xs ! 9 = last xs"
  using last_conv_nth [of xs] by (cases "xs = []") simp_all

lemma normalize_first_pass:
  assumes n: "length n = 10" "\<forall>x \<in> set (butlast n). unat x < 2 ^ 31"
  defines "m \<equiv> drop_bit 22 (n ! 9)"
  defines "t \<equiv> add_c m (n[9 := n ! 9 AND fieldMSBMask])"
  shows "carried t" "fval n = fval t + unat m * nat secp_P"
proof -
  have ne: "n \<noteq> []" and l9: "n ! 9 = last n" using last10 [OF n(1)] by simp_all
  define n' where "n' = butlast n @ [n ! 9 AND fieldMSBMask]"
  have e: "n[9 := n ! 9 AND fieldMSBMask] = n'" using list_update_last [OF ne, of 9] n(1) by (simp add: n'_def)
  have m: "unat m = unat (n ! 9) div 2 ^ 22" "unat m < 2 ^ 10"
    using unat_bound [of "n ! 9"] by (simp_all add: m_def unat_shifted div_less_iff_less_mult)
  have n': "length n' = 10" "\<forall>x \<in> set n'. unat x < 2 ^ 31" "unat (last n') < 2 ^ 22"
    using n by (auto simp: n'_def unat_masked intro: less_trans [OF mod_less_divisor])
  note t = add_c_val [OF n'(1,2) m(2), folded e, folded t_def, unfolded e]
  show "carried t" using t n'(3) by (simp add: carried_def)
  have "unat (n ! 9) = unat (n ! 9) mod 2 ^ 22 + 2 ^ 22 * unat m" unfolding m(1) by simp
  then have "(2 ^ 26) ^ 9 * unat (n ! 9) = (2 ^ 26) ^ 9 * (unat (n ! 9) mod 2 ^ 22) + (2 ^ 26) ^ 9 * (2 ^ 22 * unat m)"
    by (metis distrib_left)
  then have "fval n = fval n' + unat m * 2 ^ 256"
    using fval_top [OF ne] n(1) l9 fval_append [of "butlast n" "[n ! 9 AND fieldMSBMask]"] by (simp add: n'_def unat_masked)
  then show "fval n = fval t + unat m * nat secp_P" unfolding t(2) by (simp add: secp_P_def algebra_simps)
qed

text \<open>The second pass subtracts the prime when the value is not below it.\<close>

lemma normalize_second_pass:
  assumes t: "carried t"
  defines "b \<equiv> fv_overflow t"
  defines "u \<equiv> add_c b t"
  shows "length u = 10" "\<forall>x \<in> set (butlast u). unat x < 2 ^ 26"
    "fval (butlast u) + (2 ^ 26) ^ 9 * (unat (last u) mod 2 ^ 22) + unat b * nat secp_P = fval t"
    "fval (butlast u) + (2 ^ 26) ^ 9 * (unat (last u) mod 2 ^ 22) < nat secp_P"
proof -
  have tl: "length t = 10" "t \<noteq> []" "\<forall>x \<in> set (butlast t). unat x < 2 ^ 26" "unat (last t) < 2 ^ 22 + 2 ^ 6"
    using t last10 [of t] by (simp_all add: carried_def)
  then have t31: "\<forall>x \<in> set t. unat x < 2 ^ 31" using set_last [OF tl(2)] by force
  have bv: "unat b = (if nat secp_P \<le> fval t then 1 else 0)" using fv_overflow_val [OF t] by (simp add: b_def)
  then have "unat b < 2 ^ 10" by simp
  note u = add_c_val [OF tl(1) t31 this, folded u_def]
  show "length u = 10" "\<forall>x \<in> set (butlast u). unat x < 2 ^ 26" using u by simp_all
  have fu: "fval u = fval (butlast u) + (2 ^ 26) ^ 9 * unat (last u)" using fval_top [of u] u(1) last10 [OF u(1)] by simp
  have bu: "fval (butlast u) + 1 \<le> (2 ^ 26) ^ 9" using fval_max [OF u(3)] u(1) by simp
  let ?f = "fval (butlast u) + (2 ^ 26) ^ 9 * (unat (last u) mod 2 ^ 22)"
  have "?f + unat b * nat secp_P = fval t \<and> ?f < nat secp_P"
  proof (cases "nat secp_P \<le> fval t")
    case True
    have "(2 ^ 26) ^ 9 * 2 ^ 22 \<le> fval u" using u(2) True bv by (simp add: secp_P_def)
    then have "2 ^ 22 \<le> unat (last u)" using fu bu by simp
    then obtain d where d: "unat (last u) = 2 ^ 22 + d" by (auto simp: le_iff_add)
    then have "unat (last u) mod 2 ^ 22 = d" using u(4) tl(4) by simp
    then have f: "?f = fval (butlast u) + (2 ^ 26) ^ 9 * d" "fval u = fval (butlast u) + (2 ^ 26) ^ 9 * 2 ^ 22 + (2 ^ 26) ^ 9 * d"
      using fu d by (simp_all only: distrib_left add.assoc)
    have "unat (last t) + 1 \<le> 2 ^ 22 + 2 ^ 6" using tl(4) by simp
    then have "(2 ^ 26) ^ 9 * (unat (last t) + 1) \<le> (2 ^ 26) ^ 9 * (2 ^ 22 + 2 ^ 6)" by (rule mult_left_mono) simp
    then have "fval t < (2 ^ 26) ^ 9 * (2 ^ 22 + 2 ^ 6)" using carried_bound [OF t] by (rule less_le_trans [rotated])
    then show ?thesis unfolding f(1) using f(2) u(2) bv True by (simp add: secp_P_def)
  next
    case False
    then have "fval u < (2 ^ 26) ^ 9 * 2 ^ 22" using u(2) bv by (simp add: secp_P_def)
    then have "unat (last u) < 2 ^ 22" using fu by simp
    then show ?thesis using fu u(2) bv False by simp
  qed
  then show "?f + unat b * nat secp_P = fval t" "?f < nat secp_P" by blast+
qed

lemma fv_Normalize_val:
  assumes n: "length n = 10" "\<forall>x \<in> set (butlast n). unat x < 2 ^ 31"
  shows "normalized (fv_Normalize n)" "int (fval (fv_Normalize n)) = int (fval n) mod secp_P"
proof -
  define m where "m = drop_bit 22 (n ! 9)"
  define t where "t = add_c m (n[9 := n ! 9 AND fieldMSBMask])"
  define b where "b = fv_overflow t"
  define u where "u = add_c b t"
  note t = normalize_first_pass [OF n, folded m_def, folded t_def]
  note u = normalize_second_pass [OF t(1), folded b_def, folded u_def]
  define f where "f = butlast u @ [last u AND fieldMSBMask]"
  have e: "fv_Normalize n = f"
    using last10 [OF u(1)] list_update_last [of u 9] u(1)
    by (simp add: fv_Normalize_def fieldMSBBits_def m_def [symmetric] t_def [symmetric] b_def [symmetric]
        u_def [symmetric] f_def)
  have fv: "fval f = fval (butlast u) + (2 ^ 26) ^ 9 * (unat (last u) mod 2 ^ 22)"
    using fval_append [of "butlast u" "[last u AND fieldMSBMask]"] u(1) by (simp add: f_def unat_masked)
  then have v: "fval n = fval f + (unat m + unat b) * nat secp_P" "fval f < nat secp_P"
    using t(2) u(3,4) by (simp_all add: distrib_right)
  then have lt: "int (fval f) < secp_P" by linarith
  then show "normalized (fv_Normalize n)" unfolding e using u(1,2) by (simp add: normalized_def f_def unat_masked)
  have "int (fval n) = int (fval f) + int (unat m + unat b) * secp_P" unfolding v(1) using secp_P_pos by simp
  then have "int (fval n) mod secp_P = int (fval f) mod secp_P" by (simp only: mod_mult_self1)
  then show "int (fval (fv_Normalize n)) = int (fval n) mod secp_P" unfolding e using lt by simp
qed


lemma denotes_Normalize:
  assumes "denotes f m x" "m \<le> 30"
  shows "normalized (fv_Normalize f)" "int (fval (fv_Normalize f)) = x mod secp_P"
proof -
  have f: "fv_magnitude m f" "int (fval f) mod secp_P = x mod secp_P" using assms(1) by (simp_all only: denotes_def)
  have "m * 0x4400000 \<le> 30 * 0x4400000" using assms(2) by (rule mult_right_mono) simp
  then have "\<forall>x \<in> set (butlast f). unat x < 2 ^ 31" "length f = 10" using f(1) by (auto simp: fv_magnitude_def)
  then show "normalized (fv_Normalize f)" "int (fval (fv_Normalize f)) = x mod secp_P"
    using fv_Normalize_val [of f] f(2) by simp_all
qed

lemma normalized_denotes: "normalized f \<Longrightarrow> int (fval f) mod secp_P = x mod secp_P \<Longrightarrow> denotes f 1 x"
  by (auto simp: normalized_def denotes_def fv_magnitude_def)

section \<open>Comparisons\<close>

lemma fval_inj:
  "length f = length g \<Longrightarrow> \<forall>x \<in> set (butlast f). unat x < 2 ^ 26 \<Longrightarrow> \<forall>x \<in> set (butlast g). unat x < 2 ^ 26 \<Longrightarrow>
     fval f = fval g \<Longrightarrow> f = g" for f g :: fieldVal
proof (induction f g rule: list_induct2)
  case (Cons x f y g)
  show ?case
  proof (cases "f = []")
    case True
    then show ?thesis using Cons by (simp add: word_eq_unat)
  next
    case False
    then have "g \<noteq> []" using Cons.hyps by auto
    with Cons False have b: "unat x < 2 ^ 26" "unat y < 2 ^ 26" and e: "unat x + 2 ^ 26 * fval f = unat y + 2 ^ 26 * fval g" by simp_all
    have "unat x = unat y" using arg_cong [OF e, of "\<lambda>n. n mod 2 ^ 26"] b by simp
    then show ?thesis using Cons e False \<open>g \<noteq> []\<close> by (simp add: word_eq_unat)
  qed
qed simp

lemma foldl_or_zero: "foldl (OR) x xs = 0 \<longleftrightarrow> x = 0 \<and> (\<forall>y \<in> set xs. y = (0 :: u32))"
  by (induction xs arbitrary: x) (auto simp: or_eq_0_iff)

lemma xor_zero: "x XOR y = 0 \<longleftrightarrow> x = y" for x y :: u32
  by (metis xor.assoc xor.left_neutral xor.right_neutral xor_self_eq)

lemma fv_Equals_iff: "length f = 10 \<Longrightarrow> length g = 10 \<Longrightarrow> fv_Equals f g \<longleftrightarrow> f = g"
proof -
  assume l: "length f = 10" "length g = 10"
  have "fv_Equals f g \<longleftrightarrow> (\<forall>i < 10. f ! i = g ! i)"
  proof -
    have "{..<10 :: nat} = insert 0 {1..<10}" by auto
    then have "(\<forall>i < 10. f ! i = g ! i) \<longleftrightarrow> f ! 0 = g ! 0 \<and> (\<forall>i \<in> {1..<10}. f ! i = g ! i)" by (metis insert_iff lessThan_iff)
    then show ?thesis unfolding fv_Equals_def foldl_or_zero by (simp add: xor_zero)
  qed
  then show ?thesis using l by (auto intro: nth_equalityI)
qed

lemma fv_Equals_val:
  assumes "normalized f" "normalized g"
  shows "fv_Equals f g \<longleftrightarrow> fval f = fval g"
  using assms fv_Equals_iff [of f g] fval_inj [of f g] by (auto simp: normalized_def)

lemma fv_IsOdd_val: "f \<noteq> [] \<Longrightarrow> fv_IsOdd f \<longleftrightarrow> odd (fval f)"
proof -
  assume "f \<noteq> []"
  then obtain x xs where f: "f = x # xs" by (cases f) auto
  have "unat (x AND 1) = unat x mod 2" by (simp add: and_one_eq unat_mod)
  then have "x AND 1 = 1 \<longleftrightarrow> odd (unat x)" by (auto simp: word_eq_unat odd_iff_mod_2_eq_one)
  then show ?thesis by (simp add: f fv_IsOdd_def)
qed

section \<open>Powers\<close>

lemma denotes_square_iter: "denotes f 1 (x ^ e) \<Longrightarrow> denotes ((fv_SquareVal ^^ k) f) 1 (x ^ (2 ^ k * e))"
proof (induction k)
  case (Suc k)
  then have "denotes (fv_SquareVal ((fv_SquareVal ^^ k) f)) 1 ((x ^ (2 ^ k * e)) ^ 2)"
    using denotes_SquareVal [of _ 1] by simp
  moreover have "(x ^ (2 ^ k * e)) ^ 2 = x ^ (2 ^ Suc k * e)" by (simp add: power_mult [symmetric] ac_simps)
  ultimately show ?case by simp
qed simp

lemma denotes_pow_mul:
  assumes "denotes f 1 (x ^ e)" "denotes g m (x ^ e')" "m \<le> 15"
  shows "denotes (fv_Mul2 f g) 1 (x ^ (e + e'))"
  unfolding power_add by (rule denotes_Mul2 [OF assms(1) _ assms(2,3)]) simp

lemma denotes_square_mul:
  assumes "denotes f 1 (x ^ e)" "denotes g m x" "m \<le> 15"
  shows "denotes (square_mul (Other g) f) 1 (x ^ (2 * e + 1))"
  using denotes_pow_mul [of "fv_SquareVal f" x "2 * e" g m 1] denotes_square_iter [OF assms(1), of 1] assms(2,3)
  by (simp add: square_mul_def mul_ptr_def)

lemma denotes_square_mul_iter:
  assumes "denotes f 1 (x ^ e)" "denotes g m x" "m \<le> 15"
  shows "denotes ((square_mul (Other g) ^^ k) f) 1 (x ^ (2 ^ k * e + (2 ^ k - 1)))"
proof (induction k)
  case (Suc k)
  have "2 * (2 ^ k * e + (2 ^ k - 1)) + 1 = 2 ^ Suc k * e + (2 ^ Suc k - (1 :: nat))"
  proof -
    obtain j where "2 ^ k = Suc j" using not0_implies_Suc [of "2 ^ k"] by auto
    then show ?thesis by simp
  qed
  then show ?case using denotes_square_mul [OF Suc assms(2,3)] by simp
qed (use assms in simp)

lemma sqrt_byte_val:
  assumes "denotes f 1 (x ^ e)" "denotes g m x" "m \<le> 15" "b \<in> {0xff, 0xbf, 0x0c}"
  shows "denotes (sqrt_byte (Other g) f b) 1 (x ^ (256 * e + unat b))"
proof -
  note it = denotes_square_mul_iter [OF _ assms(2,3)]
  have "denotes ((square_mul (Other g) ^^ 8) f) 1 (x ^ (256 * e + 255))" using it [OF assms(1), of 8] by simp
  moreover have "denotes ((square_mul (Other g) ^^ 6) (fv_SquareVal (square_mul (Other g) f))) 1 (x ^ (256 * e + 191))"
    using it [OF denotes_square_iter [OF denotes_square_mul [OF assms(1-3)], of 1], of 6] by (simp add: add.commute)
  moreover have "denotes ((fv_SquareVal ^^ 2) ((square_mul (Other g) ^^ 2) ((fv_SquareVal ^^ 4) f))) 1 (x ^ (256 * e + 12))"
    using denotes_square_iter [OF it [OF denotes_square_iter [OF assms(1), of 4], of 2], of 2] by simp
  ultimately show ?thesis using assms(4) by (auto simp: sqrt_byte_def)
qed

lemma sqrt_bytes_val:
  assumes "denotes f 1 (x ^ e)" "denotes g m x" "m \<le> 15" "set bs \<subseteq> {0xff, 0xbf, 0x0c}"
  shows "denotes (foldl (sqrt_byte (Other g)) f bs) 1 (x ^ foldl (\<lambda>e b. 256 * e + unat b) e bs)"
  using assms(1,4)
proof (induction bs arbitrary: f e)
  case (Cons b bs)
  then have "denotes (sqrt_byte (Other g) f b) 1 (x ^ (256 * e + unat b))" by (intro sqrt_byte_val [OF _ assms(2,3)]) simp_all
  from Cons.IH [OF this] Cons.prems show ?case by simp
qed simp

lemma fval_zeros [simp]: "fval (replicate n 0) = 0"
  by (induction n) simp_all

lemma denotes_SetInt:
  assumes "unat i \<le> 0x4400000"
  shows "denotes (fv_SetInt i) 1 (int (unat i))"
proof -
  have e: "fv_SetInt i = ucast i # replicate 9 0"
    using replicate_Suc [of 9 "0 :: u32"] by (simp add: fv_SetInt_def fv_Zero_def)
  have u: "unat (ucast i :: u32) = unat i" using assms by (intro unat_narrow) simp
  have "fval (fv_SetInt i) = unat i" by (simp add: e u)
  moreover have "fv_magnitude 1 (fv_SetInt i)" unfolding e fv_magnitude_def using u assms by (auto dest: in_set_butlastD)
  ultimately show ?thesis by (simp add: denotes_def)
qed

lemma denotes_SetInt1: "denotes (fv_SetInt 1) 1 1"
  using denotes_SetInt [of 1] by simp

lemma foldl_ff: "foldl (\<lambda>e b. 256 * e + unat b) e (replicate k (0xff :: byte)) + 1 = 256 ^ k * (e + 1)"
proof (induction k arbitrary: e)
  case (Suc k)
  have "unat (0xff :: byte) = 255" by simp
  then show ?case using Suc [of "256 * e + 255"] by (simp add: algebra_simps)
qed simp

lemma fieldQBytes_val: "foldl (\<lambda>e b. 256 * e + unat b) 63 (tl fieldQBytes) = sqrt_exponent"
proof -
  have "foldl (\<lambda>e b. 256 * e + unat b) 63 (replicate 27 (0xff :: byte)) = 256 ^ 27 * 64 - 1"
    using foldl_ff [of 63 27] by simp
  then show ?thesis by (simp add: fieldQBytes_def sqrt_exponent_def secp_P_def)
qed

lemma denotes_SqrtVal:
  assumes "denotes f m x" "m \<le> 15"
  shows "denotes (fv_SqrtVal (Other f) g) 1 (x ^ sqrt_exponent)"
proof -
  have "denotes (fv_Mul2 (fv_SetInt 1) f) 1 (x ^ 1)" using denotes_Mul2 [OF denotes_SetInt1 _ assms] by simp
  from denotes_square_mul_iter [OF this assms, of 5]
  have "denotes (sqrt_byte (Other f) (fv_SetInt 1) 0x3f) 1 (x ^ 63)" by (simp add: sqrt_byte_def mul_ptr_def)
  from sqrt_bytes_val [OF this assms, of "tl fieldQBytes"]
  have "denotes (foldl (sqrt_byte (Other f)) (sqrt_byte (Other f) (fv_SetInt 1) 0x3f) (tl fieldQBytes)) 1 (x ^ sqrt_exponent)"
    unfolding fieldQBytes_val by (auto simp: fieldQBytes_def)
  then show ?thesis by (simp add: fv_SqrtVal_def fieldQBytes_def)
qed

text \<open>With the receiver as argument every step works on the one that \<^verbatim>\<open>SetInt(1)\<close> left.\<close>

lemma denotes_one_steps:
  assumes "denotes f 1 1"
  shows "denotes (fv_SquareVal f) 1 1" "denotes (mul_ptr Receiver f) 1 1" "denotes (square_mul Receiver f) 1 1"
proof -
  have sq: "denotes (fv_SquareVal f) 1 1" if "denotes f 1 1" for f using denotes_SquareVal [OF that] by simp
  have mul: "denotes (mul_ptr Receiver f) 1 1" if "denotes f 1 1" for f
    using denotes_Mul2 [OF that _ that] by (simp add: mul_ptr_def)
  show "denotes (fv_SquareVal f) 1 1" "denotes (mul_ptr Receiver f) 1 1" by (rule sq mul, rule assms)+
  show "denotes (square_mul Receiver f) 1 1" unfolding square_mul_def by (rule mul [OF sq [OF assms]])
qed

lemma denotes_one_iter:
  assumes "denotes f 1 1"
  shows "denotes ((fv_SquareVal ^^ k) f) 1 1" "denotes ((square_mul Receiver ^^ k) f) 1 1"
  using assms by (induction k) (simp_all add: denotes_one_steps del: One_nat_def)

lemma denotes_Sqrt: "denotes (fv_Sqrt f) 1 1"
proof -
  have b: "denotes (sqrt_byte Receiver g b) 1 1" if "denotes g 1 1" for g b
    using that by (simp add: sqrt_byte_def denotes_one_iter denotes_one_steps del: One_nat_def)
  have "denotes (foldl (sqrt_byte Receiver) g bs) 1 1" if "denotes g 1 1" for g bs
    using that by (induction bs arbitrary: g) (simp_all add: b del: One_nat_def)
  from this [OF denotes_SetInt1] show ?thesis unfolding fv_Sqrt_def fv_SqrtVal_def Let_def .
qed

lemma square10_mul_val:
  assumes "denotes f 1 (x ^ e)" "denotes g 1 (x ^ e')"
  shows "denotes (square10_mul g f) 1 (x ^ (1024 * e + e'))"
  using denotes_pow_mul [OF denotes_square_iter [OF assms(1), of 10] assms(2)] by (simp add: square10_mul_def)

lemma square10_mul_iter:
  assumes "denotes f 1 (x ^ e)" "denotes g 1 (x ^ 1023)"
  shows "denotes ((square10_mul g ^^ k) f) 1 (x ^ (1024 ^ k * (e + 1) - 1))"
proof (induction k)
  case (Suc k)
  have "1024 * (1024 ^ k * (e + 1) - 1) + 1023 = 1024 ^ Suc k * (e + 1) - (1 :: nat)"
  proof -
    obtain j where "1024 ^ k * (e + 1) = Suc j" using not0_implies_Suc [of "1024 ^ k * (e + 1)"] by auto
    then show ?thesis by (simp add: mult.assoc)
  qed
  then show ?case using square10_mul_val [OF Suc assms(2)] by simp
qed (use assms in simp)

lemma denotes_Inverse:
  assumes f: "denotes f 1 x"
  shows "denotes (fv_Inverse f) 1 (x ^ nat (secp_P - 2))"
proof -
  define a2 where "a2 = fv_SquareVal f"
  define a3 where "a3 = fv_Mul2 a2 f"
  define a4 where "a4 = fv_SquareVal a2"
  define a10 where "a10 = fv_Mul2 (fv_SquareVal a4) a2"
  define a11 where "a11 = fv_Mul2 a10 f"
  define a21 where "a21 = fv_Mul2 a10 a11"
  define a42 where "a42 = fv_SquareVal a21"
  define a45 where "a45 = fv_Mul2 a42 a3"
  define a63 where "a63 = fv_Mul2 a42 a21"
  define a1019 where "a1019 = fv_Mul2 ((fv_SquareVal ^^ 4) a63) a11"
  define a1023 where "a1023 = fv_Mul2 a1019 a4"
  have 1: "denotes f 1 (x ^ 1)" using f by simp
  have 2: "denotes a2 1 (x ^ 2)" using denotes_square_iter [OF 1, of 1] by (simp add: a2_def)
  have 3: "denotes a3 1 (x ^ 3)" using denotes_pow_mul [OF 2 1] by (simp add: a3_def)
  have 4: "denotes a4 1 (x ^ 4)" using denotes_square_iter [OF 2, of 1] by (simp add: a4_def)
  have 10: "denotes a10 1 (x ^ 10)" using denotes_pow_mul [OF denotes_square_iter [OF 4, of 1] 2] by (simp add: a10_def)
  have 11: "denotes a11 1 (x ^ 11)" using denotes_pow_mul [OF 10 1] by (simp add: a11_def)
  have 21: "denotes a21 1 (x ^ 21)" using denotes_pow_mul [OF 10 11] by (simp add: a21_def)
  have 42: "denotes a42 1 (x ^ 42)" using denotes_square_iter [OF 21, of 1] by (simp add: a42_def)
  have 45: "denotes a45 1 (x ^ 45)" using denotes_pow_mul [OF 42 3] by (simp add: a45_def)
  have 63: "denotes a63 1 (x ^ 63)" using denotes_pow_mul [OF 42 21] by (simp add: a63_def)
  have 1019: "denotes a1019 1 (x ^ 1019)" using denotes_pow_mul [OF denotes_square_iter [OF 63, of 4] 11] by (simp add: a1019_def)
  have 1023: "denotes a1023 1 (x ^ 1023)" using denotes_pow_mul [OF 1019 4] by (simp add: a1023_def)
  define e where "e = 1024 * (1024 ^ 21 * (63 + 1) - 1) + (1019 :: nat)"
  define e' where "e' = 1024 ^ 2 * (e + 1) - 1"
  have "denotes (square10_mul a1019 ((square10_mul a1023 ^^ 21) a63)) 1 (x ^ e)"
    unfolding e_def by (rule square10_mul_val [OF square10_mul_iter [OF 63 1023] 1019])
  then have "denotes ((square10_mul a1023 ^^ 2) (square10_mul a1019 ((square10_mul a1023 ^^ 21) a63))) 1 (x ^ e')"
    unfolding e'_def by (rule square10_mul_iter [OF _ 1023])
  from denotes_pow_mul [OF denotes_square_iter [OF this, of 10] 45]
  have "denotes (fv_Inverse f) 1 (x ^ (2 ^ 10 * e' + 45))"
    by (simp add: fv_Inverse_def a2_def [symmetric] a3_def [symmetric] a4_def [symmetric] a10_def [symmetric]
        a11_def [symmetric] a21_def [symmetric] a42_def [symmetric] a45_def [symmetric] a63_def [symmetric]
        a1019_def [symmetric] a1023_def [symmetric])
  moreover have "2 ^ 10 * e' + 45 = nat (secp_P - 2)" by (simp add: e'_def e_def secp_P_def)
  ultimately show ?thesis by (simp only:)
qed

section \<open>Arithmetic in the field\<close>

text \<open>C13. The operations of the field type compute modulo the prime: for values within the magnitude 15 that stand for \<open>x\<close>
  and \<open>y\<close>, \<^verbatim>\<open>Mul2\<close> and \<^verbatim>\<open>SquareVal\<close> give values of magnitude 1 that stand for the product and the square, \<^verbatim>\<open>Add\<close> and
  \<^verbatim>\<open>NegateVal\<close> the sum and the negation with the magnitudes the comments of the source state. No intermediate
  32-bit or 64-bit word wraps around.\<close>

theorem field_arithmetic:
  assumes "denotes a m x" "m \<le> 15" "denotes b n y" "n \<le> 15"
  shows "denotes (fv_Mul2 a b) 1 (x * y) \<and> denotes (fv_SquareVal a) 1 (x ^ 2) \<and>
    denotes (fv_Add a b) (m + n) (x + y) \<and> denotes (fv_NegateVal a (of_nat m)) (m + 1) (- x)"
  using denotes_Mul2 [OF assms] denotes_SquareVal [OF assms(1,2)] denotes_Add [OF assms(1,3)]
    denotes_NegateVal [OF assms(1,2)] assms(2,4) by simp

theorem field_arithmetic_witness:
  "denotes (fv_Mul2 (fv_SetInt 3) (fv_SetInt 5)) 1 15 \<and> denotes (fv_SquareVal (fv_SetInt 3)) 1 9 \<and>
   denotes (fv_Add (fv_SetInt 3) (fv_SetInt 5)) 2 8 \<and> denotes (fv_NegateVal (fv_SetInt 3) 1) 2 (- 3)"
  using field_arithmetic [OF denotes_SetInt [of 3] _ denotes_SetInt [of 5]] by (simp flip: numeral_2_eq_2)

text \<open>C14. \<^verbatim>\<open>Normalize\<close> is a canonical form: for every value up to magnitude 30 it gives the words of the residue itself,
  below the prime and with every word within its bits, so that \<^verbatim>\<open>Equals\<close> on normalised values is equality in the field
  and \<^verbatim>\<open>IsOdd\<close> the parity of the residue.\<close>

theorem field_normal_form:
  assumes "denotes a m x" "m \<le> 30" "denotes b n y" "n \<le> 30"
  shows "normalized (fv_Normalize a) \<and> int (fval (fv_Normalize a)) = x mod secp_P \<and>
    (fv_Equals (fv_Normalize a) (fv_Normalize b) \<longleftrightarrow> x mod secp_P = y mod secp_P) \<and>
    (fv_IsOdd (fv_Normalize a) \<longleftrightarrow> odd (x mod secp_P))"
proof -
  note a = denotes_Normalize [OF assms(1,2)] and b = denotes_Normalize [OF assms(3,4)]
  have "fv_Equals (fv_Normalize a) (fv_Normalize b) \<longleftrightarrow> x mod secp_P = y mod secp_P"
    unfolding fv_Equals_val [OF a(1) b(1)] a(2) [symmetric] b(2) [symmetric] by simp
  moreover have "fv_IsOdd (fv_Normalize a) \<longleftrightarrow> odd (x mod secp_P)"
  proof -
    have "fv_Normalize a \<noteq> []" using a(1) by (auto simp: normalized_def)
    then show ?thesis unfolding a(2) [symmetric] by (simp add: fv_IsOdd_val)
  qed
  ultimately show ?thesis using a by simp
qed

theorem field_normal_form_witness:
  "int (fval (fv_Normalize (fv_SetInt 7))) = 7 mod secp_P \<and>
   (fv_Equals (fv_Normalize (fv_SetInt 7)) (fv_Normalize (fv_SetInt 5)) \<longleftrightarrow> 7 mod secp_P = 5 mod secp_P) \<and>
   (fv_IsOdd (fv_Normalize (fv_SetInt 7)) \<longleftrightarrow> odd (7 mod secp_P))"
  using field_normal_form [OF denotes_SetInt [of 7] _ denotes_SetInt [of 5]] by simp

text \<open>C15. \<^verbatim>\<open>SqrtVal\<close>, called with another variable than its receiver, walks the bytes of \<open>(P + 1) / 4\<close> and gives the power
  of its argument with that exponent, whatever the receiver held; \<^verbatim>\<open>Inverse\<close>, an addition chain of squarings and products, gives the power with the exponent
  \<open>P - 2\<close>: the exponents that give a square root and the inverse modulo a prime that is 3 modulo 4.\<close>

theorem field_powers:
  assumes "denotes f 1 x"
  shows "denotes (fv_SqrtVal (Other f) g) 1 (x ^ nat ((secp_P + 1) div 4)) \<and> denotes (fv_Inverse f) 1 (x ^ nat (secp_P - 2))"
  using denotes_SqrtVal [OF assms] denotes_Inverse [OF assms] by (simp add: sqrt_exponent_def)

theorem field_powers_witness:
  "denotes (fv_SqrtVal (Other (fv_SetInt 4)) fv_Zero) 1 (4 ^ nat ((secp_P + 1) div 4)) \<and>
   denotes (fv_Inverse (fv_SetInt 4)) 1 (4 ^ nat (secp_P - 2))"
proof -
  have "denotes (fv_SetInt 4) 1 4" using denotes_SetInt [of 4] by simp
  then show ?thesis by (rule field_powers)
qed

text \<open>C16. \<^verbatim>\<open>Sqrt\<close>, documented to compute the square root of its receiver, gives one for every receiver: it calls \<^verbatim>\<open>SqrtVal\<close> with the receiver as
  argument, and \<^verbatim>\<open>SqrtVal\<close> overwrites the receiver with one before it reads the argument. So the square of the result is
  the receiver's value only when that is one.\<close>

theorem Sqrt_constant:
  "fval (fv_Normalize (fv_Sqrt f)) = 1"
  using denotes_Normalize(2) [OF denotes_Sqrt [of f]] by (simp add: secp_P_def)

end
