(* ===== verification/Spec2Isabelle.thy ===== *)
theory Spec2Isabelle
  imports Script_Builder Block_Safety PoC_Proof Field_Ops
begin

text \<open>
  A verification development for the miner of a proof-of-capacity chain (the Go sources under \<^verbatim>\<open>src/\<close>).

  \<^bold>\<open>The program.\<close> A node receives blocks and transactions from the network, stores them in LevelDB and mines on plot
  files. What a block may contain is decided by four parts. Package \<^verbatim>\<open>wire\<close> defines transactions and blocks, their
  protobuf form and the bytes that are hashed. Package \<^verbatim>\<open>txscript\<close> runs the output script and the witness of every
  input on a stack machine. Package \<^verbatim>\<open>blockchain\<close> checks transactions and blocks against the outputs they spend,
  counts fees and subsidy, enforces relative locks and has the scripts checked by a pool of goroutines. Packages
  \<^verbatim>\<open>poc\<close> and \<^verbatim>\<open>pocec\<close> hold the proof of capacity of a header, its hash function and the curve arithmetic of its keys.

  \<^bold>\<open>Conventions.\<close> A Go function with an error result is a function into \<open>'e + 'a\<close>, composed with \<open>rbind\<close> in the order of
  the source; a run-time panic is an error constructor of its own (\<open>GoPanic\<close>, \<open>ChainPanic\<close>, \<open>PoCPanic\<close>) or \<open>None\<close>, so
  that freedom from panics is a statement. Unsigned integers are words of their width; signed ones are \<open>int\<close> with the
  wrap-around (\<open>i32\<close>, \<open>i64\<close>) written out where a value can leave its range; slices of bytes are lists of \<open>8 word\<close>; structs are
  records; maps are functions into \<open>option\<close> or lists of keys where the size matters. Code outside \<^verbatim>\<open>src/\<close> is a parameter: the hash functions of
  the standard library and the ECDSA package \<^verbatim>\<open>btcec\<close> are the fields of the record \<open>crypto\<close>, the database is the record \<open>chain_db\<close>,
  the floating-point formula of the quality of a proof is the function \<open>quality\<close>; where a theorem needs something of them
  it is a named hypothesis (\<open>hash_env\<close>: the lengths of digests).

  \<^bold>\<open>Theories.\<close>

  \<^item> \<open>Miner_Prelude\<close>: result type, wrap-around, little-endian bytes, and the contracts \<open>codec\<close> (an encoder and a
    decoder), \<open>cache_contract\<close> (a cache that may forget) and \<open>checked_sum\<close> (an addition that fails instead of leaving its range),
    with the lemmas their clients use. \<open>codec\<close> is interpreted by the integer encodings, script numbers, script code and transactions,
    \<open>cache_contract\<close> by the signature and the hash cache, \<open>checked_sum\<close> by the two additions of amounts, \<open>lifo\<close> (in \<open>Script_Stack\<close>) by the data stack.
  \<^item> \<open>Script_Error\<close>, \<open>Script_Num\<close>, \<open>Script_Stack\<close>, \<open>Opcodes\<close>, \<open>Script_Parse\<close>, \<open>Script_Builder\<close>, \<open>Script_Standard\<close>:
    \<^verbatim>\<open>txscript/{error,common,scriptnum,stack,opcode,script,scriptbuilder,standard}.go\<close>. Numbers and scripts round-trip,
    the parser ends on every input and agrees with a structural one, builders produce what the parser reads, standard outputs
    are classified as what they were built for (a governing output parses with a zero hash and period), and each stack word has its documented effect or fails with
    underflow, for counts whose index arithmetic fits 32 bits.
  \<^item> \<open>Wire_Tx\<close>, \<open>Sighash\<close>, \<open>Sig_Cache\<close>: \<^verbatim>\<open>wire/{msgtx,common,shahash}.go\<close>, \<^verbatim>\<open>wire/pb/tx.go\<close>, the signature hash of
    \<^verbatim>\<open>txscript/script.go\<close>, \<^verbatim>\<open>txscript/{hashcache,sigcache}.go\<close>. The protobuf form round-trips, \<^verbatim>\<open>PlainSize\<close> is exact, the signature
    hash commits to what it should up to the missing lengths of outputs. The signature cache is transparent; the hash cache answers with the hashes of an added transaction of
    that id, and ids of different transactions can agree.
  \<^item> \<open>Engine_Core\<close>, \<open>Engine_Ops\<close>, \<open>Script_Engine\<close>: the engine of \<^verbatim>\<open>txscript/engine.go\<close> and every opcode handler of
    \<^verbatim>\<open>txscript/opcode.go\<close>, one definition per handler and the table that selects it.
  \<^item> \<open>Engine_Inv\<close>, \<open>Engine_Handlers\<close>, \<open>Engine_Table\<close>, \<open>Engine_Run\<close>, \<open>Engine_Props\<close>, \<open>Engine_Verdicts\<close>, \<open>Engine_Multisig\<close>,
    \<open>Engine_Cache\<close>: a contract for handlers, its proof for the whole table, the invariant of runs, and what follows for a script check:
    it returns, stays within the limits, panics in one case only; what acceptance means for each class of output;
    multi-signatures refine their specification by subsequences; a sound signature cache does not change any verdict.
  \<^item> \<open>Chain_Error\<close>, \<open>Amount\<close>, \<open>Subsidy\<close>, \<open>Tx_Check\<close>: \<^verbatim>\<open>blockchain/errors.go\<close>, \<^verbatim>\<open>chainutil/safetype/uint128.go\<close>,
    \<^verbatim>\<open>chainutil/amount.go\<close>, the subsidy and the transaction checks of \<^verbatim>\<open>blockchain/validate.go\<close> and the transaction store of
    \<^verbatim>\<open>blockchain/txlookup.go\<close>. Amounts stay in range and sums are exact, and a block's reward is split into shares that lose at most
    three base units of the subsidy to rounding.
  \<^item> \<open>Script_Validate\<close>: \<^verbatim>\<open>blockchain/scriptval.go\<close>, with the goroutines and channels of \<^verbatim>\<open>Validate\<close> as a step relation:
    every schedule ends, with all goroutines gone and the verdict of the inputs, or with a crash. The goroutines share the memo map of script classes in \<^verbatim>\<open>chainutil/tx.go\<close> without a
    lock; its accesses are steps of the relation, and two inputs of one origin transaction can crash the process. The functions \<open>validate_all\<close> and
    \<open>checkBlockScripts\<close>, which block validation uses, give the verdict of a run without such a collision.
  \<^item> \<open>Block_Connect\<close>, \<open>Block_Safety\<close>: \<^verbatim>\<open>checkConnectBlock\<close> with the store it fetches, the coinbase, fees, relative locks
    (\<^verbatim>\<open>blockchain/chain.go\<close>) and the output policy (\<^verbatim>\<open>blockchain/policy.go\<close>). An accepted block spends distinct unspent outputs, and what it creates
    (for a header with a public key) is at most what it spends, the subsidy and, at the initial height, the fixed allocation; frozen outputs stay frozen, a theorem that goes through the engine, the lock calculation and the store.
  \<^item> \<open>Skt_Sha256\<close>, \<open>PoC_Proof\<close>: the hash of \<^verbatim>\<open>poc/pocutil/crypto/sha256\<close> with its streaming interface and marshalled state, and
    \<^verbatim>\<open>poc/proof.go\<close> with \<^verbatim>\<open>poc/pocutil\<close>. Any interleaving of writes, sums and resets agrees with the one-shot hash; proofs are malleable.
  \<^item> \<open>Field_Val\<close>, \<open>Field_Ops\<close>: \<^verbatim>\<open>pocec/field.go\<close>, the field of secp256k1 in ten words of 26 bits: products, squares, sums, negations, normalisation,
    inverses and \<^verbatim>\<open>SqrtVal\<close> into another variable compute in the field, and no word wraps around within the documented magnitudes. A receiver may alias an operand
    (\<open>field_ptr\<close>): \<^verbatim>\<open>Sqrt\<close>, which calls \<^verbatim>\<open>SqrtVal\<close> on its own receiver, always gives one.

  \<^bold>\<open>Loops.\<close> Loops are structural recursions or functions with a termination proof. The parse loop and the run loop
  \<^verbatim>\<open>Execute\<close> are \<open>partial_function\<close>s, where not returning is \<open>None\<close>: the parser is shown to return on every script, \<^verbatim>\<open>Execute\<close> on every engine
  \<^verbatim>\<open>NewEngine\<close> makes. No definition uses fuel. Goroutines are interleaved step by step, and a measure bounds every schedule.

  \<^bold>\<open>Not modelled.\<close> Storage (\<^verbatim>\<open>database\<close>), the network (\<^verbatim>\<open>p2p\<close>, \<^verbatim>\<open>netsync\<close>), RPC services, configuration and logging are
  input and output over third-party libraries. Plot files and the mining loop (\<^verbatim>\<open>poc/engine\<close>) are file and timer bound. The wallet derives
  and encrypts keys with third-party cryptography. ECDSA itself and the group law of the curve (\<^verbatim>\<open>pocec/pocec.go\<close>) are outside: the engine
  takes signature verification as a parameter. Floating point has no counterpart in the library used: the quality formula and
  the operations of \<^verbatim>\<open>float64\<close> that amounts are converted with are parameters. Locks of
  the caches are left out: each operation is one step. Block headers, the transaction pool, orphan pools, the block tree and difficulty are listed as
  not modelled in the manifest.
\<close>

end
